(* ===== verification/Prelude.thy ===== *)
theory Prelude
  imports Main "HOL-Library.Word"
begin

text \<open>
  Shared material: the error values of the storage layer, the four SQL statement shapes that
  the queries under storage/ use (SELECT, UPDATE, DELETE and INSERT ... ON CONFLICT over a table
  kept as a list of rows), Go's 64-bit wrap-around, and the collections the component
  proofs are automated with.
\<close>

named_theorems sql_simps \<open>equations of the SQL statement shapes\<close>
named_theorems wf_intros \<open>preservation of the database invariant\<close>
named_theorems frame_simps \<open>fields an operation leaves alone\<close>

section \<open>Go integers\<close>

text \<open>Go's \<^verbatim>\<open>int\<close> and \<^verbatim>\<open>time.Duration\<close> are 64-bit two's complement values.\<close>

definition wrap64 :: "int \<Rightarrow> int" where
  "wrap64 x = (x + 2 ^ 63) mod 2 ^ 64 - 2 ^ 63"

definition int64 :: "int \<Rightarrow> bool" where
  "int64 x \<longleftrightarrow> - (2 ^ 63) \<le> x \<and> x < 2 ^ 63"

lemma wrap64_id [simp]: "int64 x \<Longrightarrow> wrap64 x = x"
  by (simp add: int64_def wrap64_def)

lemma int64_wrap64 [simp]: "int64 (wrap64 x)"
proof -
  have "0 \<le> (x + 2 ^ 63) mod 2 ^ 64" and "(x + 2 ^ 63) mod 2 ^ 64 < (2 :: int) ^ 64"
    by simp_all
  then show ?thesis by (simp add: int64_def wrap64_def)
qed

lemma wrap64_word: "wrap64 x = sint (word_of_int x :: 64 word)"
  by (simp add: wrap64_def sint_word_ariths signed_take_bit_eq_take_bit_shift
      take_bit_eq_mod signed_of_int)

section \<open>SQL statement shapes\<close>

text \<open>A table is the list of its rows in rowid order.\<close>

definition update_where :: "('r \<Rightarrow> bool) \<Rightarrow> ('r \<Rightarrow> 'r) \<Rightarrow> 'r list \<Rightarrow> 'r list" where
  "update_where P f rows = map (\<lambda>r. if P r then f r else r) rows"

definition delete_where :: "('r \<Rightarrow> bool) \<Rightarrow> 'r list \<Rightarrow> 'r list" where
  "delete_where P rows = filter (\<lambda>r. \<not> P r) rows"

definition count_where :: "('r \<Rightarrow> bool) \<Rightarrow> 'r list \<Rightarrow> nat" where
  "count_where P rows = length (filter P rows)"

definition upsert :: "('r \<Rightarrow> 'k) \<Rightarrow> ('r \<Rightarrow> 'r \<Rightarrow> 'r) \<Rightarrow> 'r \<Rightarrow> 'r list \<Rightarrow> 'r list" where
  \<comment> \<open>INSERT ... ON CONFLICT(key) DO UPDATE: \<open>merge old excluded\<close> is the updated row\<close>
  "upsert key merge new rows =
     (if \<exists>r \<in> set rows. key r = key new
      then update_where (\<lambda>r. key r = key new) (\<lambda>r. merge r new) rows
      else rows @ [new])"

lemma set_update_where [sql_simps]:
  "set (update_where P f rows) = {r \<in> set rows. \<not> P r} \<union> f ` {r \<in> set rows. P r}"
  by (auto simp: update_where_def)

lemma set_delete_where [sql_simps]: "set (delete_where P rows) = {r \<in> set rows. \<not> P r}"
  by (simp add: delete_where_def)

lemma length_update_where [simp]: "length (update_where P f rows) = length rows"
  by (simp add: update_where_def)

lemma count_where_0 [sql_simps]: "count_where P rows = 0 \<longleftrightarrow> (\<forall>r \<in> set rows. \<not> P r)"
  by (auto simp: count_where_def filter_empty_conv)

lemma count_where_pos [sql_simps]: "0 < count_where P rows \<longleftrightarrow> (\<exists>r \<in> set rows. P r)"
  using count_where_0 [of P rows] by auto

text \<open>An UPDATE that leaves a column alone keeps the column's values.\<close>

lemma map_update_where [sql_simps]:
  "(\<And>r. P r \<Longrightarrow> key (f r) = key r) \<Longrightarrow> map key (update_where P f rows) = map key rows"
  by (auto simp: update_where_def)

lemma update_where_idle: "(\<And>r. r \<in> set rows \<Longrightarrow> \<not> P r) \<Longrightarrow> update_where P f rows = rows"
  by (auto simp: update_where_def intro: map_idI)

lemma delete_where_idle: "(\<And>r. r \<in> set rows \<Longrightarrow> \<not> P r) \<Longrightarrow> delete_where P rows = rows"
  by (auto simp: delete_where_def filter_id_conv)

lemma delete_where_append [simp]:
  "delete_where P (xs @ ys) = delete_where P xs @ delete_where P ys"
  by (simp add: delete_where_def)

lemma distinct_delete_where [wf_intros]:
  "distinct (map key rows) \<Longrightarrow> distinct (map key (delete_where P rows))"
  by (simp add: delete_where_def distinct_map_filter)

lemma distinct_update_where [wf_intros]:
  "distinct (map key rows) \<Longrightarrow> (\<And>r. P r \<Longrightarrow> key (f r) = key r) \<Longrightarrow>
   distinct (map key (update_where P f rows))"
  by (simp add: map_update_where)

lemma distinct_upsert [wf_intros]:
  "distinct (map key rows) \<Longrightarrow> (\<And>r. key r = key new \<Longrightarrow> key (merge r new) = key r) \<Longrightarrow>
   distinct (map key (upsert key merge new rows))"
proof (cases "\<exists>r \<in> set rows. key r = key new")
  case True
  assume "distinct (map key rows)" and "\<And>r. key r = key new \<Longrightarrow> key (merge r new) = key r"
  then have "distinct (map key (update_where (\<lambda>r. key r = key new) (\<lambda>r. merge r new) rows))"
    by (rule distinct_update_where)
  with True show ?thesis by (simp add: upsert_def)
next
  case False
  assume "distinct (map key rows)"
  with False show ?thesis by (auto simp: upsert_def)
qed

text \<open>A QueryRow is the first row that matches; a column with a UNIQUE constraint pins it.\<close>

lemma find_in_set: "List.find P rows = Some r \<Longrightarrow> r \<in> set rows \<and> P r"
  by (auto simp: find_Some_iff)

lemma find_none: "List.find P rows = None \<longleftrightarrow> (\<forall>r \<in> set rows. \<not> P r)"
  by (auto simp: find_None_iff)

lemma distinct_key_eq:
  "distinct (map key rows) \<Longrightarrow> r \<in> set rows \<Longrightarrow> r' \<in> set rows \<Longrightarrow> key r = key r' \<Longrightarrow> r = r'"
  by (auto simp: distinct_map inj_on_def)

lemma find_unique:
  assumes "distinct (map key rows)" and "r \<in> set rows" and "key r = k"
  shows "List.find (\<lambda>r. key r = k) rows = Some r"
proof (cases "List.find (\<lambda>r. key r = k) rows")
  case None
  with assms show ?thesis by (auto simp: find_none)
next
  case (Some r')
  then have "r' \<in> set rows" and "key r' = k" by (auto dest: find_in_set)
  with assms Some show ?thesis by (auto dest: distinct_key_eq)
qed

lemma find_delete_where:
  "List.find (\<lambda>r. key r = k) (delete_where (\<lambda>r. key r = k') rows) =
   (if k = k' then None else List.find (\<lambda>r. key r = k) rows)"
  by (induction rows) (auto simp: delete_where_def)

lemma find_upsert:
  assumes "\<And>r. key r = key new \<Longrightarrow> key (merge r new) = key r"
  shows "List.find (\<lambda>r. key r = k) (upsert key merge new rows) =
    (if k = key new
     then Some (case List.find (\<lambda>r. key r = k) rows of None \<Rightarrow> new | Some r \<Rightarrow> merge r new)
     else List.find (\<lambda>r. key r = k) rows)"
proof -
  have upd: "List.find (\<lambda>r. key r = k) (update_where (\<lambda>r. key r = key new) (\<lambda>r. merge r new) rows) =
    (if k = key new then map_option (\<lambda>r. merge r new) (List.find (\<lambda>r. key r = k) rows)
     else List.find (\<lambda>r. key r = k) rows)"
    using assms by (induction rows) (auto simp: update_where_def)
  have app: "List.find (\<lambda>r. key r = k) (rows @ [new]) =
    (case List.find (\<lambda>r. key r = k) rows of Some r \<Rightarrow> Some r
     | None \<Rightarrow> if k = key new then Some new else None)"
    by (induction rows) auto
  show ?thesis
  proof (cases "\<exists>r \<in> set rows. key r = key new")
    case True
    then have "k = key new \<Longrightarrow> List.find (\<lambda>r. key r = k) rows \<noteq> None"
      by (auto simp: find_none)
    with True upd show ?thesis by (auto simp: upsert_def)
  next
    case False
    then have "k = key new \<Longrightarrow> List.find (\<lambda>r. key r = k) rows = None"
      by (auto simp: find_none)
    with False app show ?thesis by (auto simp: upsert_def split: option.splits)
  qed
qed

section \<open>Keyed stores\<close>

text \<open>
  The contract of every keyed store in the program (SQL tables with a primary key, the
  in-memory ban set, the handler maps): what a lookup returns after a put or a delete. An
  entry \<open>w\<close> goes under \<open>key w\<close>, and \<open>img w\<close> is what a lookup finds there.
\<close>

locale keyed_store =
  fixes lookup :: "'s \<Rightarrow> 'k \<Rightarrow> 'v option"
    and put :: "'w \<Rightarrow> 's \<Rightarrow> 's"
    and del :: "'k \<Rightarrow> 's \<Rightarrow> 's"
    and key :: "'w \<Rightarrow> 'k"
    and img :: "'w \<Rightarrow> 'v"
  assumes lookup_put: "lookup (put w s) k = (if k = key w then Some (img w) else lookup s k)"
    and lookup_del: "lookup (del k s) k' = (if k' = k then None else lookup s k')"
begin

lemma lookup_put_same: "lookup (put w s) (key w) = Some (img w)"
  by (simp add: lookup_put)

lemma lookup_put_other: "k \<noteq> key w \<Longrightarrow> lookup (put w s) k = lookup s k"
  by (simp add: lookup_put)

lemma lookup_del_same: "lookup (del k s) k = None"
  by (simp add: lookup_del)

lemma lookup_del_other: "k' \<noteq> k \<Longrightarrow> lookup (del k s) k' = lookup s k'"
  by (simp add: lookup_del)

lemma del_put_same: "lookup (del (key w) (put w s)) = lookup (del (key w) s)"
  by (auto simp: lookup_put lookup_del)

lemma put_put_same: "key w' = key w \<Longrightarrow> lookup (put w' (put w s)) = lookup (put w' s)"
  by (auto simp: lookup_put)

lemma dom_put: "dom (lookup (put w s)) = insert (key w) (dom (lookup s))"
  by (auto simp: lookup_put dom_def)

lemma dom_del: "dom (lookup (del k s)) = dom (lookup s) - {k}"
  by (auto simp: lookup_del dom_def)

text \<open>A list of puts leaves the last entry of every key.\<close>

lemma lookup_fold_put:
  "lookup (fold put ws s) k =
     (case List.find (\<lambda>w. key w = k) (rev ws) of Some w \<Rightarrow> Some (img w) | None \<Rightarrow> lookup s k)"
proof (induction ws rule: rev_induct)
  case (snoc w ws)
  then show ?case by (auto simp: lookup_put)
qed simp

lemma dom_fold_put: "dom (lookup (fold put ws s)) = key ` set ws \<union> dom (lookup s)"
  by (induction ws arbitrary: s) (auto simp: dom_put)

end

section \<open>An index in memory that mirrors a table\<close>

text \<open>
  Two stores agree on the entries that are still live: a cache may have dropped, and a table may
  still hold, an entry that no longer counts.
\<close>

definition agree :: "('v \<Rightarrow> bool) \<Rightarrow> ('k \<Rightarrow> 'v option) \<Rightarrow> ('k \<Rightarrow> 'v option) \<Rightarrow> bool" where
  "agree live f g \<longleftrightarrow> (\<forall>k v. live v \<longrightarrow> (f k = Some v \<longleftrightarrow> g k = Some v))"

lemma agree_refl [simp]: "agree live f f"
  by (simp add: agree_def)

lemma agree_weaken: "agree live f g \<Longrightarrow> (\<And>v. live' v \<Longrightarrow> live v) \<Longrightarrow> agree live' f g"
  by (simp add: agree_def)

lemma agree_left: "agree live f g \<Longrightarrow> (\<And>k v. live v \<Longrightarrow> f' k = Some v \<longleftrightarrow> f k = Some v) \<Longrightarrow> agree live f' g"
  by (simp add: agree_def)

lemma agree_right: "agree live f g \<Longrightarrow> (\<And>k v. live v \<Longrightarrow> g' k = Some v \<longleftrightarrow> g k = Some v) \<Longrightarrow> agree live f g'"
  by (simp add: agree_def)

locale mirrored_store =
  mem: keyed_store mlookup mput mdel mkey mimg +
  disk: keyed_store dlookup dput ddel dkey dimg
  for mlookup :: "'m \<Rightarrow> 'k \<Rightarrow> 'v option" and mput :: "'w \<Rightarrow> 'm \<Rightarrow> 'm" and mdel and mkey and mimg
    and dlookup :: "'d \<Rightarrow> 'k \<Rightarrow> 'x option" and dput :: "'y \<Rightarrow> 'd \<Rightarrow> 'd" and ddel and dkey and dimg +
  fixes view :: "'x \<Rightarrow> 'v" and strip :: "'y \<Rightarrow> 'w"
  assumes strip_key: "mkey (strip y) = dkey y"
    and strip_img: "mimg (strip y) = view (dimg y)"
begin

lemma put_agree:
  "agree live (mlookup m) (\<lambda>i. map_option view (dlookup d i)) \<Longrightarrow>
   agree live (mlookup (mput (strip y) m)) (\<lambda>i. map_option view (dlookup (dput y d) i))"
  by (simp add: agree_def mem.lookup_put disk.lookup_put strip_key strip_img)

lemma del_agree:
  "agree live (mlookup m) (\<lambda>i. map_option view (dlookup d i)) \<Longrightarrow>
   agree live (mlookup (mdel k m)) (\<lambda>i. map_option view (dlookup (ddel k d) i))"
  by (simp add: agree_def mem.lookup_del disk.lookup_del)

lemma drop_agree:
  "agree live (mlookup m) g \<Longrightarrow> mlookup m k = Some v \<Longrightarrow> \<not> live v \<Longrightarrow> agree live (mlookup (mdel k m)) g"
  unfolding agree_def mem.lookup_del by (metis option.inject option.distinct(1))

end

end
