(* ===== verification/GoText.thy ===== *)
theory GoText
  imports Prelude
begin

text \<open>
  What the program uses of Go's \<^verbatim>\<open>strings\<close>, \<^verbatim>\<open>strconv\<close> and \<^verbatim>\<open>encoding/hex\<close> packages. A Go
  string is a byte sequence, here a \<open>char list\<close>. \<open>trim_space\<close> removes the ASCII white space of
  \<^verbatim>\<open>strings.TrimSpace\<close> and \<open>to_lower\<close>, \<open>to_upper\<close> map ASCII letters: the inputs are host names,
  ports, group lists, IP lists and SQL keywords.
\<close>

section \<open>strings\<close>

definition has_prefix :: "string \<Rightarrow> string \<Rightarrow> bool" where
  "has_prefix s p \<longleftrightarrow> take (length p) s = p"

definition has_suffix :: "string \<Rightarrow> string \<Rightarrow> bool" where
  "has_suffix s p \<longleftrightarrow> has_prefix (rev s) (rev p)"

definition trim_prefix :: "string \<Rightarrow> string \<Rightarrow> string" where
  "trim_prefix s p = (if has_prefix s p then drop (length p) s else s)"

text \<open>\<^verbatim>\<open>strings.Split(s, sep)\<close> for a one-byte separator; never the empty list.\<close>

fun split_on :: "char \<Rightarrow> string \<Rightarrow> string list" where
  "split_on c [] = [[]]"
| "split_on c (x # xs) =
     (if x = c then [] # split_on c xs
      else case split_on c xs of [] \<Rightarrow> [[x]] | y # ys \<Rightarrow> (x # y) # ys)"

text \<open>\<^verbatim>\<open>strings.Join\<close>\<close>

fun join_with :: "string \<Rightarrow> string list \<Rightarrow> string" where
  "join_with sep [] = []"
| "join_with sep [x] = x"
| "join_with sep (x # y # ys) = x @ sep @ join_with sep (y # ys)"

definition is_space :: "char \<Rightarrow> bool" where
  "is_space c \<longleftrightarrow> (let n = of_char c :: nat in n = 32 \<or> (9 \<le> n \<and> n \<le> 13))"

definition trim_space :: "string \<Rightarrow> string" where
  "trim_space s = rev (dropWhile is_space (rev (dropWhile is_space s)))"

definition lower_char :: "char \<Rightarrow> char" where
  "lower_char c = (let n = of_char c :: nat in if 65 \<le> n \<and> n \<le> 90 then char_of (n + 32) else c)"

definition upper_char :: "char \<Rightarrow> char" where
  "upper_char c = (let n = of_char c :: nat in if 97 \<le> n \<and> n \<le> 122 then char_of (n - 32) else c)"

definition to_lower :: "string \<Rightarrow> string" where
  "to_lower s = map lower_char s"

definition to_upper :: "string \<Rightarrow> string" where
  "to_upper s = map upper_char s"

text \<open>Byte indices: \<^verbatim>\<open>IndexByte\<close>, \<^verbatim>\<open>LastIndex\<close> with a one-byte pattern, and \<^verbatim>\<open>Index\<close>.\<close>

fun index_byte :: "char \<Rightarrow> string \<Rightarrow> nat option" where
  "index_byte c [] = None"
| "index_byte c (x # xs) = (if x = c then Some 0 else map_option Suc (index_byte c xs))"

fun last_index :: "char \<Rightarrow> string \<Rightarrow> nat option" where
  "last_index c [] = None"
| "last_index c (x # xs) =
     (case last_index c xs of Some i \<Rightarrow> Some (Suc i)
      | None \<Rightarrow> if x = c then Some 0 else None)"

fun index_sub :: "string \<Rightarrow> string \<Rightarrow> nat option" where
  "index_sub p [] = (if p = [] then Some 0 else None)"
| "index_sub p (x # xs) =
     (if has_prefix (x # xs) p then Some 0 else map_option Suc (index_sub p xs))"

text \<open>\<^verbatim>\<open>strings.SplitN(s, sep, 2)[0]\<close>\<close>

definition before_byte :: "char \<Rightarrow> string \<Rightarrow> string" where
  "before_byte c s = takeWhile (\<lambda>x. x \<noteq> c) s"

section \<open>strconv and hex\<close>

definition digit_char :: "nat \<Rightarrow> char" where
  "digit_char n = char_of (48 + n)"

definition digit_val :: "char \<Rightarrow> nat option" where
  "digit_val c = (let n = of_char c :: nat in if 48 \<le> n \<and> n \<le> 57 then Some (n - 48) else None)"

fun dec_digits :: "nat \<Rightarrow> string" where
  "dec_digits n = (if n < 10 then [digit_char n] else dec_digits (n div 10) @ [digit_char (n mod 10)])"

declare dec_digits.simps [simp del]

definition itoa :: "int \<Rightarrow> string" where
  "itoa x = (if x < 0 then CHR ''-'' # dec_digits (nat (- x)) else dec_digits (nat x))"

text \<open>The decimal value of a digit string; \<open>None\<close> on any other byte.\<close>

fun dec_value :: "nat \<Rightarrow> string \<Rightarrow> nat option" where
  "dec_value acc [] = Some acc"
| "dec_value acc (c # cs) =
     (case digit_val c of None \<Rightarrow> None | Some d \<Rightarrow> dec_value (10 * acc + d) cs)"

definition atoi_nat :: "string \<Rightarrow> nat option" where
  "atoi_nat s = (if s = [] then None else dec_value 0 s)"

text \<open>
  \<^verbatim>\<open>strconv.Atoi\<close>: an optional sign, at least one decimal digit, nothing else, and a value
  that fits 64 bits.
\<close>

definition atoi :: "string \<Rightarrow> int option" where
  "atoi s =
     (let signed = (case s of [] \<Rightarrow> None
        | c # cs \<Rightarrow>
            if c = CHR ''-'' then map_option (\<lambda>n. - int n) (atoi_nat cs)
            else if c = CHR ''+'' then map_option int (atoi_nat cs)
            else map_option int (atoi_nat (c # cs)))
      in case signed of None \<Rightarrow> None | Some x \<Rightarrow> if int64 x then Some x else None)"

definition hex_char :: "nat \<Rightarrow> char" where
  "hex_char n = (if n < 10 then char_of (48 + n) else char_of (87 + n))"

text \<open>\<^verbatim>\<open>hex.EncodeToString\<close>: two lower-case digits a byte.\<close>

definition hex_encode :: "8 word list \<Rightarrow> string" where
  "hex_encode bs = concat (map (\<lambda>b. [hex_char (unat b div 16), hex_char (unat b mod 16)]) bs)"

section \<open>Facts\<close>

lemma has_prefix_append [simp]: "has_prefix (p @ s) p"
  by (simp add: has_prefix_def)

lemma has_prefix_iff: "has_prefix s p \<longleftrightarrow> (\<exists>t. s = p @ t)"
  by (metis append_eq_conv_conj append_take_drop_id has_prefix_def)

lemma trim_prefix_append [simp]: "trim_prefix (p @ s) p = s"
  by (simp add: trim_prefix_def)

lemma split_on_nonempty [simp]: "split_on c s \<noteq> []"
  by (cases s) (auto split: list.splits)

lemma join_split [simp]: "join_with [c] (split_on c s) = s"
proof (induction s)
  case (Cons x xs)
  then show ?case
    by (cases "split_on c xs"; cases "tl (split_on c xs)") (auto split: list.splits)
qed simp

lemma split_on_no_sep: "c \<notin> set s \<Longrightarrow> split_on c s = [s]"
  by (induction s) auto

lemma split_on_append: "c \<notin> set s \<Longrightarrow> split_on c (s @ c # t) = s # split_on c t"
  by (induction s) auto

lemma split_join:
  "xs \<noteq> [] \<Longrightarrow> (\<And>x. x \<in> set xs \<Longrightarrow> c \<notin> set x) \<Longrightarrow> split_on c (join_with [c] xs) = xs"
  by (induction "[c]" xs rule: join_with.induct) (auto simp: split_on_no_sep split_on_append)

lemma split_on_parts: "x \<in> set (split_on c s) \<Longrightarrow> c \<notin> set x"
  by (induction s arbitrary: x) (auto split: list.splits if_splits)

lemma dropWhile_clean: "(\<And>c. c \<in> set s \<Longrightarrow> \<not> P c) \<Longrightarrow> dropWhile P s = s"
  by (cases s) auto

lemma trim_space_id:
  assumes "\<And>c. c \<in> set s \<Longrightarrow> \<not> is_space c"
  shows "trim_space s = s"
  using dropWhile_clean [of s is_space] dropWhile_clean [of "rev s" is_space] assms
  by (simp add: trim_space_def)

lemma last_index_None: "last_index c s = None \<longleftrightarrow> c \<notin> set s"
  by (induction s) (auto split: option.splits)

lemma last_index_append: "c \<notin> set t \<Longrightarrow> last_index c (s @ c # t) = Some (length s)"
  by (induction s) (auto simp: last_index_None split: option.splits)

lemma last_index_Some:
  "last_index c s = Some i \<Longrightarrow> i < length s \<and> s ! i = c \<and> c \<notin> set (drop (Suc i) s)"
proof (induction s arbitrary: i)
  case (Cons x xs)
  then show ?case by (cases "last_index c xs") (auto simp: last_index_None split: if_splits)
qed simp

lemma index_byte_None: "index_byte c s = None \<longleftrightarrow> c \<notin> set s"
  by (induction s) auto

lemma index_byte_append: "c \<notin> set s \<Longrightarrow> index_byte c (s @ c # t) = Some (length s)"
  by (induction s) auto

lemma digit_val_char [simp]: "d < 10 \<Longrightarrow> digit_val (digit_char d) = Some d"
  by (simp add: digit_val_def digit_char_def)

lemma digit_val_bound: "digit_val c = Some d \<Longrightarrow> d < 10"
  by (auto simp: digit_val_def Let_def split: if_splits)

lemma digit_char_plain:
  assumes "d < 10"
  shows "digit_char d \<noteq> CHR '',''" "digit_char d \<noteq> CHR ''-''" "digit_char d \<noteq> CHR ''+''"
    "digit_char d \<noteq> CHR '':''" "digit_char d \<noteq> CHR ''[''" "digit_char d \<noteq> CHR '']''"
    "digit_char d \<noteq> CHR ''.''" "digit_char d \<noteq> CHR ''%''" "digit_char d \<noteq> CHR ''/''"
    "\<not> is_space (digit_char d)"
proof -
  have n: "of_char (digit_char d) = 48 + d" using assms by (simp add: digit_char_def)
  have ne: "of_char c \<noteq> 48 + d \<Longrightarrow> digit_char d \<noteq> c" for c using n by auto
  show "digit_char d \<noteq> CHR '',''" "digit_char d \<noteq> CHR ''-''" "digit_char d \<noteq> CHR ''+''"
    "digit_char d \<noteq> CHR '':''" "digit_char d \<noteq> CHR ''[''" "digit_char d \<noteq> CHR '']''"
    "digit_char d \<noteq> CHR ''.''" "digit_char d \<noteq> CHR ''%''" "digit_char d \<noteq> CHR ''/''"
    using assms by (auto intro!: ne)
  show "\<not> is_space (digit_char d)" using n by (simp add: is_space_def)
qed

lemma dec_digits_nonempty [simp]: "dec_digits n \<noteq> []"
  by (subst dec_digits.simps) simp

lemma dec_digits_set: "c \<in> set (dec_digits n) \<Longrightarrow> \<exists>d<10. c = digit_char d"
proof (induction n rule: dec_digits.induct)
  case (1 n)
  show ?case
  proof (cases "n < 10")
    case True
    with "1.prems" show ?thesis by (subst (asm) dec_digits.simps) auto
  next
    case False
    with "1.prems" consider "c \<in> set (dec_digits (n div 10))" | "c = digit_char (n mod 10)"
      by (subst (asm) dec_digits.simps) auto
    then show ?thesis
    proof cases
      case 1
      with False "1.IH" show ?thesis by blast
    next
      case 2
      then show ?thesis by (intro exI [of _ "n mod 10"]) simp
    qed
  qed
qed

lemma dec_digits_hd: "0 < n \<Longrightarrow> hd (dec_digits n) \<noteq> CHR ''0''"
proof (induction n rule: dec_digits.induct)
  case (1 n)
  show ?case
  proof (cases "n < 10")
    case True
    with "1.prems" have "of_char (digit_char n) \<noteq> (of_char (CHR ''0'') :: nat)"
      by (simp add: digit_char_def)
    then have "digit_char n \<noteq> CHR ''0''" by metis
    with True show ?thesis by (subst dec_digits.simps) simp
  next
    case False
    with 1 show ?thesis by (subst dec_digits.simps) simp
  qed
qed

lemma dec_value_append:
  "dec_value acc (s @ t) = (case dec_value acc s of None \<Rightarrow> None | Some a \<Rightarrow> dec_value a t)"
  by (induction s arbitrary: acc) (auto split: option.splits)

lemma dec_value_digits: "dec_value 0 (dec_digits n) = Some n"
proof (induction n rule: dec_digits.induct)
  case (1 n)
  then show ?case by (subst dec_digits.simps) (auto simp: dec_value_append)
qed

lemma atoi_nat_digits [simp]: "atoi_nat (dec_digits n) = Some n"
  by (simp add: atoi_nat_def dec_value_digits)

lemma itoa_plain:
  assumes "c \<in> set (itoa x)"
  shows "c \<noteq> CHR '',''" "c \<noteq> CHR '':''" "c \<noteq> CHR ''[''" "c \<noteq> CHR '']''" "\<not> is_space c"
proof -
  have "c = CHR ''-'' \<or> (\<exists>d<10. c = digit_char d)"
    using assms dec_digits_set by (auto simp: itoa_def split: if_splits)
  moreover have "d < 10 \<Longrightarrow> digit_char d \<notin> {CHR '','', CHR '':'', CHR ''['', CHR '']''}
      \<and> \<not> is_space (digit_char d)" for d
    by (simp add: digit_char_plain)
  ultimately show "c \<noteq> CHR '',''" "c \<noteq> CHR '':''" "c \<noteq> CHR ''[''" "c \<noteq> CHR '']''" "\<not> is_space c"
    by (fastforce simp: is_space_def)+
qed

lemma itoa_nonempty [simp]: "itoa x \<noteq> []"
  by (simp add: itoa_def)

lemma atoi_unsigned:
  "s \<noteq> [] \<Longrightarrow> hd s \<noteq> CHR ''-'' \<Longrightarrow> hd s \<noteq> CHR ''+'' \<Longrightarrow> atoi_nat s = Some n \<Longrightarrow> int64 (int n) \<Longrightarrow>
   atoi s = Some (int n)"
  by (cases s) (auto simp: atoi_def)

lemma atoi_itoa: "int64 x \<Longrightarrow> atoi (itoa x) = Some x"
proof (cases "x < 0")
  case True
  assume "int64 x"
  with True show ?thesis by (simp add: itoa_def atoi_def)
next
  case False
  assume x: "int64 x"
  have "hd (dec_digits (nat x)) \<in> set (dec_digits (nat x))" by simp
  then obtain d where "d < 10" "hd (dec_digits (nat x)) = digit_char d"
    by (blast dest: dec_digits_set)
  with False x show ?thesis
    by (simp add: itoa_def atoi_unsigned digit_char_plain)
qed

lemma itoa_inj: "int64 x \<Longrightarrow> int64 y \<Longrightarrow> itoa x = itoa y \<longleftrightarrow> x = y"
  by (metis atoi_itoa option.inject)

lemma trim_space_itoa [simp]: "trim_space (itoa x) = itoa x"
  by (rule trim_space_id) (rule itoa_plain)

lemma atoi_int64: "atoi s = Some x \<Longrightarrow> int64 x"
  by (auto simp: atoi_def Let_def split: option.splits if_splits)

lemma length_hex_encode [simp]: "length (hex_encode bs) = 2 * length bs"
  by (induction bs) (auto simp: hex_encode_def)

lemma to_lower_idem [simp]: "to_lower (to_lower s) = to_lower s"
proof -
  have "lower_char (lower_char c) = lower_char c" for c
    by (simp add: lower_char_def Let_def)
  then show ?thesis by (simp add: to_lower_def comp_def)
qed

end
