(* ===== verification/GoTime.thy ===== *)
theory GoTime
  imports Prelude Complex_Main "HOL-Library.Log_Nat"
begin

text \<open>
  What the program uses of Go's \<^verbatim>\<open>time\<close> package and of \<^verbatim>\<open>float64\<close>. A \<^verbatim>\<open>time.Time\<close> is the number
  of nanoseconds since Go's zero time (1 January of year 1, UTC), so the zero value is 0; a
  \<^verbatim>\<open>time.Duration\<close> is a 64-bit count of nanoseconds. A \<^verbatim>\<open>float64\<close> is the rational it denotes and
  every operation rounds with \<open>fl\<close> (53-bit significand, ties to even, gradual underflow). The
  overflow threshold is left out: a value above it is larger than every bucket capacity, and the
  limiter caps it there.
\<close>

section \<open>Times and durations\<close>

type_synonym time = int
type_synonym duration = int

definition zero_time :: time where
  "zero_time = 0"

definition is_zero :: "time \<Rightarrow> bool" where
  "is_zero t \<longleftrightarrow> t = zero_time"

definition Second :: duration where
  "Second = 1000000000"

definition Minute :: duration where
  "Minute = 60 * Second"

definition Hour :: duration where
  "Hour = 60 * Minute"

text \<open>\<^verbatim>\<open>time.Duration(n) * unit\<close> wraps around; \<^verbatim>\<open>Time.Sub\<close> saturates; \<^verbatim>\<open>Time.Add\<close> is exact.\<close>

definition dur_mul :: "int \<Rightarrow> duration \<Rightarrow> duration" where
  "dur_mul n unit = wrap64 (n * unit)"

definition time_add :: "time \<Rightarrow> duration \<Rightarrow> time" where
  "time_add t d = t + d"

definition time_sub :: "time \<Rightarrow> time \<Rightarrow> duration" where
  "time_sub a b = max (- (2 ^ 63)) (min (2 ^ 63 - 1) (a - b))"

lemmas time_defs = zero_time_def is_zero_def Second_def Minute_def Hour_def time_add_def time_sub_def

lemma time_sub_self [simp]: "time_sub t t = 0"
  by (simp add: time_sub_def)

lemma dur_mul_exact: "int64 (n * unit) \<Longrightarrow> dur_mul n unit = n * unit"
  by (simp add: dur_mul_def)

section \<open>float64\<close>

text \<open>Rounding to the nearest integer, ties to even.\<close>

definition round_even :: "rat \<Rightarrow> int" where
  "round_even x =
     (let f = \<lfloor>x\<rfloor>; d = x - of_int f
      in if d < 1 / 2 then f else if d > 1 / 2 then f + 1 else if even f then f else f + 1)"

text \<open>The binary exponent of a positive rational: \<open>2 ^ lg2 x \<le> x < 2 ^ (lg2 x + 1)\<close>.\<close>

definition lg2 :: "rat \<Rightarrow> int" where
  "lg2 x =
     (let (p, q) = quotient_of x; k = bitlen p - bitlen q
      in if 2 powi k \<le> x then k else k - 1)"

definition ulp_exp :: "rat \<Rightarrow> int" where
  "ulp_exp x = max (- 1074) (lg2 x - 52)"

definition fl :: "rat \<Rightarrow> rat" where
  "fl x =
     (if x = 0 then 0
      else let e = ulp_exp \<bar>x\<bar> in of_int (round_even (x / 2 powi e)) * 2 powi e)"

text \<open>
  \<^verbatim>\<open>Duration.Seconds\<close>, and \<^verbatim>\<open>int(f)\<close>, which truncates; a value out of range gives the most
  negative integer, as on amd64.
\<close>

definition secs :: "duration \<Rightarrow> rat" where
  "secs d =
     (let s = sgn d * (\<bar>d\<bar> div Second); n = sgn d * (\<bar>d\<bar> mod Second)
      in fl (fl (of_int s) + fl (fl (of_int n) / 1000000000)))"

definition float_to_int :: "rat \<Rightarrow> int" where
  "float_to_int x =
     (let t = (if 0 \<le> x then \<lfloor>x\<rfloor> else - \<lfloor>- x\<rfloor>) in if int64 t then t else - (2 ^ 63))"

subsection \<open>Laws of rounding\<close>

lemma round_even_int [simp]: "round_even (of_int n) = n"
  by (simp add: round_even_def)

lemma round_even_bounds: "\<lfloor>x\<rfloor> \<le> round_even x" "round_even x \<le> \<lfloor>x\<rfloor> + 1"
  by (auto simp: round_even_def Let_def)

lemma round_even_mono:
  assumes "x \<le> y"
  shows "round_even x \<le> round_even y"
proof (cases "\<lfloor>x\<rfloor> = \<lfloor>y\<rfloor>")
  case True
  with assms show ?thesis by (auto simp: round_even_def Let_def)
next
  case False
  with assms have "\<lfloor>x\<rfloor> + 1 \<le> \<lfloor>y\<rfloor>" using floor_mono [OF assms] by linarith
  with round_even_bounds(2) [of x] round_even_bounds(1) [of y] show ?thesis by linarith
qed

lemma round_even_nonneg: "0 \<le> x \<Longrightarrow> 0 \<le> round_even x"
  using round_even_mono [of 0 x] round_even_int [of 0] by simp

lemma bitlen_range:
  assumes "0 < n"
  shows "2 powi (bitlen n - 1) \<le> (of_int n :: rat)" "(of_int n :: rat) < 2 powi bitlen n"
proof -
  have b: "2 ^ nat (bitlen n - 1) \<le> n" "n < 2 ^ nat (bitlen n)"
    using assms bitlen_bounds by blast+
  have pos: "0 < bitlen n" using assms using bitlen_nonneg [of n] bitlen_eq_zero_iff [of n] by linarith
  have "(of_int (2 ^ nat (bitlen n - 1)) :: rat) \<le> of_int n" using b(1) by (simp only: of_int_le_iff)
  then show "2 powi (bitlen n - 1) \<le> (of_int n :: rat)"
    using pos by (simp add: power_int_def)
  have "(of_int n :: rat) < of_int (2 ^ nat (bitlen n))" using b(2) by (simp only: of_int_less_iff)
  then show "(of_int n :: rat) < 2 powi bitlen n"
    using pos by (simp add: power_int_def)
qed

lemma lg2_bounds:
  assumes "0 < x"
  shows "2 powi lg2 x \<le> x" "x < 2 powi (lg2 x + 1)"
proof -
  obtain p q where pq: "quotient_of x = (p, q)" by (cases "quotient_of x")
  then have q: "0 < q" and x: "x = of_int p / of_int q"
    by (auto dest: quotient_of_denom_pos quotient_of_div)
  with assms have p: "0 < p" by (simp add: zero_less_divide_iff)
  let ?k = "bitlen p - bitlen q"
  have "x < 2 powi bitlen p / 2 powi (bitlen q - 1)"
    unfolding x using bitlen_range [OF p] bitlen_range [OF q] p q by (intro frac_less) auto
  also have "\<dots> = 2 powi (?k + 1)" by (simp flip: power_int_diff) (simp add: algebra_simps)
  finally have hi: "x < 2 powi (?k + 1)" .
  have "2 powi (bitlen p - 1) / 2 powi bitlen q \<le> x"
    unfolding x using bitlen_range [OF p] bitlen_range [OF q] p q by (intro frac_le) auto
  also have "2 powi (bitlen p - 1) / 2 powi bitlen q = (2 :: rat) powi (?k - 1)"
    by (simp flip: power_int_diff) (simp add: algebra_simps)
  finally have lo: "2 powi (?k - 1) \<le> x" .
  show "2 powi lg2 x \<le> x" "x < 2 powi (lg2 x + 1)"
    using hi lo by (auto simp: lg2_def pq Let_def)
qed

lemma powi_less_cancel: "(2 :: rat) powi a < 2 powi b \<Longrightarrow> a < b"
  using power_int_increasing [of b a "2 :: rat"] by (meson linorder_not_le one_le_numeral)

lemma lg2_mono:
  assumes "0 < x" and "x \<le> y"
  shows "lg2 x \<le> lg2 y"
proof (rule ccontr)
  assume "\<not> lg2 x \<le> lg2 y"
  then have "(2 :: rat) powi (lg2 y + 1) \<le> 2 powi lg2 x" by (intro power_int_increasing) auto
  with lg2_bounds [of x] lg2_bounds [of y] assms show False by linarith
qed

lemma fl_zero [simp]: "fl 0 = 0"
  by (simp add: fl_def)

lemma fl_nonneg: "0 \<le> x \<Longrightarrow> 0 \<le> fl x"
  by (auto simp: fl_def Let_def intro!: mult_nonneg_nonneg round_even_nonneg)

lemma fl_mono:
  assumes "0 \<le> x" and "x \<le> y"
  shows "fl x \<le> fl y"
proof (cases "x = 0")
  case True
  with assms show ?thesis by (simp add: fl_nonneg)
next
  case False
  with assms have x: "0 < x" and y: "0 < y" by auto
  define ex ey where "ex = ulp_exp x" and "ey = ulp_exp y"
  have flx: "fl x = of_int (round_even (x / 2 powi ex)) * 2 powi ex"
    and fly: "fl y = of_int (round_even (y / 2 powi ey)) * 2 powi ey"
    using x y by (simp_all add: fl_def Let_def ex_def ey_def)
  have le: "ex \<le> ey" using lg2_mono [OF x assms(2)] by (simp add: ex_def ey_def ulp_exp_def)
  show ?thesis
  proof (cases "ex = ey")
    case True
    have "x / 2 powi ex \<le> y / 2 powi ex" using assms by (simp add: divide_right_mono)
    then have "round_even (x / 2 powi ex) \<le> round_even (y / 2 powi ex)" by (rule round_even_mono)
    then show ?thesis unfolding flx fly True [symmetric] by (simp add: mult_right_mono)
  next
    case False
    with le have lt: "ex + 1 \<le> ey" by simp
    then have ey: "ey + 52 = lg2 y" by (auto simp: ex_def ey_def ulp_exp_def)
    have "2 powi (ey + 52) \<le> y" unfolding ey by (rule lg2_bounds [OF y])
    then have "(2 :: rat) ^ 52 \<le> y / 2 powi ey" by (simp add: power_int_add field_simps)
    then have "round_even (of_int (2 ^ 52)) \<le> round_even (y / 2 powi ey)"
      by (intro round_even_mono) simp
    then have "2 ^ 52 \<le> round_even (y / 2 powi ey)" by (simp only: round_even_int)
    then have "(of_int (2 ^ 52) :: rat) \<le> of_int (round_even (y / 2 powi ey))"
      by (simp only: of_int_le_iff)
    then have hi: "2 ^ 52 * 2 powi ey \<le> fl y" unfolding fly by (intro mult_right_mono) simp_all
    have "lg2 x + 1 \<le> ex + 53" by (simp add: ex_def ulp_exp_def)
    then have "(2 :: rat) powi (lg2 x + 1) \<le> 2 powi (ex + 53)" by (intro power_int_increasing) auto
    with lg2_bounds(2) [OF x] have "x \<le> 2 powi (ex + 53)" by linarith
    then have "x / 2 powi ex \<le> 2 ^ 53" by (simp add: power_int_add field_simps)
    then have "round_even (x / 2 powi ex) \<le> round_even (of_int (2 ^ 53))"
      by (intro round_even_mono) simp
    then have "round_even (x / 2 powi ex) \<le> 2 ^ 53" by (simp only: round_even_int)
    then have "(of_int (round_even (x / 2 powi ex)) :: rat) \<le> of_int (2 ^ 53)"
      by (simp only: of_int_le_iff)
    then have "fl x \<le> 2 ^ 53 * 2 powi ex" unfolding flx by (intro mult_right_mono) simp_all
    also have "\<dots> = 2 ^ 52 * 2 powi (ex + 1)" by (simp add: power_int_add)
    also have "\<dots> \<le> 2 ^ 52 * 2 powi ey"
      using lt by (intro mult_left_mono power_int_increasing) auto
    finally show ?thesis using hi by linarith
  qed
qed

text \<open>Integers of up to 53 bits are exact.\<close>

lemma fl_int:
  assumes "0 \<le> n" and "n < 2 ^ 53"
  shows "fl (of_int n) = of_int n"
proof (cases "n = 0")
  case False
  with assms have n: "0 < (of_int n :: rat)" by simp
  define e where "e = ulp_exp (of_int n)"
  have fln: "fl (of_int n) = of_int (round_even (of_int n / 2 powi e)) * 2 powi e"
    using n by (simp add: fl_def Let_def e_def)
  have "(of_int n :: rat) < of_int (2 ^ 53)" using assms(2) by (simp only: of_int_less_iff)
  then have "(of_int n :: rat) < 2 powi 53" by simp
  with lg2_bounds(1) [OF n] have "(2 :: rat) powi lg2 (of_int n) < 2 powi 53"
    by (rule le_less_trans)
  then have "lg2 (of_int n) < 53" by (rule powi_less_cancel)
  then have e: "e \<le> 0" by (simp add: e_def ulp_exp_def)
  define k where "k = nat (- e)"
  have pe: "(2 :: rat) powi e = 1 / 2 ^ k"
    using e by (cases "e = 0") (auto simp: k_def power_int_def inverse_eq_divide power_one_over)
  have "of_int n / 2 powi e = (of_int (n * 2 ^ k) :: rat)" by (simp add: pe)
  then have "fl (of_int n) = of_int (n * 2 ^ k) * 2 powi e"
    unfolding fln by (simp only: round_even_int)
  then show ?thesis by (simp add: pe)
qed simp

lemma fl_one [simp]: "fl 1 = 1"
  using fl_int [of 1] by simp

lemma secs_zero [simp]: "secs 0 = 0"
  by (simp add: secs_def)

lemma secs_nonneg: "0 \<le> d \<Longrightarrow> 0 \<le> secs d"
  by (auto simp: secs_def Let_def Second_def sgn_if intro!: fl_nonneg add_nonneg_nonneg divide_nonneg_pos)

lemma float_to_int_nonneg: "0 \<le> x \<Longrightarrow> x < 2 ^ 63 \<Longrightarrow> 0 \<le> float_to_int x \<and> float_to_int x = \<lfloor>x\<rfloor>"
  by (auto simp: float_to_int_def Let_def int64_def floor_less_iff le_floor_iff)

subsection \<open>Rounding error\<close>

lemma lg2_unique:
  assumes "2 powi k \<le> x" and "x < 2 powi (k + 1)"
  shows "lg2 x = k"
proof -
  have x: "0 < x" using assms(1) zero_less_power_int [of "2 :: rat" k] by linarith
  have "(2 :: rat) powi k < 2 powi (lg2 x + 1)" using assms(1) lg2_bounds(2) [OF x] by linarith
  moreover have "(2 :: rat) powi lg2 x < 2 powi (k + 1)" using assms(2) lg2_bounds(1) [OF x] by linarith
  ultimately show ?thesis using powi_less_cancel [of k "lg2 x + 1"] powi_less_cancel [of "lg2 x" "k + 1"] by simp
qed

lemma round_even_error: "\<bar>of_int (round_even x) - x\<bar> \<le> 1 / 2"
proof -
  define d where "d = x - of_int \<lfloor>x\<rfloor>"
  have "0 \<le> d" "d < 1" "x = of_int \<lfloor>x\<rfloor> + d" by (simp_all add: d_def) linarith
  then show ?thesis unfolding round_even_def Let_def by (auto simp flip: d_def)
qed

lemma fl_pos: "0 < x \<Longrightarrow> fl x = of_int (round_even (x / 2 powi ulp_exp x)) * 2 powi ulp_exp x"
  by (simp add: fl_def Let_def)

text \<open>At most 53 significant bits are exact, so rounding is idempotent.\<close>

lemma fl_exact:
  assumes "0 < m" and "m \<le> 2 ^ 53" and "- 1074 \<le> e"
  shows "fl (of_int m * 2 powi e) = of_int m * 2 powi e"
proof -
  define y where "y = of_int m * (2 :: rat) powi e"
  have y: "0 < y" using assms(1) by (simp add: y_def)
  define e' where "e' = ulp_exp y"
  have exact: "fl y = y" if "y / 2 powi e' = of_int k" for k
  proof -
    have "y = of_int k * 2 powi e'" using that by (simp add: field_simps)
    then show ?thesis using y fl_pos [of y] that by (simp add: e'_def)
  qed
  show ?thesis unfolding y_def [symmetric]
  proof (cases "e' \<le> e")
    case True
    have "(2 :: rat) powi e / 2 powi e' = 2 ^ nat (e - e')"
      using True by (simp flip: power_int_diff) (simp add: power_int_def)
    then have "y / 2 powi e' = of_int m * 2 ^ nat (e - e')" by (simp add: y_def flip: times_divide_eq_right)
    then have "y / 2 powi e' = of_int (m * 2 ^ nat (e - e'))" by simp
    then show "fl y = y" by (rule exact)
  next
    case False
    with assms(3) have l: "e' = lg2 y - 52" "e + 53 \<le> lg2 y" by (auto simp: e'_def ulp_exp_def)
    have "(of_int m :: rat) \<le> of_int (2 ^ 53)" using assms(2) by (simp only: of_int_le_iff)
    then have "y \<le> 2 ^ 53 * 2 powi e" unfolding y_def by (intro mult_right_mono) simp_all
    then have hi: "y \<le> 2 powi (e + 53)" by (simp add: power_int_add)
    have "(2 :: rat) powi (e + 53) \<le> 2 powi lg2 y" using l(2) by (intro power_int_increasing) auto
    with hi lg2_bounds(1) [OF y] have y2: "y = 2 powi (e + 53)" "2 powi lg2 y = (2 :: rat) powi (e + 53)" by linarith+
    have "lg2 y < e + 54"
      using y2(2) by (intro powi_less_cancel) (simp add: power_int_add)
    with l have "e' = e + 1" by simp
    then have "y / 2 powi e' = of_int (2 ^ 52)" by (simp add: y2 power_int_add)
    then show "fl y = y" by (rule exact)
  qed
qed

lemma fl_idem:
  assumes "0 \<le> x"
  shows "fl (fl x) = fl x"
proof (cases "0 < fl x")
  case True
  then have x: "0 < x" using assms by (cases "x = 0") auto
  define e where "e = ulp_exp x"
  have fx: "fl x = of_int (round_even (x / 2 powi e)) * 2 powi e" using fl_pos [OF x] by (simp add: e_def)
  have "(2 :: rat) powi (lg2 x + 1) \<le> 2 powi (e + 53)"
    by (intro power_int_increasing) (auto simp: e_def ulp_exp_def)
  with lg2_bounds(2) [OF x] have "x \<le> 2 powi (e + 53)" by linarith
  then have "x / 2 powi e \<le> of_int (2 ^ 53)" by (simp add: power_int_add field_simps)
  then have "round_even (x / 2 powi e) \<le> 2 ^ 53" using round_even_mono round_even_int by metis
  moreover have "0 < round_even (x / 2 powi e)"
  proof -
    have "(0 :: rat) < 2 powi e" by simp
    with True show ?thesis unfolding fx by (metis of_int_0_less_iff zero_less_mult_pos2)
  qed
  moreover have "- 1074 \<le> e" by (simp add: e_def ulp_exp_def)
  ultimately show ?thesis unfolding fx by (intro fl_exact)
next
  case False
  with fl_nonneg [OF assms] have "fl x = 0" by simp
  then show ?thesis by simp
qed

lemma fl_error_unit:
  assumes "0 \<le> x" and "x \<le> 1"
  shows "\<bar>fl x - x\<bar> \<le> 1 / 2 ^ 54"
proof (cases "x = 0 \<or> x = 1")
  case False
  with assms have x: "0 < x" "x < 1" by auto
  define e where "e = ulp_exp x"
  have "(2 :: rat) powi lg2 x < 2 powi 0" using lg2_bounds(1) [OF x(1)] x(2) by simp
  then have "lg2 x < 0" by (rule powi_less_cancel)
  then have "e \<le> - 53" by (simp add: e_def ulp_exp_def)
  then have "(2 :: rat) powi e \<le> 2 powi (- 53)" by (intro power_int_increasing) auto
  moreover have "(2 :: rat) powi (- 53) = 1 / 2 ^ 53" by (simp add: power_int_def field_simps)
  ultimately have small: "(2 :: rat) powi e \<le> 1 / 2 ^ 53" by (simp only:)
  have "fl x - x = (of_int (round_even (x / 2 powi e)) - x / 2 powi e) * 2 powi e"
    using fl_pos [OF x(1)] by (simp add: e_def left_diff_distrib)
  then have "\<bar>fl x - x\<bar> = \<bar>of_int (round_even (x / 2 powi e)) - x / 2 powi e\<bar> * 2 powi e"
    by (simp add: abs_mult)
  also have "\<dots> \<le> 1 / 2 * (1 / 2 ^ 53)"
    using round_even_error small by (intro mult_mono) simp_all
  finally show ?thesis by simp
qed auto

lemma fl_near_one:
  assumes "1 - 1 / 2 ^ 54 \<le> x"
  shows "1 \<le> fl x"
proof -
  let ?y = "1 - 1 / 2 ^ 54 :: rat"
  have "lg2 ?y = - 1" by (rule lg2_unique) (simp_all add: power_int_def)
  then have u: "ulp_exp ?y = - 53" by (simp add: ulp_exp_def)
  have v: "?y / 2 powi (- 53) = of_int (2 ^ 53 - 1) + 1 / 2" by (simp add: power_int_def field_simps)
  have "\<lfloor>18014398509481983 / 2 :: rat\<rfloor> = 9007199254740991" by (simp add: floor_eq_iff)
  then have w: "round_even (of_int (2 ^ 53 - 1) + 1 / 2) = 2 ^ 53" by (simp add: round_even_def)
  have "fl ?y = of_int (round_even (?y / 2 powi ulp_exp ?y)) * 2 powi ulp_exp ?y" by (rule fl_pos) simp
  also have "\<dots> = of_int (2 ^ 53) * 2 powi (- 53)" unfolding u v w ..
  also have "\<dots> = 1" by (simp add: power_int_def field_simps)
  finally have "fl ?y = 1" .
  moreover have "fl ?y \<le> fl x" using assms by (intro fl_mono) simp_all
  ultimately show ?thesis by simp
qed

lemma secs_mono_whole:
  assumes "0 \<le> r" and "r < 2 ^ 53" and "r * Second \<le> d"
  shows "of_int r \<le> secs d"
proof -
  have d: "0 \<le> d" using assms by (auto simp: Second_def intro: order_trans [rotated])
  have "r \<le> d div Second" using assms(3) by (simp add: Second_def zdiv_mono1 [of "r * 1000000000" d 1000000000, simplified])
  then have "fl (of_int r) \<le> fl (of_int (d div Second))" using assms(1) by (intro fl_mono) simp_all
  then have "of_int r \<le> fl (of_int (d div Second))" using fl_int [OF assms(1,2)] by simp
  moreover have "0 \<le> fl (fl (of_int (d mod Second)) / 1000000000)"
    by (intro fl_nonneg divide_nonneg_pos) (simp_all add: Second_def)
  ultimately have "fl (of_int r) \<le> fl (fl (of_int (d div Second)) + fl (fl (of_int (d mod Second)) / 1000000000))"
    using assms(1) by (intro fl_mono) simp_all
  with d show ?thesis using fl_int [OF assms(1,2)] by (cases "d = 0") (simp_all add: secs_def Let_def)
qed

end
