(* ===== verification/GoNet.thy ===== *)
theory GoNet
  imports GoText
begin

text \<open>
  What the program uses of Go's \<^verbatim>\<open>net\<close> package: \<^verbatim>\<open>SplitHostPort\<close> and \<^verbatim>\<open>JoinHostPort\<close>, the
  textual IP addresses of \<^verbatim>\<open>ParseIP\<close>, \<^verbatim>\<open>IP.String\<close> and \<^verbatim>\<open>ParseCIDR\<close>, and \<^verbatim>\<open>IP.Equal\<close> and
  \<^verbatim>\<open>IPNet.Contains\<close>. An IP is its bytes: \<^verbatim>\<open>ParseIP\<close> always gives sixteen, an IPv4 address in its
  IPv4-mapped form. The last part proves that parsing inverts printing.
\<close>

unbundle bit_operations_syntax

section \<open>Host and port\<close>

definition split_host_port :: "string \<Rightarrow> (string \<times> string) option" where
  "split_host_port hp =
     (case last_index (CHR '':'') hp of
        None \<Rightarrow> None
      | Some i \<Rightarrow>
          if take 1 hp = ''['' then
            (case index_byte (CHR '']'') hp of
               None \<Rightarrow> None
             | Some e \<Rightarrow>
                 if Suc e \<noteq> i then None
                 else let host = take (e - 1) (drop 1 hp); rest = drop (Suc e) hp
                   in if CHR ''['' \<in> set (drop 1 hp) \<or> CHR '']'' \<in> set rest then None
                      else Some (host, drop (Suc i) hp))
          else let host = take i hp
            in if CHR '':'' \<in> set host \<or> CHR ''['' \<in> set hp \<or> CHR '']'' \<in> set hp then None
               else Some (host, drop (Suc i) hp))"

definition join_host_port :: "string \<Rightarrow> string \<Rightarrow> string" where
  "join_host_port h p =
     (if CHR '':'' \<in> set h then CHR ''['' # h @ '']:'' @ p else h @ '':'' @ p)"

lemma split_join_host_port:
  assumes "CHR ''['' \<notin> set h" "CHR '']'' \<notin> set h"
    and "CHR '':'' \<notin> set p" "CHR ''['' \<notin> set p" "CHR '']'' \<notin> set p"
  shows "split_host_port (join_host_port h p) = Some (h, p)"
proof (cases "CHR '':'' \<in> set h")
  case True
  have "last_index (CHR '':'') ((CHR ''['' # h @ '']'') @ CHR '':'' # p) = Some (length h + 2)"
    using assms(3) by (subst last_index_append) auto
  moreover have "index_byte (CHR '']'') ((CHR ''['' # h) @ CHR '']'' # (CHR '':'' # p)) = Some (Suc (length h))"
    using assms(2) by (subst index_byte_append) auto
  ultimately show ?thesis
    using True assms by (simp add: join_host_port_def split_host_port_def)
next
  case False
  have "last_index (CHR '':'') (h @ CHR '':'' # p) = Some (length h)"
    using assms(3) by (rule last_index_append)
  moreover have "take 1 (h @ CHR '':'' # p) \<noteq> ''[''"
    using assms(1) by (cases h) auto
  ultimately show ?thesis
    using False assms by (simp add: join_host_port_def split_host_port_def)
qed

section \<open>IP addresses\<close>

type_synonym ip = "8 word list"

definition v4_prefix :: ip where
  "v4_prefix = replicate 10 0 @ [255, 255]"

definition to4 :: "ip \<Rightarrow> ip option" where
  "to4 b = (if length b = 4 then Some b
            else if length b = 16 \<and> take 12 b = v4_prefix then Some (drop 12 b) else None)"

text \<open>\<^verbatim>\<open>IP.Equal\<close>: an IPv4 address equals its IPv4-mapped form.\<close>

definition ip_equal :: "ip \<Rightarrow> ip \<Rightarrow> bool" where
  "ip_equal a b =
     (if length a = length b then a = b
      else if length a = 4 \<and> length b = 16 then take 12 b = v4_prefix \<and> drop 12 b = a
      else if length a = 16 \<and> length b = 4 then take 12 a = v4_prefix \<and> drop 12 a = b
      else False)"

subsection \<open>Parsing\<close>

text \<open>One octet: one to three digits, no leading zero, at most 255.\<close>

definition parse_octet :: "string \<Rightarrow> 8 word option" where
  "parse_octet s =
     (case atoi_nat s of
        None \<Rightarrow> None
      | Some n \<Rightarrow> if 255 < n \<or> (1 < length s \<and> hd s = CHR ''0'') then None else Some (of_nat n))"

definition parse_ipv4 :: "string \<Rightarrow> ip option" where
  "parse_ipv4 s =
     (case map parse_octet (split_on (CHR ''.'') s) of
        [Some a, Some b, Some c, Some d] \<Rightarrow> Some [a, b, c, d]
      | _ \<Rightarrow> None)"

definition hex_val :: "char \<Rightarrow> nat option" where
  "hex_val c =
     (let n = of_char c :: nat
      in if 48 \<le> n \<and> n \<le> 57 then Some (n - 48)
         else if 97 \<le> n \<and> n \<le> 102 then Some (n - 87)
         else if 65 \<le> n \<and> n \<le> 70 then Some (n - 55)
         else None)"

definition is_hex :: "char \<Rightarrow> bool" where
  "is_hex c \<longleftrightarrow> hex_val c \<noteq> None"

definition hex_value :: "string \<Rightarrow> nat" where
  "hex_value s = fold (\<lambda>c acc. 16 * acc + (case hex_val c of None \<Rightarrow> 0 | Some d \<Rightarrow> d)) s 0"

definition group_bytes :: "nat \<Rightarrow> ip" where
  "group_bytes n = [of_nat (n div 256), of_nat (n mod 256)]"

text \<open>
  The loop of \<^verbatim>\<open>netip.parseIPv6\<close>: \<open>acc\<close> holds the bytes read so far, \<open>ell\<close> the position of a
  \<^verbatim>\<open>::\<close>, and the text that is left is returned with them.
\<close>

function v6_loop :: "ip \<Rightarrow> nat option \<Rightarrow> string \<Rightarrow> (ip \<times> nat option \<times> string) option" where
  "v6_loop acc ell s =
     (if 16 \<le> length acc then Some (acc, ell, s)
      else let ds = takeWhile is_hex s; rest = dropWhile is_hex s;
               acc' = acc @ group_bytes (hex_value ds)
        in if ds = [] \<or> 4 < length ds then None
           else (case rest of
               [] \<Rightarrow> Some (acc', ell, [])
             | c # cs \<Rightarrow>
                 if c = CHR ''.'' then
                   (if (ell = None \<and> length acc \<noteq> 12) \<or> 16 < length acc + 4 then None
                    else map_option (\<lambda>b. (acc @ b, ell, [])) (parse_ipv4 s))
                 else if c \<noteq> CHR '':'' then None
                 else (case cs of
                     [] \<Rightarrow> None
                   | d # more \<Rightarrow>
                       if d \<noteq> CHR '':'' then v6_loop acc' ell cs
                       else if ell \<noteq> None then None
                       else if more = [] then Some (acc', Some (length acc'), [])
                       else v6_loop acc' (Some (length acc')) more)))"
  by pat_completeness auto
termination
proof (relation "measure (\<lambda>(acc, ell, s). length s)", goal_cases)
  case (2 acc ell s ds rest acc' c cs d more)
  then have "length (dropWhile is_hex s) = Suc (length cs)" by (metis length_Cons)
  with length_dropWhile_le [of is_hex s] show ?case by simp
next
  case (3 acc ell s ds rest acc' c cs d more)
  then have "length (dropWhile is_hex s) = Suc (Suc (length more))" by (metis length_Cons)
  with length_dropWhile_le [of is_hex s] show ?case by simp
qed simp

declare v6_loop.simps [simp del]

definition parse_ipv6 :: "string \<Rightarrow> ip option" where
  "parse_ipv6 s0 =
     (let lead = has_prefix s0 ''::''; s = (if lead then drop 2 s0 else s0)
      in if CHR ''%'' \<in> set s0 then None
         else if lead \<and> s = [] then Some (replicate 16 0)
         else (case v6_loop [] (if lead then Some 0 else None) s of
             None \<Rightarrow> None
           | Some (b, ell, rest) \<Rightarrow>
               if rest \<noteq> [] then None
               else if length b < 16 then
                 (case ell of
                    None \<Rightarrow> None
                  | Some e \<Rightarrow> Some (take e b @ replicate (16 - length b) 0 @ drop e b))
               else if ell \<noteq> None then None else Some b))"

text \<open>\<^verbatim>\<open>net.ParseIP\<close>: the first of \<^verbatim>\<open>.\<close>, \<^verbatim>\<open>:\<close>, \<^verbatim>\<open>%\<close> decides; a zone is refused.\<close>

definition parse_ip :: "string \<Rightarrow> ip option" where
  "parse_ip s =
     (case List.find (\<lambda>c. c = CHR ''.'' \<or> c = CHR '':'' \<or> c = CHR ''%'') s of
        None \<Rightarrow> None
      | Some c \<Rightarrow>
          if c = CHR ''.'' then map_option (\<lambda>b. v4_prefix @ b) (parse_ipv4 s)
          else if c = CHR '':'' then parse_ipv6 s
          else None)"

subsection \<open>Printing\<close>

fun hex_digits :: "nat \<Rightarrow> string" where
  "hex_digits n = (if n < 16 then [hex_char n] else hex_digits (n div 16) @ [hex_char (n mod 16)])"

declare hex_digits.simps [simp del]

fun groups_of :: "ip \<Rightarrow> nat list" where
  "groups_of (a # b # bs) = (256 * unat a + unat b) # groups_of bs"
| "groups_of _ = []"

definition zero_run :: "nat list \<Rightarrow> nat" where
  "zero_run gs = length (takeWhile (\<lambda>g. g = 0) gs)"

text \<open>The longest run of at least two zero groups, the first of them on a tie.\<close>

definition best_run :: "nat list \<Rightarrow> (nat \<times> nat) option" where
  "best_run gs =
     fold (\<lambda>i best. let l = zero_run (drop i gs) in
         if 2 \<le> l \<and> (case best of None \<Rightarrow> True | Some (s, e) \<Rightarrow> e - s < l)
         then Some (i, i + l) else best) [0..<length gs] None"

definition print_groups :: "nat list \<Rightarrow> string" where
  "print_groups gs = join_with '':'' (map hex_digits gs)"

definition print_ipv6 :: "ip \<Rightarrow> string" where
  "print_ipv6 b =
     (let gs = groups_of b
      in case best_run gs of
           None \<Rightarrow> print_groups gs
         | Some (s, e) \<Rightarrow> print_groups (take s gs) @ ''::'' @ print_groups (drop e gs))"

definition print_ipv4 :: "ip \<Rightarrow> string" where
  "print_ipv4 b = join_with ''.'' (map (\<lambda>x. dec_digits (unat x)) b)"

definition ip_string :: "ip \<Rightarrow> string" where
  "ip_string b = (case to4 b of Some v \<Rightarrow> print_ipv4 v | None \<Rightarrow> print_ipv6 b)"

section \<open>CIDR ranges\<close>

record ipnet =
  net_ip :: ip
  net_mask :: ip

text \<open>\<^verbatim>\<open>CIDRMask(ones, bits)\<close>\<close>

definition cidr_mask :: "nat \<Rightarrow> nat \<Rightarrow> ip" where
  "cidr_mask ones bits =
     map (\<lambda>i. let n = min 8 (ones - 8 * i) in of_nat (256 - 2 ^ (8 - n))) [0..<bits div 8]"

definition dtoi :: "string \<Rightarrow> nat option" where
  "dtoi s = (case atoi_nat s of None \<Rightarrow> None | Some n \<Rightarrow> if n < 16777215 then Some n else None)"

definition parse_cidr :: "string \<Rightarrow> ipnet option" where
  "parse_cidr s =
     (case index_byte (CHR ''/'') s of
        None \<Rightarrow> None
      | Some i \<Rightarrow>
          (let addr = take i s; m = drop (Suc i) s;
               v4 = (List.find (\<lambda>c. c = CHR ''.'' \<or> c = CHR '':'' \<or> c = CHR ''%'') addr = Some (CHR ''.''))
           in case (parse_ip addr, dtoi m) of
                (Some b, Some n) \<Rightarrow>
                  (let bits = (if v4 then 32 else 128); mask = cidr_mask n bits;
                       raw = (if v4 then drop 12 b else b)
                   in if bits < n then None
                      else Some \<lparr>net_ip = map2 (AND) raw mask, net_mask = mask\<rparr>)
              | _ \<Rightarrow> None))"

text \<open>\<^verbatim>\<open>IPNet.Contains\<close>\<close>

definition net_contains :: "ipnet \<Rightarrow> ip \<Rightarrow> bool" where
  "net_contains n b =
     (let nn = (case to4 (net_ip n) of Some v \<Rightarrow> v | None \<Rightarrow> net_ip n);
          m = (if length nn = 4 \<and> length (net_mask n) = 16 then drop 12 (net_mask n) else net_mask n);
          x = (case to4 b of Some v \<Rightarrow> v | None \<Rightarrow> b)
      in length x = length nn \<and> length m = length nn
         \<and> (\<forall>i<length x. nn ! i AND m ! i = x ! i AND m ! i))"

section \<open>Parsing inverts printing\<close>

subsection \<open>IPv4\<close>

lemma byte_bound: "unat (x :: 8 word) < 256"
proof -
  have "(unsigned x :: nat) < 2 ^ LENGTH(8)" by (rule unsigned_less)
  then show ?thesis by simp
qed

lemma parse_octet_digits: "n < 256 \<Longrightarrow> parse_octet (dec_digits n) = Some (of_nat n)"
proof -
  assume n: "n < 256"
  have "\<not> (1 < length (dec_digits n) \<and> hd (dec_digits n) = CHR ''0'')"
    using dec_digits_hd [of n] by (cases "n = 0") (simp_all add: dec_digits.simps [of 0])
  with n show ?thesis by (simp add: parse_octet_def)
qed

lemma dec_digits_no_dot: "CHR ''.'' \<notin> set (dec_digits n)"
  using dec_digits_set digit_char_plain(7) by fastforce

lemma parse_print_ipv4: "length b = 4 \<Longrightarrow> parse_ipv4 (print_ipv4 b) = Some b"
proof -
  assume len: "length b = 4"
  have "split_on (CHR ''.'') (print_ipv4 b) = map (\<lambda>x. dec_digits (unat x)) b"
    unfolding print_ipv4_def using len by (intro split_join) (auto simp: dec_digits_no_dot)
  moreover have "parse_octet (dec_digits (unat x)) = Some x" for x :: "8 word"
    by (simp add: parse_octet_digits byte_bound)
  ultimately have "map parse_octet (split_on (CHR ''.'') (print_ipv4 b)) = map Some b"
    by (simp add: comp_def)
  moreover obtain w x y z where "b = [w, x, y, z]"
    using len by (auto simp: length_Suc_conv numeral_eq_Suc)
  ultimately show ?thesis by (simp add: parse_ipv4_def)
qed

subsection \<open>IPv6\<close>

lemma hex_val_char [simp]: "d < 16 \<Longrightarrow> hex_val (hex_char d) = Some d"
  by (auto simp: hex_val_def hex_char_def)

lemma is_hex_char [simp]: "d < 16 \<Longrightarrow> is_hex (hex_char d)"
  by (simp add: is_hex_def)

lemma not_hex [simp]: "\<not> is_hex (CHR '':'')" "\<not> is_hex (CHR ''.'')" "\<not> is_hex (CHR ''%'')"
  by (simp_all add: is_hex_def hex_val_def)

lemma hex_digits_nonempty [simp]: "hex_digits n \<noteq> []"
  by (subst hex_digits.simps) simp

lemma hex_digits_hex: "c \<in> set (hex_digits n) \<Longrightarrow> is_hex c"
proof (induction n rule: hex_digits.induct)
  case (1 n)
  then show ?case by (cases "n < 16") (auto simp: hex_digits.simps [of n])
qed

lemma hex_value_append: "hex_value (s @ [c]) = 16 * hex_value s + (case hex_val c of None \<Rightarrow> 0 | Some d \<Rightarrow> d)"
  by (simp add: hex_value_def)

lemma hex_value_digits: "hex_value (hex_digits n) = n"
proof (induction n rule: hex_digits.induct)
  case (1 n)
  show ?case
  proof (cases "n < 16")
    case True
    then show ?thesis by (simp add: hex_digits.simps [of n] hex_value_def)
  next
    case False
    with 1 show ?thesis by (simp add: hex_digits.simps [of n] hex_value_append)
  qed
qed

lemma length_hex_digits: "n < 16 ^ Suc k \<Longrightarrow> length (hex_digits n) \<le> Suc k"
proof (induction k arbitrary: n)
  case 0
  then show ?case by (simp add: hex_digits.simps [of n])
next
  case (Suc k)
  have "n div 16 < 16 ^ Suc k" using Suc.prems by (simp add: less_mult_imp_div_less)
  with Suc.IH show ?case by (simp add: hex_digits.simps [of n])
qed

lemma hex_span:
  assumes "rest = [] \<or> \<not> is_hex (hd rest)"
  shows "takeWhile is_hex (hex_digits n @ rest) = hex_digits n"
    and "dropWhile is_hex (hex_digits n @ rest) = rest"
  using assms hex_digits_hex by (cases rest; fastforce simp: takeWhile_append dropWhile_append)+

lemma hex_span_all [simp]:
  "takeWhile is_hex (hex_digits n) = hex_digits n" "dropWhile is_hex (hex_digits n) = []"
  using hex_digits_hex by (fastforce simp: takeWhile_eq_all_conv dropWhile_eq_Nil_conv)+

definition groups_bytes :: "nat list \<Rightarrow> ip" where
  "groups_bytes gs = concat (map group_bytes gs)"

lemma length_groups_bytes [simp]: "length (groups_bytes gs) = 2 * length gs"
  by (induction gs) (auto simp: groups_bytes_def group_bytes_def)

lemma groups_bytes_simps [simp]:
  "groups_bytes [] = []" "groups_bytes (g # gs) = group_bytes g @ groups_bytes gs"
  "groups_bytes (xs @ ys) = groups_bytes xs @ groups_bytes ys"
  by (simp_all add: groups_bytes_def)

lemma print_groups_simps:
  "print_groups [] = []" "print_groups [g] = hex_digits g"
  "print_groups (g # h # gs) = hex_digits g @ CHR '':'' # print_groups (h # gs)"
  by (simp_all add: print_groups_def)

lemma print_groups_hd: "gs \<noteq> [] \<Longrightarrow> print_groups gs \<noteq> [] \<and> is_hex (hd (print_groups gs))"
  by (cases gs rule: remdups_adj.cases)
    (auto simp: print_groups_simps hd_append intro: hex_digits_hex [OF hd_in_set])

text \<open>One group of at most four digits, followed by the end, by a colon, or by \<^verbatim>\<open>::\<close>.\<close>

lemma v6_loop_end:
  assumes "length acc + 2 \<le> 16" and "g < 65536"
  shows "v6_loop acc ell (hex_digits g) = Some (acc @ group_bytes g, ell, [])"
  using assms length_hex_digits [of g 3]
  by (subst v6_loop.simps) (simp add: hex_value_digits Let_def)

lemma v6_loop_colon:
  assumes "length acc + 2 \<le> 16" and "g < 65536" and "d \<noteq> CHR '':''"
  shows "v6_loop acc ell (hex_digits g @ CHR '':'' # d # s) = v6_loop (acc @ group_bytes g) ell (d # s)"
  using assms length_hex_digits [of g 3] hex_span [of "CHR '':'' # d # s" g]
  by (subst v6_loop.simps) (simp add: hex_value_digits Let_def)

lemma v6_loop_ellipsis:
  assumes "length acc + 2 \<le> 16" and "g < 65536"
  shows "v6_loop acc None (hex_digits g @ ''::'' @ s) =
    (let acc' = acc @ group_bytes g
     in if s = [] then Some (acc', Some (length acc'), []) else v6_loop acc' (Some (length acc')) s)"
  using assms length_hex_digits [of g 3] hex_span [of "''::'' @ s" g]
  by (subst v6_loop.simps) (simp add: hex_value_digits Let_def)

lemma length_group_bytes [simp]: "length (group_bytes g) = 2"
  by (simp add: group_bytes_def)

lemma v6_loop_groups:
  assumes "gs \<noteq> []" "\<forall>g \<in> set gs. g < 65536" "length acc + 2 * length gs \<le> 16"
  shows "v6_loop acc ell (print_groups gs) = Some (acc @ groups_bytes gs, ell, [])"
  using assms
proof (induction gs arbitrary: acc)
  case (Cons g gs)
  show ?case
  proof (cases gs)
    case Nil
    with Cons.prems show ?thesis by (simp add: print_groups_simps v6_loop_end)
  next
    case (Cons h hs)
    obtain d s where ds: "print_groups (h # hs) = d # s" "is_hex d"
      using print_groups_hd [of "h # hs"] by (cases "print_groups (h # hs)") auto
    then have "d \<noteq> CHR '':''" by auto
    with Cons Cons.IH [of "acc @ group_bytes g"] Cons.prems ds show ?thesis
      by (simp add: print_groups_simps v6_loop_colon)
  qed
qed simp

lemma v6_loop_prefix:
  assumes "gs \<noteq> []" "\<forall>g \<in> set gs. g < 65536" "length acc + 2 * length gs \<le> 16"
  shows "v6_loop acc None (print_groups gs @ ''::'' @ s) =
    (let acc' = acc @ groups_bytes gs
     in if s = [] then Some (acc', Some (length acc'), []) else v6_loop acc' (Some (length acc')) s)"
  using assms
proof (induction gs arbitrary: acc)
  case (Cons g gs)
  show ?case
  proof (cases gs)
    case Nil
    with Cons.prems show ?thesis using v6_loop_ellipsis [of acc g s] by (simp add: print_groups_simps)
  next
    case (Cons h hs)
    obtain d t where ds: "print_groups (h # hs) = d # t" "is_hex d"
      using print_groups_hd [of "h # hs"] by (cases "print_groups (h # hs)") auto
    then have "d \<noteq> CHR '':''" by auto
    with Cons Cons.IH [of "acc @ group_bytes g"] Cons.prems ds show ?thesis
      by (simp add: print_groups_simps v6_loop_colon Let_def)
  qed
qed simp

text \<open>The run that \<^verbatim>\<open>::\<close> replaces is a run of zero groups.\<close>

definition run_ok :: "nat list \<Rightarrow> (nat \<times> nat) option \<Rightarrow> bool" where
  "run_ok gs r \<longleftrightarrow> (case r of None \<Rightarrow> True
     | Some (s, e) \<Rightarrow> s + 2 \<le> e \<and> e \<le> length gs \<and> gs = take s gs @ replicate (e - s) 0 @ drop e gs)"

lemma zero_run_split: "i \<le> length gs \<Longrightarrow>
  i + zero_run (drop i gs) \<le> length gs \<and>
  gs = take i gs @ replicate (zero_run (drop i gs)) 0 @ drop (i + zero_run (drop i gs)) gs"
proof -
  assume i: "i \<le> length gs"
  let ?t = "takeWhile (\<lambda>g. g = 0) (drop i gs)"
  have "?t = replicate (length ?t) 0"
    by (intro replicate_eqI) (auto dest: set_takeWhileD)
  then have "drop i gs = replicate (zero_run (drop i gs)) 0 @ dropWhile (\<lambda>g. g = 0) (drop i gs)"
    using takeWhile_dropWhile_id [of "\<lambda>g. g = 0" "drop i gs"] by (simp add: zero_run_def)
  moreover have "dropWhile (\<lambda>g. g = 0) (drop i gs) = drop (i + zero_run (drop i gs)) gs"
    by (simp add: zero_run_def dropWhile_eq_drop add.commute)
  moreover have "zero_run (drop i gs) \<le> length gs - i"
    using length_takeWhile_le [of "\<lambda>g. g = 0" "drop i gs"] by (simp add: zero_run_def)
  ultimately show ?thesis using i append_take_drop_id [of i gs] by simp
qed

lemma best_run_ok: "run_ok gs (best_run gs)"
  unfolding best_run_def
proof (rule fold_invariant [where Q = "\<lambda>i. i < length gs"])
  fix i best
  assume "i < length gs" and "run_ok gs best"
  then show "run_ok gs (let l = zero_run (drop i gs) in
      if 2 \<le> l \<and> (case best of None \<Rightarrow> True | Some (s, e) \<Rightarrow> e - s < l) then Some (i, i + l) else best)"
    using zero_run_split [of i gs] by (auto simp: Let_def run_ok_def)
qed (auto simp: run_ok_def)

lemma group_bytes_pair: "group_bytes (256 * unat a + unat b) = [a, b :: 8 word]"
proof -
  have "(256 * unat a + unat b) div 256 = unat a" "(256 * unat a + unat b) mod 256 = unat b"
    using byte_bound [of b] by simp_all
  then show ?thesis by (simp add: group_bytes_def)
qed

lemma groups_bytes_of: "even (length b) \<Longrightarrow> groups_bytes (groups_of b) = b"
  by (induction b rule: groups_of.induct) (auto simp: group_bytes_pair)

lemma length_groups_of [simp]: "length (groups_of b) = length b div 2"
  by (induction b rule: groups_of.induct) auto

lemma groups_of_small: "g \<in> set (groups_of b) \<Longrightarrow> g < 65536"
proof (induction b rule: groups_of.induct)
  case (1 a b bs)
  have "256 * unat a + unat b < 65536"
    using byte_bound [of a] byte_bound [of b] by simp
  with 1 show ?case by auto
qed auto

lemma groups_bytes_zeros: "groups_bytes (replicate n 0) = replicate (2 * n) 0"
  by (induction n) (auto simp: group_bytes_def)

lemma print_groups_chars: "c \<in> set (print_groups gs) \<Longrightarrow> is_hex c \<or> c = CHR '':''"
  by (induction gs rule: remdups_adj.induct) (auto simp: print_groups_simps dest: hex_digits_hex)

lemma print_groups_colon: "2 \<le> length gs \<Longrightarrow> CHR '':'' \<in> set (print_groups gs)"
  by (cases gs rule: remdups_adj.cases) (auto simp: print_groups_simps)

lemma print_groups_empty: "print_groups gs = [] \<longleftrightarrow> gs = []"
  using print_groups_hd [of gs] by (auto simp: print_groups_simps)

lemma no_lead: "gs \<noteq> [] \<Longrightarrow> \<not> has_prefix (print_groups gs @ s) ''::''"
  using print_groups_hd [of gs] by (cases "print_groups gs") (auto simp: has_prefix_def)

lemma parse_print_groups:
  assumes "length gs = 8" "\<forall>g \<in> set gs. g < 65536"
  shows "parse_ipv6 (print_groups gs) = Some (groups_bytes gs)"
proof -
  have "CHR ''%'' \<notin> set (print_groups gs)" using print_groups_chars by fastforce
  moreover have "gs \<noteq> []" using assms(1) by auto
  ultimately show ?thesis
    using assms v6_loop_groups [of gs "[]" None] no_lead [of gs "[]"]
    by (simp add: parse_ipv6_def Let_def)
qed

lemma parse_print_run:
  assumes "length xs + 2 \<le> 8 - length ys" "\<forall>g \<in> set xs \<union> set ys. g < 65536"
  shows "parse_ipv6 (print_groups xs @ ''::'' @ print_groups ys) =
    Some (groups_bytes xs @ replicate (16 - 2 * (length xs + length ys)) 0 @ groups_bytes ys)"
proof -
  have pc: "CHR ''%'' \<notin> set (print_groups xs)" "CHR ''%'' \<notin> set (print_groups ys)"
    using print_groups_chars by fastforce+
  show ?thesis
  proof (cases "xs = []")
    case True
    with assms pc v6_loop_groups [of ys "[]" "Some 0"] show ?thesis
      by (auto simp: parse_ipv6_def print_groups_simps print_groups_empty has_prefix_def Let_def)
  next
    case False
    have "v6_loop [] None (print_groups xs @ ''::'' @ print_groups ys) =
        Some (groups_bytes xs @ groups_bytes ys, Some (2 * length xs), [])"
      using False assms v6_loop_prefix [of xs "[]" "print_groups ys"]
        v6_loop_groups [of ys "groups_bytes xs" "Some (2 * length xs)"]
      by (auto simp: print_groups_empty Let_def)
    with False assms pc no_lead [of xs] show ?thesis
      by (auto simp: parse_ipv6_def Let_def)
  qed
qed

lemma find_only:
  assumes "\<And>x. x \<in> set s \<Longrightarrow> P x \<Longrightarrow> x = c" and "c \<in> set s" and "P c"
  shows "List.find P s = Some c"
proof (cases "List.find P s")
  case None
  with assms(2,3) show ?thesis by (simp add: find_none)
next
  case (Some x)
  with assms(1) [of x] find_in_set [OF Some] show ?thesis by simp
qed

lemma find_colon:
  assumes "\<And>c. c \<in> set s \<Longrightarrow> is_hex c \<or> c = CHR '':''" and "CHR '':'' \<in> set s"
  shows "List.find (\<lambda>c. c = CHR ''.'' \<or> c = CHR '':'' \<or> c = CHR ''%'') s = Some (CHR '':'')"
proof (rule find_only)
  fix x assume "x \<in> set s" and x: "x = CHR ''.'' \<or> x = CHR '':'' \<or> x = CHR ''%''"
  from assms(1) [OF this(1)] x show "x = CHR '':''" using not_hex by blast
qed (use assms(2) in simp_all)

lemma parse_print_ipv6:
  assumes "length b = 16"
  shows "parse_ip (print_ipv6 b) = Some b"
proof -
  define gs where "gs = groups_of b"
  have gs: "length gs = 8" "\<forall>g \<in> set gs. g < 65536" "groups_bytes gs = b"
  proof -
    show "length gs = 8" using assms by (simp add: gs_def)
    show "\<forall>g \<in> set gs. g < 65536" unfolding gs_def by (rule ballI) (rule groups_of_small)
    show "groups_bytes gs = b" unfolding gs_def using assms by (intro groups_bytes_of) simp
  qed
  have "parse_ipv6 (print_ipv6 b) = Some b \<and> CHR '':'' \<in> set (print_ipv6 b) \<and>
      (\<forall>c \<in> set (print_ipv6 b). is_hex c \<or> c = CHR '':'')"
  proof (cases "best_run gs")
    case None
    then have pr: "print_ipv6 b = print_groups gs" by (simp add: print_ipv6_def gs_def Let_def)
    have "parse_ipv6 (print_groups gs) = Some b" using gs parse_print_groups [of gs] by simp
    moreover have "CHR '':'' \<in> set (print_groups gs)" using gs(1) by (intro print_groups_colon) simp
    ultimately show ?thesis unfolding pr using print_groups_chars by blast
  next
    case (Some r)
    obtain s e where r: "r = (s, e)" by (cases r)
    have "run_ok gs (Some (s, e))" using best_run_ok [of gs] Some r by simp
    then have ok: "s + 2 \<le> e" "e \<le> 8" "gs = take s gs @ replicate (e - s) 0 @ drop e gs"
      using gs(1) unfolding run_ok_def by simp_all
    have "b = groups_bytes (take s gs) @ replicate (2 * (e - s)) 0 @ groups_bytes (drop e gs)"
      by (subst gs(3) [symmetric], subst ok(3)) (simp add: groups_bytes_zeros)
    moreover have "parse_ipv6 (print_groups (take s gs) @ ''::'' @ print_groups (drop e gs)) =
        Some (groups_bytes (take s gs) @ replicate (16 - 2 * (length (take s gs) + length (drop e gs))) 0
          @ groups_bytes (drop e gs))"
    proof (rule parse_print_run)
      show "length (take s gs) + 2 \<le> 8 - length (drop e gs)" using gs(1) ok(1,2) by simp
      show "\<forall>g \<in> set (take s gs) \<union> set (drop e gs). g < 65536"
        using gs(2) by (blast dest: in_set_takeD in_set_dropD)
    qed
    moreover have "16 - 2 * (length (take s gs) + length (drop e gs)) = 2 * (e - s)"
      using ok(1,2) gs(1) by simp
    moreover have pr: "print_ipv6 b = print_groups (take s gs) @ ''::'' @ print_groups (drop e gs)"
      using Some r by (simp add: print_ipv6_def gs_def Let_def)
    ultimately have "parse_ipv6 (print_ipv6 b) = Some b" by simp
    moreover have "\<forall>c \<in> set (print_ipv6 b). is_hex c \<or> c = CHR '':''"
      unfolding pr using print_groups_chars by auto
    ultimately show ?thesis by (simp add: pr)
  qed
  then show ?thesis by (simp add: parse_ip_def find_colon)
qed

lemma find_dot:
  assumes "\<And>c. c \<in> set s \<Longrightarrow> c \<noteq> CHR '':'' \<and> c \<noteq> CHR ''%''" and "CHR ''.'' \<in> set s"
  shows "List.find (\<lambda>c. c = CHR ''.'' \<or> c = CHR '':'' \<or> c = CHR ''%'') s = Some (CHR ''.'')"
  using assms by (intro find_only) auto

lemma parse_ip_ipv4: "length b = 4 \<Longrightarrow> parse_ip (print_ipv4 b) = Some (v4_prefix @ b)"
proof -
  assume len: "length b = 4"
  then obtain w x y z where b: "b = [w, x, y, z]"
    by (auto simp: length_Suc_conv numeral_eq_Suc)
  have "c \<in> set (dec_digits n) \<Longrightarrow> c \<noteq> CHR '':'' \<and> c \<noteq> CHR ''%''" for c n
  proof -
    assume "c \<in> set (dec_digits n)"
    then obtain d where "d < 10" "c = digit_char d" by (blast dest: dec_digits_set)
    then show ?thesis by (simp add: digit_char_plain)
  qed
  then have "List.find (\<lambda>c. c = CHR ''.'' \<or> c = CHR '':'' \<or> c = CHR ''%'') (print_ipv4 b) = Some (CHR ''.'')"
    by (intro find_dot) (auto simp: print_ipv4_def b)
  then show ?thesis using len by (simp add: parse_ip_def parse_print_ipv4)
qed

lemma parse_ip_string:
  assumes "length b = 16"
  shows "parse_ip (ip_string b) = Some b"
proof (cases "to4 b")
  case None
  with assms show ?thesis by (simp add: ip_string_def parse_print_ipv6)
next
  case (Some v)
  with assms have v: "v = drop 12 b" "take 12 b = v4_prefix"
    by (simp_all add: to4_def split: if_splits)
  then have "length v = 4" "b = v4_prefix @ v"
    using assms append_take_drop_id [of 12 b] by simp_all
  with Some show ?thesis by (simp add: ip_string_def parse_ip_ipv4)
qed

subsection \<open>Every parsed address has sixteen bytes\<close>

lemma length_parse_ipv4: "parse_ipv4 s = Some b \<Longrightarrow> length b = 4"
  by (auto simp: parse_ipv4_def split: list.splits option.splits)

lemma dropWhile_shorter: "dropWhile P s = x # xs \<Longrightarrow> length xs < length s"
  by (metis Suc_le_lessD length_Cons length_dropWhile_le)

text \<open>One turn of the loop: it ends with a group or four octets, or goes on with shorter text.\<close>

lemma v6_loop_step:
  assumes "v6_loop acc ell s = Some res" and "length acc < 16"
  obtains (group) g ell' where "res = (acc @ group_bytes g, ell', [])" "ell' = ell \<or> ell' = Some (length acc + 2)"
  | (octets) v where "res = (acc @ v, ell, [])" "length v = 4" "length acc + 4 \<le> 16"
  | (more) g ell' s' where "v6_loop (acc @ group_bytes g) ell' s' = Some res"
      "ell' = ell \<or> ell' = Some (length acc + 2)" "length s' < length s"
proof (cases "dropWhile is_hex s")
  case Nil
  with assms show ?thesis
    by (subst (asm) v6_loop.simps) (auto simp: Let_def intro: group split: if_splits)
next
  case (Cons c cs)
  note cs = dropWhile_shorter [OF Cons]
  show ?thesis
  proof (cases "c = CHR ''.''")
    case True
    with assms Cons show ?thesis
      by (subst (asm) v6_loop.simps)
        (auto simp: Let_def length_parse_ipv4 intro: octets split: if_splits)
  next
    case False
    with assms Cons cs show ?thesis
      by (subst (asm) v6_loop.simps)
        (auto simp: Let_def intro: group more split: if_splits list.splits)
  qed
qed

lemma length_v6_loop:
  "v6_loop acc ell s = Some (b, e, r) \<Longrightarrow> even (length acc) \<Longrightarrow> length acc \<le> 16 \<Longrightarrow>
   (\<forall>k. ell = Some k \<longrightarrow> k \<le> length acc) \<Longrightarrow> length b \<le> 16 \<and> (\<forall>k. e = Some k \<longrightarrow> k \<le> length b)"
proof (induction "length s" arbitrary: acc ell s rule: less_induct)
  case less
  show ?case
  proof (cases "length acc < 16")
    case True
    with less.prems(2) have room: "length acc + 2 \<le> 16" by presburger
    from less.prems(1) True show ?thesis
    proof (cases rule: v6_loop_step)
      case (group g ell')
      with less.prems(4) room show ?thesis by (auto intro: le_SucI)
    next
      case (octets v)
      with less.prems(4) show ?thesis by (auto intro: trans_le_add1)
    next
      case (more g ell' s')
      from more(2) less.prems(4) have "\<forall>k. ell' = Some k \<longrightarrow> k \<le> length (acc @ group_bytes g)"
        by (auto intro: le_SucI)
      with less.hyps [OF more(3,1)] less.prems(2) room show ?thesis by simp
    qed
  next
    case False
    with less.prems show ?thesis by (subst (asm) v6_loop.simps) auto
  qed
qed

lemma length_parse_ipv6: "parse_ipv6 s = Some b \<Longrightarrow> length b = 16"
  by (auto simp: parse_ipv6_def Let_def split: if_splits option.splits prod.splits dest!: length_v6_loop)

lemma length_parse_ip: "parse_ip s = Some b \<Longrightarrow> length b = 16"
  by (auto simp: parse_ip_def v4_prefix_def dest: length_parse_ipv4 length_parse_ipv6
      split: option.splits if_splits)

lemma ip_string_plain:
  assumes "c \<in> set (ip_string b)"
  shows "\<not> is_space c"
proof -
  have hex: "is_hex c \<or> c = CHR '':'' \<Longrightarrow> \<not> is_space c" for c
    by (auto simp: is_hex_def hex_val_def is_space_def Let_def split: if_splits)
  have "c \<in> set (dec_digits n) \<Longrightarrow> \<not> is_space c" for n
    using dec_digits_set digit_char_plain(10) by blast
  then have v4: "c \<in> set (print_ipv4 v) \<Longrightarrow> \<not> is_space c" for v
    unfolding print_ipv4_def
    by (induction v rule: remdups_adj.induct) (auto simp: is_space_def)
  have v6: "c \<in> set (print_ipv6 b) \<Longrightarrow> is_hex c \<or> c = CHR '':''"
    using print_groups_chars by (auto simp: print_ipv6_def Let_def split: option.splits)
  show ?thesis
    using assms v4 hex v6 by (auto simp: ip_string_def split: option.splits)
qed

end
