(* ===== verification/Schema.thy ===== *)
theory Schema
  imports GoText GoTime GoNet "HOL-Library.List_Lexorder" "HOL-Library.Char_ord"
begin

text \<open>
  The SQLite database behind \<^verbatim>\<open>storage.Storage\<close> as the migrations leave it: one list of rows per
  table with its AUTOINCREMENT counter, and the invariant of its PRIMARY KEY, UNIQUE and
  REFERENCES constraints (the connection enables \<^verbatim>\<open>foreign_keys\<close>). Code that is not in the
  repository is the record \<open>lib\<close>, an argument of every definition that calls it: the SQLite
  driver's failures, SQLite's comparison of a stored time with \<^verbatim>\<open>datetime('now')\<close>, the digest,
  bcrypt, and the file system.
\<close>

section \<open>Statements, errors, external code\<close>

text \<open>A SQL statement, named by the method that runs it (\<open>''DeleteGroup.select''\<close> where it runs several).\<close>

type_synonym stmt = string

text \<open>
  Go errors: a driver error, a violated UNIQUE or REFERENCES constraint, an empty result
  (\<^verbatim>\<open>sql.ErrNoRows\<close>), the sentinel \<^verbatim>\<open>storage.ErrGroupProtected\<close>, or a message of the program.
\<close>

datatype err = DbErr stmt | Constraint stmt | NoRows stmt | ErrGroupProtected | Msg string

datatype file_kind = IsDir | IsRegular | IsOther

record lib =
  db_fault :: "stmt \<Rightarrow> bool"
  after_now :: "time \<Rightarrow> time \<Rightarrow> bool"
  sha256 :: "string \<Rightarrow> 8 word list"
  bcrypt_hash :: "string \<Rightarrow> string option"
  bcrypt_ok :: "string \<Rightarrow> string \<Rightarrow> bool"
  os_stat :: "string \<Rightarrow> file_kind option"
  os_open_root :: "string \<Rightarrow> bool"
  url_parse :: "string \<Rightarrow> string option"
  tls_loads :: "string \<Rightarrow> string \<Rightarrow> bool"

text \<open>
  Statements of one name that run in different calls fail independently: \<open>in_call c L\<close> is the library as the
  call \<open>c\<close> meets it, whose statement \<open>q\<close> has the fault of \<open>c/q\<close>.
\<close>

definition in_call :: "string \<Rightarrow> lib \<Rightarrow> lib" where
  "in_call c L = L\<lparr>db_fault := (\<lambda>q. db_fault L (c @ ''/'' @ q))\<rparr>"

text \<open>Any other library that differs in the driver's failures only.\<close>

definition with_faults :: "(stmt \<Rightarrow> bool) \<Rightarrow> lib \<Rightarrow> lib" where
  "with_faults f L = L\<lparr>db_fault := f\<rparr>"

lemma in_call_sel [simp]:
  "db_fault (in_call c L) q = db_fault L (c @ ''/'' @ q)" "after_now (in_call c L) = after_now L"
  "sha256 (in_call c L) = sha256 L" "bcrypt_hash (in_call c L) = bcrypt_hash L" "bcrypt_ok (in_call c L) = bcrypt_ok L"
  "os_stat (in_call c L) = os_stat L" "os_open_root (in_call c L) = os_open_root L"
  "url_parse (in_call c L) = url_parse L" "tls_loads (in_call c L) = tls_loads L"
  by (simp_all add: in_call_def)

lemma with_faults_sel [simp]:
  "db_fault (with_faults f L) = f" "with_faults g (with_faults f L) = with_faults g L"
  "with_faults (db_fault L) L = L"
  by (simp_all add: with_faults_def)

definition sha256hex :: "lib \<Rightarrow> string \<Rightarrow> string" where
  "sha256hex L s = hex_encode (sha256 L s)"

definition randHex :: "8 word list \<Rightarrow> string" where
  \<comment> \<open>the argument is what \<^verbatim>\<open>rand.Read\<close> filled the buffer with\<close>
  "randHex b = hex_encode b"

text \<open>\<^verbatim>\<open>CURRENT_TIMESTAMP\<close> has a resolution of one second.\<close>

definition sql_now :: "time \<Rightarrow> time" where
  "sql_now now = now - now mod Second"

section \<open>Tables\<close>

record user_row =
  usr_id :: int
  usr_name :: string
  usr_hash :: string
  usr_created :: time

record group_row =
  grp_id :: int
  grp_name :: string
  grp_desc :: string
  grp_created :: time

text \<open>A \<^verbatim>\<open>client_ip\<close> value with its SQLite storage class; older builds stored BLOBs.\<close>

datatype cell = TextCell string | BlobCell string

fun cast_text :: "cell \<Rightarrow> string" where
  "cast_text (TextCell s) = s"
| "cast_text (BlobCell s) = s"

record session_row =
  ses_id :: int
  ses_hash :: string
  ses_user :: int
  ses_ip :: cell
  ses_exp :: time
  ses_created :: time

record invite_row =
  inv_id :: int
  inv_hash :: string
  inv_desc :: string
  inv_used :: bool
  inv_exp :: time
  inv_created :: time

record route =
  rt_id :: int
  rt_url :: string
  rt_target :: string
  rt_type :: string
  rt_tls :: bool
  rt_cert :: string
  rt_key :: string
  rt_enabled :: bool
  rt_source :: string
  rt_groups :: string
  rt_ips :: string
  rt_ip_auth :: bool
  rt_persistent :: bool
  rt_require_login :: bool
  rt_range :: string
  rt_created :: time
  rt_updated :: time

record throttle_policy =
  tp_tier :: string
  tp_enabled :: bool
  tp_rate :: rat
  tp_burst :: int
  tp_ban_enabled :: bool
  tp_ban_threshold :: int
  tp_ban_window :: int
  tp_ban_duration :: int

record banned_ip =
  ban_ip :: string
  ban_reason :: string
  ban_tier :: string
  ban_created :: time
  ban_expires :: "time option"

record settings =
  st_hours :: int
  st_renew :: bool

record failure_row =
  af_id :: int
  af_ip :: string
  af_user :: string
  af_created :: time

record access_row =
  al_id :: int
  al_ip :: string
  al_user :: string
  al_route :: string
  al_created :: time

record db =
  users :: "user_row list"
  users_seq :: int
  groups :: "group_row list"
  groups_seq :: int
  user_groups :: "(int \<times> int) list"
  sessions :: "session_row list"
  sessions_seq :: int
  invites :: "invite_row list"
  invites_seq :: int
  routes :: "route list"
  routes_seq :: int
  policy_rows :: "throttle_policy list"
  ban_rows :: "banned_ip list"
  settings_row :: "settings option"
  failures :: "failure_row list"
  failures_seq :: int
  accesses :: "access_row list"
  accesses_seq :: int

section \<open>The constraints as an invariant\<close>

text \<open>An AUTOINCREMENT key: distinct, positive, never above the counter.\<close>

definition auto_key :: "('r \<Rightarrow> int) \<Rightarrow> int \<Rightarrow> 'r list \<Rightarrow> bool" where
  "auto_key key seq rows \<longleftrightarrow>
     0 \<le> seq \<and> distinct (map key rows) \<and> (\<forall>r \<in> set rows. 0 < key r \<and> key r \<le> seq)"

definition users_ok :: "db \<Rightarrow> bool" where
  "users_ok d \<longleftrightarrow> auto_key usr_id (users_seq d) (users d) \<and> distinct (map usr_name (users d))"

definition groups_ok :: "db \<Rightarrow> bool" where
  "groups_ok d \<longleftrightarrow> auto_key grp_id (groups_seq d) (groups d) \<and> distinct (map grp_name (groups d))"

definition members_ok :: "db \<Rightarrow> bool" where
  "members_ok d \<longleftrightarrow> distinct (user_groups d) \<and>
     (\<forall>(u, g) \<in> set (user_groups d). u \<in> usr_id ` set (users d) \<and> g \<in> grp_id ` set (groups d))"

definition sessions_ok :: "db \<Rightarrow> bool" where
  "sessions_ok d \<longleftrightarrow> auto_key ses_id (sessions_seq d) (sessions d) \<and>
     distinct (map ses_hash (sessions d)) \<and>
     (\<forall>s \<in> set (sessions d). ses_user s \<in> usr_id ` set (users d))"

definition invites_ok :: "db \<Rightarrow> bool" where
  "invites_ok d \<longleftrightarrow> auto_key inv_id (invites_seq d) (invites d) \<and> distinct (map inv_hash (invites d))"

definition routes_ok :: "db \<Rightarrow> bool" where
  "routes_ok d \<longleftrightarrow> auto_key rt_id (routes_seq d) (routes d) \<and> distinct (map rt_url (routes d))"

definition throttle_ok :: "db \<Rightarrow> bool" where
  "throttle_ok d \<longleftrightarrow> distinct (map tp_tier (policy_rows d)) \<and> distinct (map ban_ip (ban_rows d))"

definition logs_ok :: "db \<Rightarrow> bool" where
  "logs_ok d \<longleftrightarrow> auto_key af_id (failures_seq d) (failures d) \<and> auto_key al_id (accesses_seq d) (accesses d)"

definition db_ok :: "db \<Rightarrow> bool" where
  "db_ok d \<longleftrightarrow> users_ok d \<and> groups_ok d \<and> members_ok d \<and> sessions_ok d \<and> invites_ok d
     \<and> routes_ok d \<and> throttle_ok d \<and> logs_ok d"

lemmas table_ok_defs = users_ok_def groups_ok_def members_ok_def sessions_ok_def invites_ok_def
  routes_ok_def throttle_ok_def logs_ok_def

lemma auto_key_append [wf_intros]:
  "auto_key key seq rows \<Longrightarrow> key r = seq + 1 \<Longrightarrow> auto_key key (seq + 1) (rows @ [r])"
  by (force simp: auto_key_def)

lemma auto_key_delete [wf_intros]: "auto_key key seq rows \<Longrightarrow> auto_key key seq (delete_where P rows)"
  by (auto simp: auto_key_def sql_simps intro: distinct_delete_where)

lemma auto_key_update [wf_intros]:
  "auto_key key seq rows \<Longrightarrow> (\<And>r. P r \<Longrightarrow> key (f r) = key r) \<Longrightarrow> auto_key key seq (update_where P f rows)"
  by (auto simp: auto_key_def sql_simps)

lemma auto_key_fresh: "auto_key key seq rows \<Longrightarrow> r \<in> set rows \<Longrightarrow> key r \<noteq> seq + 1"
  by (force simp: auto_key_def)

lemma distinct_append_new:
  "distinct (map key rows) \<Longrightarrow> (\<forall>r' \<in> set rows. key r' \<noteq> key r) \<Longrightarrow> distinct (map key (rows @ [r]))"
  by auto

section \<open>Joins\<close>

text \<open>
  \<^verbatim>\<open>FROM sessions s JOIN users u ON u.id = s.user_id\<close>: a session whose user is gone has no row.
\<close>

definition session_users :: "db \<Rightarrow> (session_row \<times> user_row) list" where
  "session_users d =
     concat (map (\<lambda>s. map (Pair s) (filter (\<lambda>u. usr_id u = ses_user s) (users d))) (sessions d))"

lemma set_session_users:
  "(s, u) \<in> set (session_users d) \<longleftrightarrow> s \<in> set (sessions d) \<and> u \<in> set (users d) \<and> usr_id u = ses_user s"
  by (auto simp: session_users_def)

text \<open>The group ids of a user: \<^verbatim>\<open>LEFT JOIN user_groups\<close> under \<^verbatim>\<open>GROUP_CONCAT\<close>.\<close>

definition groups_of_user :: "db \<Rightarrow> int \<Rightarrow> int list" where
  "groups_of_user d uid = map snd (filter (\<lambda>(u, g). u = uid) (user_groups d))"

lemma set_groups_of_user: "g \<in> set (groups_of_user d uid) \<longleftrightarrow> (uid, g) \<in> set (user_groups d)"
  by (force simp: groups_of_user_def)

definition group_concat :: "int list \<Rightarrow> string" where
  "group_concat ids = join_with '','' (map itoa ids)"

section \<open>Concrete instances\<close>

text \<open>
  The empty database, and an instance of the external code on which the witnesses evaluate: a
  driver that never fails, a digest and a password hash that are injective, stored times that compare as times.
\<close>

definition empty_db :: db where
  "empty_db = \<lparr>users = [], users_seq = 0, groups = [], groups_seq = 0, user_groups = [],
     sessions = [], sessions_seq = 0, invites = [], invites_seq = 0, routes = [], routes_seq = 0,
     policy_rows = [], ban_rows = [], settings_row = None, failures = [], failures_seq = 0,
     accesses = [], accesses_seq = 0\<rparr>"

definition plain_lib :: lib where
  "plain_lib = \<lparr>db_fault = (\<lambda>_. False), after_now = (\<lambda>e now. now < e), sha256 = map of_char,
     bcrypt_hash = Some, bcrypt_ok = (=), os_stat = (\<lambda>_. Some IsRegular), os_open_root = (\<lambda>_. True),
     url_parse = Some, tls_loads = (\<lambda>_ _. True)\<rparr>"

lemma plain_lib_sel [simp]:
  "\<not> db_fault plain_lib q" "after_now plain_lib e now \<longleftrightarrow> now < e" "bcrypt_hash plain_lib p = Some p"
  "bcrypt_ok plain_lib h p \<longleftrightarrow> h = p" "url_parse plain_lib u = Some u" "tls_loads plain_lib c k"
  "sha256 plain_lib = map of_char" "os_stat plain_lib f = Some IsRegular" "os_open_root plain_lib f"
  by (simp_all add: plain_lib_def)

lemma empty_db_ok: "db_ok empty_db"
  by (simp add: empty_db_def db_ok_def table_ok_defs auto_key_def)

end
