(* ===== verification/Accounts.thy ===== *)
theory Accounts
  imports Schema
begin

text \<open>
  storage/users.go, storage/groups.go and the seeding of storage/storage.go. A method that
  writes returns the new database with its result; a method that only reads returns the
  result. Deleting a user or a group cascades as the foreign keys say.
\<close>

record user =
  user_id :: int
  user_name :: string
  user_created :: time

record group =
  group_id :: int
  group_name :: string
  group_desc :: string
  group_created :: time

definition user_of_row :: "user_row \<Rightarrow> user" where
  "user_of_row r = \<lparr>user_id = usr_id r, user_name = usr_name r, user_created = usr_created r\<rparr>"

definition group_of_row :: "group_row \<Rightarrow> group" where
  "group_of_row r = \<lparr>group_id = grp_id r, group_name = grp_name r, group_desc = grp_desc r,
     group_created = grp_created r\<rparr>"

section \<open>storage/users.go\<close>

definition CreateUser :: "lib \<Rightarrow> time \<Rightarrow> db \<Rightarrow> string \<Rightarrow> string \<Rightarrow> db \<times> (err + user)" where
  "CreateUser L now d username password =
     (case bcrypt_hash L password of
        None \<Rightarrow> (d, Inl (Msg ''hash password''))
      | Some h \<Rightarrow>
          if db_fault L ''CreateUser'' then (d, Inl (DbErr ''CreateUser''))
          else if \<exists>r \<in> set (users d). usr_name r = username then (d, Inl (Constraint ''CreateUser''))
          else let r = \<lparr>usr_id = users_seq d + 1, usr_name = username, usr_hash = h,
                        usr_created = sql_now now\<rparr>
            in (d\<lparr>users := users d @ [r], users_seq := users_seq d + 1\<rparr>, Inr (user_of_row r)))"

definition Authenticate :: "lib \<Rightarrow> db \<Rightarrow> string \<Rightarrow> string \<Rightarrow> err + user" where
  "Authenticate L d username password =
     (if db_fault L ''Authenticate'' then Inl (Msg ''invalid credentials'')
      else case List.find (\<lambda>r. usr_name r = username) (users d) of
        None \<Rightarrow> Inl (Msg ''invalid credentials'')
      | Some r \<Rightarrow>
          if \<not> bcrypt_ok L (usr_hash r) password then Inl (Msg ''invalid credentials'')
          else Inr (user_of_row r))"

definition GetUserByID :: "lib \<Rightarrow> db \<Rightarrow> int \<Rightarrow> err + user" where
  "GetUserByID L d i =
     (if db_fault L ''GetUserByID'' then Inl (DbErr ''GetUserByID'')
      else case List.find (\<lambda>r. usr_id r = i) (users d) of
        None \<Rightarrow> Inl (NoRows ''GetUserByID'')
      | Some r \<Rightarrow> Inr (user_of_row r))"

definition GetAllUsers :: "lib \<Rightarrow> db \<Rightarrow> err + user list" where
  "GetAllUsers L d =
     (if db_fault L ''GetAllUsers'' then Inl (DbErr ''GetAllUsers'')
      else Inr (map user_of_row (sort_key usr_name (users d))))"

text \<open>ON DELETE CASCADE: the user's memberships and sessions go with the user.\<close>

definition DeleteUser :: "lib \<Rightarrow> db \<Rightarrow> int \<Rightarrow> db \<times> (err + unit)" where
  "DeleteUser L d i =
     (if db_fault L ''DeleteUser'' then (d, Inl (DbErr ''DeleteUser''))
      else let n = count_where (\<lambda>r. usr_id r = i) (users d);
               d' = d\<lparr>users := delete_where (\<lambda>r. usr_id r = i) (users d),
                      user_groups := delete_where (\<lambda>(u, g). u = i) (user_groups d),
                      sessions := delete_where (\<lambda>s. ses_user s = i) (sessions d)\<rparr>
        in if n = 0 then (d, Inl (Msg ''user not found'')) else (d', Inr ()))"

section \<open>storage/groups.go\<close>

definition CreateGroup :: "lib \<Rightarrow> time \<Rightarrow> db \<Rightarrow> string \<Rightarrow> string \<Rightarrow> db \<times> (err + group)" where
  "CreateGroup L now d name description =
     (if db_fault L ''CreateGroup'' then (d, Inl (DbErr ''CreateGroup''))
      else if \<exists>r \<in> set (groups d). grp_name r = name then (d, Inl (Constraint ''CreateGroup''))
      else let r = \<lparr>grp_id = groups_seq d + 1, grp_name = name, grp_desc = description,
                    grp_created = sql_now now\<rparr>
        in (d\<lparr>groups := groups d @ [r], groups_seq := groups_seq d + 1\<rparr>, Inr (group_of_row r)))"

definition GetAllGroups :: "lib \<Rightarrow> db \<Rightarrow> err + group list" where
  "GetAllGroups L d =
     (if db_fault L ''GetAllGroups'' then Inl (DbErr ''GetAllGroups'')
      else Inr (map group_of_row (sort_key grp_name (groups d))))"

definition DeleteGroup :: "lib \<Rightarrow> db \<Rightarrow> int \<Rightarrow> db \<times> (err + unit)" where
  "DeleteGroup L d i =
     (if db_fault L ''DeleteGroup.select'' then (d, Inl (Msg ''group not found''))
      else case List.find (\<lambda>r. grp_id r = i) (groups d) of
        None \<Rightarrow> (d, Inl (Msg ''group not found''))
      | Some r \<Rightarrow>
          if grp_name r = ''admin'' then (d, Inl ErrGroupProtected)
          else if db_fault L ''DeleteGroup.delete'' then (d, Inl (DbErr ''DeleteGroup.delete''))
          else if count_where (\<lambda>r. grp_id r = i) (groups d) = 0 then (d, Inl (Msg ''group not found''))
          else (d\<lparr>groups := delete_where (\<lambda>r. grp_id r = i) (groups d),
                  user_groups := delete_where (\<lambda>(u, g). g = i) (user_groups d)\<rparr>, Inr ()))"

text \<open>\<^verbatim>\<open>groups g JOIN user_groups ug ON g.id = ug.group_id WHERE ug.user_id = ? ORDER BY g.name\<close>\<close>

definition member_rows :: "db \<Rightarrow> int \<Rightarrow> group_row list" where
  "member_rows d uid =
     concat (map (\<lambda>r. map (\<lambda>_. r) (filter (\<lambda>(u, g). g = grp_id r \<and> u = uid) (user_groups d))) (groups d))"

definition GetUserGroups :: "lib \<Rightarrow> db \<Rightarrow> int \<Rightarrow> err + group list" where
  "GetUserGroups L d uid =
     (if db_fault L ''GetUserGroups'' then Inl (DbErr ''GetUserGroups'')
      else Inr (map group_of_row (sort_key grp_name (member_rows d uid))))"

text \<open>\<^verbatim>\<open>INSERT OR IGNORE\<close> ignores a duplicate row, not a missing user or group.\<close>

definition AddUserToGroup :: "lib \<Rightarrow> db \<Rightarrow> int \<Rightarrow> int \<Rightarrow> db \<times> (err + unit)" where
  "AddUserToGroup L d uid gid =
     (if db_fault L ''AddUserToGroup'' then (d, Inl (DbErr ''AddUserToGroup''))
      else if (uid, gid) \<in> set (user_groups d) then (d, Inr ())
      else if uid \<notin> usr_id ` set (users d) \<or> gid \<notin> grp_id ` set (groups d)
        then (d, Inl (Constraint ''AddUserToGroup''))
      else (d\<lparr>user_groups := user_groups d @ [(uid, gid)]\<rparr>, Inr ()))"

definition RemoveUserFromGroup :: "lib \<Rightarrow> db \<Rightarrow> int \<Rightarrow> int \<Rightarrow> db \<times> (err + unit)" where
  "RemoveUserFromGroup L d uid gid =
     (if db_fault L ''RemoveUserFromGroup'' then (d, Inl (DbErr ''RemoveUserFromGroup''))
      else (d\<lparr>user_groups := delete_where (\<lambda>(u, g). u = uid \<and> g = gid) (user_groups d)\<rparr>, Inr ()))"

definition UserInGroup :: "lib \<Rightarrow> db \<Rightarrow> int \<Rightarrow> string \<Rightarrow> err + bool" where
  "UserInGroup L d uid name =
     (if db_fault L ''UserInGroup'' then Inl (DbErr ''UserInGroup'')
      else Inr (0 < count_where (\<lambda>r. grp_name r = name) (member_rows d uid)))"

section \<open>storage/storage.go: the default administrator\<close>

definition seedAdmin :: "lib \<Rightarrow> time \<Rightarrow> db \<Rightarrow> db" where
  "seedAdmin L now d =
     (if db_fault L ''seedAdmin'' \<or> users d \<noteq> [] then d
      else case CreateUser L now d ''admin'' ''admin123'' of
        (d1, Inl e) \<Rightarrow> d1
      | (d1, Inr u) \<Rightarrow>
          (case CreateGroup L now d1 ''admin'' ''Administrators'' of
             (d2, Inl e) \<Rightarrow> d2
           | (d2, Inr g) \<Rightarrow> fst (AddUserToGroup L d2 (user_id u) (group_id g))))"

section \<open>The constraints hold after every operation\<close>

lemmas accounts_defs = CreateUser_def DeleteUser_def CreateGroup_def DeleteGroup_def
  AddUserToGroup_def RemoveUserFromGroup_def

lemma CreateUser_ok [wf_intros]: "db_ok d \<Longrightarrow> db_ok (fst (CreateUser L now d n p))"
  by (auto simp: CreateUser_def db_ok_def table_ok_defs Let_def intro!: auto_key_append split: option.splits)

lemma DeleteUser_ok [wf_intros]: "db_ok d \<Longrightarrow> db_ok (fst (DeleteUser L d i))"
  by (auto simp: DeleteUser_def db_ok_def table_ok_defs Let_def sql_simps
      intro!: auto_key_delete distinct_delete_where)
    (auto simp: delete_where_def)

lemma CreateGroup_ok [wf_intros]: "db_ok d \<Longrightarrow> db_ok (fst (CreateGroup L now d n p))"
  by (auto simp: CreateGroup_def db_ok_def table_ok_defs Let_def intro!: auto_key_append)

lemma DeleteGroup_ok [wf_intros]: "db_ok d \<Longrightarrow> db_ok (fst (DeleteGroup L d i))"
  by (auto simp: DeleteGroup_def db_ok_def table_ok_defs sql_simps
      intro!: auto_key_delete distinct_delete_where split: option.splits)
    (auto simp: delete_where_def)

lemma AddUserToGroup_ok [wf_intros]: "db_ok d \<Longrightarrow> db_ok (fst (AddUserToGroup L d u g))"
  by (auto simp: AddUserToGroup_def db_ok_def table_ok_defs)

lemma RemoveUserFromGroup_ok [wf_intros]: "db_ok d \<Longrightarrow> db_ok (fst (RemoveUserFromGroup L d u g))"
  by (auto simp: RemoveUserFromGroup_def db_ok_def table_ok_defs delete_where_def)

lemma seedAdmin_ok [wf_intros]: "db_ok d \<Longrightarrow> db_ok (seedAdmin L now d)"
proof -
  assume ok: "db_ok d"
  note 1 = CreateUser_ok [OF ok, of L now "''admin''" "''admin123''"]
  note 2 = CreateGroup_ok [OF 1, of L now "''admin''" "''Administrators''"]
  show ?thesis
    using ok 1 2 AddUserToGroup_ok [OF 2]
    by (auto simp: seedAdmin_def split: prod.splits sum.splits)
qed

section \<open>Membership\<close>

lemma set_member_rows: "r \<in> set (member_rows d uid) \<longleftrightarrow> r \<in> set (groups d) \<and> (uid, grp_id r) \<in> set (user_groups d)"
  by (force simp: member_rows_def)

lemma UserInGroup_iff:
  "UserInGroup L d uid name = Inr True \<longleftrightarrow>
     \<not> db_fault L ''UserInGroup'' \<and>
     (\<exists>r \<in> set (groups d). grp_name r = name \<and> (uid, grp_id r) \<in> set (user_groups d))"
  by (auto simp: UserInGroup_def sql_simps set_member_rows)

lemma GetUserGroups_ids:
  "GetUserGroups L d uid = Inr gs \<Longrightarrow> members_ok d \<Longrightarrow>
   set (map group_id gs) = set (groups_of_user d uid)"
  by (force simp: GetUserGroups_def set_member_rows set_groups_of_user members_ok_def group_of_row_def
      split: if_splits)

end
