(* ===== verification/Sessions.thy ===== *)
theory Sessions
  imports Accounts
begin

text \<open>
  storage/settings.go, storage/sessions.go and the session half of storage/metrics.go. Times
  bound by the Go code (\<^verbatim>\<open>time.Now()\<close>) are compared chronologically; \<^verbatim>\<open>datetime('now')\<close> is the
  parameter \<open>after_now\<close>. A method whose \<^verbatim>\<open>Exec\<close> error is dropped leaves the table alone when the
  driver fails.
\<close>

section \<open>storage/settings.go\<close>

definition SessionDur :: "settings \<Rightarrow> duration" where
  "SessionDur st = (let h = (if st_hours st \<le> 0 then 168 else st_hours st) in dur_mul h Hour)"

definition defaultSettings :: settings where
  "defaultSettings = \<lparr>st_hours = 168, st_renew = True\<rparr>"

definition GetSettings :: "lib \<Rightarrow> db \<Rightarrow> settings" where
  \<comment> \<open>never returns an error: any failure gives the defaults\<close>
  "GetSettings L d =
     (if db_fault L ''GetSettings'' then defaultSettings
      else case settings_row d of None \<Rightarrow> defaultSettings | Some st \<Rightarrow> st)"

definition UpdateSettings :: "lib \<Rightarrow> db \<Rightarrow> int \<Rightarrow> bool \<Rightarrow> db \<times> (err + unit)" where
  "UpdateSettings L d hours renew =
     (let h = (if hours \<le> 0 then 168 else hours)
      in if db_fault L ''UpdateSettings'' then (d, Inl (DbErr ''UpdateSettings''))
         else (d\<lparr>settings_row := map_option (\<lambda>_. \<lparr>st_hours = h, st_renew = renew\<rparr>) (settings_row d)\<rparr>, Inr ()))"

section \<open>storage/sessions.go\<close>

definition normalizeIP :: "string \<Rightarrow> string" where
  "normalizeIP s = (case parse_ip (trim_space s) of Some p \<Rightarrow> ip_string p | None \<Rightarrow> s)"

record session =
  sn_id :: int
  sn_user :: int
  sn_name :: string
  sn_exp :: time
  sn_created :: time

record session_groups = session +
  sn_groups :: "int list"

definition session_of :: "session_row \<times> user_row \<Rightarrow> session" where
  "session_of = (\<lambda>(s, u). \<lparr>sn_id = ses_id s, sn_user = ses_user s, sn_name = usr_name u,
     sn_exp = ses_exp s, sn_created = ses_created s\<rparr>)"

definition CreateSession ::
  "lib \<Rightarrow> time \<Rightarrow> 8 word list \<Rightarrow> db \<Rightarrow> int \<Rightarrow> duration \<Rightarrow> string \<Rightarrow> db \<times> (err + string)" where
  "CreateSession L now rnd d uid dur clientIP =
     (let tok = randHex rnd; hash = sha256hex L tok; exp = time_add now dur; ip = normalizeIP clientIP
      in if db_fault L ''CreateSession'' then (d, Inl (DbErr ''CreateSession''))
         else if hash \<in> ses_hash ` set (sessions d) \<or> uid \<notin> usr_id ` set (users d)
           then (d, Inl (Constraint ''CreateSession''))
         else (d\<lparr>sessions := sessions d @ [\<lparr>ses_id = sessions_seq d + 1, ses_hash = hash, ses_user = uid,
                   ses_ip = TextCell ip, ses_exp = exp, ses_created = sql_now now\<rparr>],
                 sessions_seq := sessions_seq d + 1\<rparr>, Inr tok))"

definition ValidateSession :: "lib \<Rightarrow> time \<Rightarrow> db \<Rightarrow> string \<Rightarrow> err + session" where
  "ValidateSession L now d tok =
     (let hash = sha256hex L tok
      in if db_fault L ''ValidateSession'' then Inl (Msg ''invalid or expired session'')
         else case List.find (\<lambda>(s, u). ses_hash s = hash \<and> now < ses_exp s) (session_users d) of
             None \<Rightarrow> Inl (Msg ''invalid or expired session'')
           | Some r \<Rightarrow> Inr (session_of r))"

definition ValidateSessionByIP :: "lib \<Rightarrow> time \<Rightarrow> db \<Rightarrow> string \<Rightarrow> err + session" where
  "ValidateSessionByIP L now d ip0 =
     (let ip = normalizeIP ip0;
          rows = sort_key (\<lambda>(s, u). - ses_exp s)
            (filter (\<lambda>(s, u). cast_text (ses_ip s) = ip \<and> now < ses_exp s) (session_users d))
      in if db_fault L ''ValidateSessionByIP'' then Inl (Msg ''no active session for IP'')
         else case rows of [] \<Rightarrow> Inl (Msg ''no active session for IP'')
           | r # _ \<Rightarrow> Inr (session_of r))"

definition parseGroupIDs :: "string \<Rightarrow> int list" where
  "parseGroupIDs s =
     (if s = [] then []
      else List.map_filter (\<lambda>p. atoi (trim_space p)) (split_on (CHR '','') s))"

definition with_groups :: "db \<Rightarrow> session_row \<times> user_row \<Rightarrow> session_groups" where
  "with_groups d r =
     session.extend (session_of r)
       \<lparr>sn_groups = parseGroupIDs (group_concat (groups_of_user d (ses_user (fst r))))\<rparr>"

definition ValidateSessionAndGroups :: "lib \<Rightarrow> time \<Rightarrow> db \<Rightarrow> string \<Rightarrow> err + session_groups" where
  "ValidateSessionAndGroups L now d tok =
     (let hash = sha256hex L tok
      in if db_fault L ''ValidateSessionAndGroups'' then Inl (Msg ''invalid or expired session'')
         else case List.find (\<lambda>(s, u). ses_hash s = hash \<and> now < ses_exp s) (session_users d) of
             None \<Rightarrow> Inl (Msg ''invalid or expired session'')
           | Some r \<Rightarrow> Inr (with_groups d r))"

text \<open>The inner query: the candidate rows for an address, latest expiry first.\<close>

definition ip_candidates :: "time \<Rightarrow> db \<Rightarrow> string \<Rightarrow> int list \<Rightarrow> (session_row \<times> user_row) list" where
  "ip_candidates now d ip allowed =
     sort_key (\<lambda>(s, u). - ses_exp s)
       (filter (\<lambda>(s, u). cast_text (ses_ip s) = ip \<and> now < ses_exp s \<and>
           (allowed \<noteq> [] \<longrightarrow> (\<exists>(uid, g) \<in> set (user_groups d). uid = ses_user s \<and> g \<in> set allowed)))
         (session_users d))"

definition ValidateSessionByIPInGroups ::
  "lib \<Rightarrow> time \<Rightarrow> db \<Rightarrow> string \<Rightarrow> int list \<Rightarrow> err + session_groups" where
  "ValidateSessionByIPInGroups L now d ip0 allowed =
     (let ip = normalizeIP ip0
      in if db_fault L ''ValidateSessionByIPInGroups'' then Inl (Msg ''no active session for IP'')
         else case ip_candidates now d ip allowed of
             [] \<Rightarrow> Inl (Msg ''no active session for IP'')
           | (s2, u2) # _ \<Rightarrow>
               (case List.find (\<lambda>(s, u). ses_id s = ses_id s2) (session_users d) of
                  None \<Rightarrow> Inl (Msg ''no active session for IP'')
                | Some r \<Rightarrow> Inr (with_groups d r)))"

definition ValidateSessionByIPAndGroups :: "lib \<Rightarrow> time \<Rightarrow> db \<Rightarrow> string \<Rightarrow> err + session_groups" where
  "ValidateSessionByIPAndGroups L now d ip = ValidateSessionByIPInGroups L now d ip []"

definition DeleteSession :: "lib \<Rightarrow> db \<Rightarrow> string \<Rightarrow> db \<times> (err + unit)" where
  "DeleteSession L d tok =
     (let hash = sha256hex L tok
      in if db_fault L ''DeleteSession'' then (d, Inl (DbErr ''DeleteSession''))
         else (d\<lparr>sessions := delete_where (\<lambda>s. ses_hash s = hash) (sessions d)\<rparr>, Inr ()))"

definition ExtendSession :: "lib \<Rightarrow> time \<Rightarrow> db \<Rightarrow> string \<Rightarrow> duration \<Rightarrow> db" where
  "ExtendSession L now d tok dur =
     (let hash = sha256hex L tok; exp = time_add now dur
      in if db_fault L ''ExtendSession'' then d
         else d\<lparr>sessions := update_where (\<lambda>s. ses_hash s = hash) (\<lambda>s. s\<lparr>ses_exp := exp\<rparr>) (sessions d)\<rparr>)"

definition ExtendSessionByID :: "lib \<Rightarrow> time \<Rightarrow> db \<Rightarrow> int \<Rightarrow> duration \<Rightarrow> db" where
  "ExtendSessionByID L now d i dur =
     (let exp = time_add now dur
      in if db_fault L ''ExtendSessionByID'' then d
         else d\<lparr>sessions := update_where (\<lambda>s. ses_id s = i) (\<lambda>s. s\<lparr>ses_exp := exp\<rparr>) (sessions d)\<rparr>)"

definition ExtendUserSessionsByIP :: "lib \<Rightarrow> time \<Rightarrow> db \<Rightarrow> int \<Rightarrow> string \<Rightarrow> duration \<Rightarrow> db" where
  "ExtendUserSessionsByIP L now d uid ip0 dur =
     (let ip = normalizeIP ip0; exp = time_add now dur
      in if db_fault L ''ExtendUserSessionsByIP'' then d
         else d\<lparr>sessions := update_where
             (\<lambda>s. ses_user s = uid \<and> cast_text (ses_ip s) = ip \<and> now < ses_exp s)
             (\<lambda>s. s\<lparr>ses_exp := exp\<rparr>) (sessions d)\<rparr>)"

definition CleanupExpiredSessions :: "lib \<Rightarrow> time \<Rightarrow> db \<Rightarrow> db" where
  "CleanupExpiredSessions L now d =
     (if db_fault L ''CleanupExpiredSessions'' then d
      else d\<lparr>sessions := delete_where (\<lambda>s. ses_exp s < now) (sessions d)\<rparr>)"

section \<open>storage/metrics.go: session lists\<close>

record session_info =
  si_id :: int
  si_user :: int
  si_name :: string
  si_ip :: string
  si_created :: time
  si_exp :: time

definition info_of :: "session_row \<times> user_row \<Rightarrow> session_info" where
  "info_of = (\<lambda>(s, u). \<lparr>si_id = ses_id s, si_user = ses_user s, si_name = usr_name u,
     si_ip = cast_text (ses_ip s), si_created = ses_created s, si_exp = ses_exp s\<rparr>)"

definition GetActiveSessions :: "lib \<Rightarrow> time \<Rightarrow> db \<Rightarrow> err + session_info list" where
  "GetActiveSessions L now d =
     (if db_fault L ''GetActiveSessions'' then Inl (DbErr ''GetActiveSessions'')
      else Inr (map info_of (sort_key (\<lambda>(s, u). - ses_created s)
             (filter (\<lambda>(s, u). after_now L (ses_exp s) now) (session_users d)))))"

definition GetUserSessions :: "lib \<Rightarrow> time \<Rightarrow> db \<Rightarrow> int \<Rightarrow> err + session_info list" where
  "GetUserSessions L now d uid =
     (if db_fault L ''GetUserSessions'' then Inl (DbErr ''GetUserSessions'')
      else Inr (map info_of (sort_key (\<lambda>(s, u). - ses_created s)
             (filter (\<lambda>(s, u). ses_user s = uid \<and> after_now L (ses_exp s) now) (session_users d)))))"

definition DeleteSessionByID :: "lib \<Rightarrow> db \<Rightarrow> int \<Rightarrow> int \<Rightarrow> db \<times> (err + unit)" where
  "DeleteSessionByID L d i owner =
     (if db_fault L ''DeleteSessionByID'' then (d, Inl (DbErr ''DeleteSessionByID''))
      else if count_where (\<lambda>s. ses_id s = i \<and> ses_user s = owner) (sessions d) = 0
        then (d, Inl (Msg ''session not found''))
      else (d\<lparr>sessions := delete_where (\<lambda>s. ses_id s = i \<and> ses_user s = owner) (sessions d)\<rparr>, Inr ()))"

definition AdminDeleteSession :: "lib \<Rightarrow> db \<Rightarrow> int \<Rightarrow> db \<times> (err + unit)" where
  "AdminDeleteSession L d i =
     (if db_fault L ''AdminDeleteSession'' then (d, Inl (DbErr ''AdminDeleteSession''))
      else (d\<lparr>sessions := delete_where (\<lambda>s. ses_id s = i) (sessions d)\<rparr>, Inr ()))"

section \<open>Group lists survive GROUP_CONCAT\<close>

lemma map_filter_some: "(\<And>x. x \<in> set xs \<Longrightarrow> f x = Some (g x)) \<Longrightarrow> List.map_filter f xs = map g xs"
  by (induction xs) (auto simp: List.map_filter_def)

lemma join_with_nonempty: "xs \<noteq> [] \<Longrightarrow> [] \<notin> set xs \<Longrightarrow> join_with sep xs \<noteq> []"
  by (cases xs rule: remdups_adj.cases) auto

lemma group_concat_nonempty: "ids \<noteq> [] \<Longrightarrow> group_concat ids \<noteq> []"
  unfolding group_concat_def
  by (rule join_with_nonempty) (auto dest: itoa_nonempty [THEN not_sym, THEN notE])

lemma parse_group_concat:
  assumes "\<forall>g \<in> set ids. int64 g"
  shows "parseGroupIDs (group_concat ids) = ids"
proof (cases "ids = []")
  case False
  have "split_on (CHR '','') (group_concat ids) = map itoa ids"
    using False itoa_plain(1) unfolding group_concat_def by (intro split_join) fastforce+
  moreover have "group_concat ids \<noteq> []"
    using False by (rule group_concat_nonempty)
  moreover have "List.map_filter (\<lambda>p. atoi (trim_space p)) (map itoa ids) = map id ids"
    using assms by (simp add: List.map_filter_def atoi_itoa o_def filter_id_conv cong: map_cong)
  ultimately show ?thesis by (simp add: parseGroupIDs_def)
qed (simp add: parseGroupIDs_def group_concat_def)

section \<open>The constraints hold after every operation\<close>

lemma UpdateSettings_ok [wf_intros]: "db_ok d \<Longrightarrow> db_ok (fst (UpdateSettings L d h r))"
  by (auto simp: UpdateSettings_def db_ok_def table_ok_defs Let_def)

lemma CreateSession_ok [wf_intros]: "db_ok d \<Longrightarrow> db_ok (fst (CreateSession L now rnd d u dur ip))"
  by (auto simp: CreateSession_def db_ok_def table_ok_defs Let_def intro!: auto_key_append)

lemma sessions_deleted_ok:
  "db_ok d \<Longrightarrow> db_ok (d\<lparr>sessions := delete_where P (sessions d)\<rparr>)"
  by (auto simp: db_ok_def table_ok_defs sql_simps intro!: auto_key_delete distinct_delete_where)

lemma sessions_extended_ok:
  "db_ok d \<Longrightarrow> db_ok (d\<lparr>sessions := update_where P (\<lambda>s. s\<lparr>ses_exp := e\<rparr>) (sessions d)\<rparr>)"
  by (auto simp: db_ok_def table_ok_defs sql_simps intro!: auto_key_update)

lemma DeleteSession_ok [wf_intros]: "db_ok d \<Longrightarrow> db_ok (fst (DeleteSession L d tok))"
  and DeleteSessionByID_ok [wf_intros]: "db_ok d \<Longrightarrow> db_ok (fst (DeleteSessionByID L d i u))"
  and AdminDeleteSession_ok [wf_intros]: "db_ok d \<Longrightarrow> db_ok (fst (AdminDeleteSession L d i))"
  and CleanupExpiredSessions_ok [wf_intros]: "db_ok d \<Longrightarrow> db_ok (CleanupExpiredSessions L now d)"
  by (simp_all add: DeleteSession_def DeleteSessionByID_def AdminDeleteSession_def
      CleanupExpiredSessions_def Let_def sessions_deleted_ok)

lemma ExtendSession_ok [wf_intros]: "db_ok d \<Longrightarrow> db_ok (ExtendSession L now d tok dur)"
  and ExtendSessionByID_ok [wf_intros]: "db_ok d \<Longrightarrow> db_ok (ExtendSessionByID L now d i dur)"
  and ExtendUserSessionsByIP_ok [wf_intros]: "db_ok d \<Longrightarrow> db_ok (ExtendUserSessionsByIP L now d u ip dur)"
  by (simp_all add: ExtendSession_def ExtendSessionByID_def ExtendUserSessionsByIP_def Let_def
      sessions_extended_ok)

section \<open>Address normalisation\<close>

text \<open>Normalising a client address twice gives the same string as normalising it once.\<close>

lemma normalizeIP_idem: "normalizeIP (normalizeIP s) = normalizeIP s"
proof (cases "parse_ip (trim_space s)")
  case None
  then show ?thesis by (simp add: normalizeIP_def)
next
  case (Some p)
  have "trim_space (ip_string p) = ip_string p"
    by (rule trim_space_id) (rule ip_string_plain)
  with Some parse_ip_string [OF length_parse_ip [OF Some]] show ?thesis
    by (simp add: normalizeIP_def)
qed

lemma length_dec_digits: "n < 10 ^ Suc k \<Longrightarrow> length (dec_digits n) \<le> Suc k"
proof (induction k arbitrary: n)
  case 0
  then show ?case by (simp add: dec_digits.simps [of n])
next
  case (Suc k)
  have "n div 10 < 10 ^ Suc k" using Suc.prems by (simp add: less_mult_imp_div_less)
  with Suc.IH show ?case by (simp add: dec_digits.simps [of n])
qed

lemma dec_digits_hex: "c \<in> set (dec_digits n) \<Longrightarrow> is_hex c"
proof -
  assume "c \<in> set (dec_digits n)"
  then obtain d where "d < 10" "c = digit_char d" by (blast dest: dec_digits_set)
  then show ?thesis by (simp add: digit_char_def is_hex_def hex_val_def)
qed

lemma octet_span:
  "takeWhile is_hex (dec_digits n @ CHR ''.'' # s) = dec_digits n"
  "dropWhile is_hex (dec_digits n @ CHR ''.'' # s) = CHR ''.'' # s"
  using dec_digits_hex by (fastforce simp: takeWhile_append dropWhile_append)+

lemma v6_loop_octets:
  assumes "length acc + 4 \<le> 16" and "length v = 4"
  shows "v6_loop acc (Some e) (print_ipv4 v) = Some (acc @ v, Some e, [])"
proof -
  obtain a b c d where v: "v = [a, b, c, d]"
    using assms(2) by (auto simp: length_Suc_conv numeral_eq_Suc)
  obtain s where s: "print_ipv4 v = dec_digits (unat a) @ CHR ''.'' # s"
    by (simp add: v print_ipv4_def)
  have "length (dec_digits (unat a)) \<le> 3"
    using length_dec_digits [of "unat a" 2] byte_bound [of a] by simp
  moreover have "parse_ipv4 (dec_digits (unat a) @ CHR ''.'' # s) = Some v"
    using parse_print_ipv4 [OF assms(2)] s by simp
  ultimately show ?thesis
    using assms(1) unfolding s by (subst v6_loop.simps) (simp add: octet_span Let_def)
qed

lemma mapped_head:
  "v6_loop [] (Some 0) (''ffff:'' @ d # s) = v6_loop [255, 255] (Some 0) (d # s)" if "d \<noteq> CHR '':''"
proof -
  have "hex_val (CHR ''f'') = Some 15" by (simp add: hex_val_def)
  then have "is_hex (CHR ''f'')" "hex_value ''ffff'' = 65535"
    by (simp_all add: is_hex_def hex_value_def)
  with that show ?thesis
    by (subst v6_loop.simps) (simp add: Let_def group_bytes_def)
qed

lemma parse_ip_mapped:
  assumes "length v = 4"
  shows "parse_ip (''::ffff:'' @ print_ipv4 v) = Some (v4_prefix @ v)"
proof -
  obtain a b c d where v: "v = [a, b, c, d]"
    using assms by (auto simp: length_Suc_conv numeral_eq_Suc)
  obtain x ds where ds: "dec_digits (unat a) = x # ds" by (cases "dec_digits (unat a)") auto
  then have "is_hex x" using dec_digits_hex [of x "unat a"] by simp
  moreover obtain s where x: "print_ipv4 v = x # s" by (simp add: v print_ipv4_def ds)
  ultimately have "x \<noteq> CHR '':''" by auto
  then have "v6_loop [] (Some 0) (''ffff:'' @ print_ipv4 v) = Some ([255, 255] @ v, Some 0, [])"
    using mapped_head [of x s] v6_loop_octets [of "[255, 255]" v 0] assms x by simp
  moreover have "CHR ''%'' \<notin> set (print_ipv4 v)"
    using dec_digits_hex by (fastforce simp: v print_ipv4_def)
  ultimately show ?thesis
    using assms by (simp add: parse_ip_def parse_ipv6_def has_prefix_def v4_prefix_def)
qed

text \<open>
  An IPv4 client gets the same canonical address whether the listener reports it in dotted
  form or as an IPv4-mapped IPv6 address, so a session created on either is found on the other.
\<close>

lemma normalizeIP_mapped:
  "normalizeIP (''::ffff:'' @ print_ipv4 [a, b, c, d]) = print_ipv4 [a, b, c, d] \<and>
   normalizeIP (print_ipv4 [a, b, c, d]) = print_ipv4 [a, b, c, d]"
proof -
  have str: "ip_string (v4_prefix @ [a, b, c, d]) = print_ipv4 [a, b, c, d]"
    by (simp add: ip_string_def to4_def v4_prefix_def)
  have plain: "x \<in> set (print_ipv4 [a, b, c, d]) \<Longrightarrow> \<not> is_space x" for x
    using ip_string_plain [of x "v4_prefix @ [a, b, c, d]"] unfolding str .
  have "\<not> is_space (CHR '':'')" "\<not> is_space (CHR ''f'')" by (simp_all add: is_space_def)
  with plain have "trim_space (''::ffff:'' @ print_ipv4 [a, b, c, d]) = ''::ffff:'' @ print_ipv4 [a, b, c, d]"
    by (intro trim_space_id) auto
  moreover have "trim_space (print_ipv4 [a, b, c, d]) = print_ipv4 [a, b, c, d]"
    using plain by (intro trim_space_id)
  ultimately show ?thesis
    by (simp only: normalizeIP_def parse_ip_mapped parse_ip_ipv4 length_Cons list.size option.case str)
qed

section \<open>What a successful lookup guarantees\<close>

definition live_session :: "time \<Rightarrow> db \<Rightarrow> session_row \<Rightarrow> bool" where
  \<comment> \<open>unexpired, and its user exists\<close>
  "live_session now d s \<longleftrightarrow> s \<in> set (sessions d) \<and> now < ses_exp s \<and> ses_user s \<in> usr_id ` set (users d)"

definition in_some_group :: "db \<Rightarrow> int \<Rightarrow> int list \<Rightarrow> bool" where
  "in_some_group d uid gs \<longleftrightarrow> (\<exists>g \<in> set gs. (uid, g) \<in> set (user_groups d))"

definition authorised_ip :: "time \<Rightarrow> db \<Rightarrow> string \<Rightarrow> int list \<Rightarrow> session_row \<Rightarrow> bool" where
  "authorised_ip now d ip gs s \<longleftrightarrow> live_session now d s \<and> cast_text (ses_ip s) = normalizeIP ip \<and>
     (gs \<noteq> [] \<longrightarrow> in_some_group d (ses_user s) gs)"

lemma session_of_sel [simp]:
  "sn_id (session_of (s, u)) = ses_id s" "sn_user (session_of (s, u)) = ses_user s"
  "sn_exp (session_of (s, u)) = ses_exp s" "sn_name (session_of (s, u)) = usr_name u"
  by (simp_all add: session_of_def)

lemma with_groups_sel [simp]:
  "sn_id (with_groups d (s, u)) = ses_id s" "sn_user (with_groups d (s, u)) = ses_user s"
  "sn_exp (with_groups d (s, u)) = ses_exp s" "sn_name (with_groups d (s, u)) = usr_name u"
  "sn_groups (with_groups d (s, u)) = parseGroupIDs (group_concat (groups_of_user d (ses_user s)))"
  by (simp_all add: with_groups_def session.defs session_groups.defs session_of_def)

lemma set_ip_candidates:
  "(s, u) \<in> set (ip_candidates now d ip gs) \<longleftrightarrow>
     (s, u) \<in> set (session_users d) \<and> cast_text (ses_ip s) = ip \<and> now < ses_exp s \<and>
     (gs \<noteq> [] \<longrightarrow> in_some_group d (ses_user s) gs)"
  by (fastforce simp: ip_candidates_def in_some_group_def)

lemma candidate_authorised:
  "(s, u) \<in> set (ip_candidates now d (normalizeIP ip) gs) \<Longrightarrow> authorised_ip now d ip gs s"
  by (auto simp: set_ip_candidates authorised_ip_def live_session_def set_session_users intro: rev_image_eqI)

lemma authorised_candidate:
  "authorised_ip now d ip gs s \<Longrightarrow> \<exists>u. (s, u) \<in> set (ip_candidates now d (normalizeIP ip) gs)"
  by (auto simp: set_ip_candidates authorised_ip_def live_session_def set_session_users image_iff)

lemma sort_key_hd_le:
  "sort_key f xs = x # ys \<Longrightarrow> y \<in> set xs \<Longrightarrow> f x \<le> (f y :: 'b :: linorder)"
proof -
  assume a: "sort_key f xs = x # ys" and y: "y \<in> set xs"
  from y a have "y \<in> set (x # ys)" by (metis set_sort)
  moreover have "sorted (map f (x # ys))" using a sorted_sort_key [of f xs] by simp
  ultimately show ?thesis by auto
qed

lemma candidates_latest:
  "ip_candidates now d ip gs = (s, u) # rest \<Longrightarrow> (s', u') \<in> set (ip_candidates now d ip gs) \<Longrightarrow>
   ses_exp s' \<le> ses_exp s"
  unfolding ip_candidates_def by (drule sort_key_hd_le [where y = "(s', u')"]) auto

lemma ip_lookup_sound:
  assumes "ValidateSessionByIPInGroups L now d ip gs = Inr sg"
    and "distinct (map ses_id (sessions d))"
  shows "\<exists>s. authorised_ip now d ip gs s \<and> sn_id sg = ses_id s \<and> sn_user sg = ses_user s \<and>
    sn_exp sg = ses_exp s \<and> (\<forall>s'. authorised_ip now d ip gs s' \<longrightarrow> ses_exp s' \<le> ses_exp s)"
proof -
  obtain s2 u2 rest r where c: "ip_candidates now d (normalizeIP ip) gs = (s2, u2) # rest"
    and r: "List.find (\<lambda>(s, u). ses_id s = ses_id s2) (session_users d) = Some r" "sg = with_groups d r"
    using assms(1) by (auto simp: ValidateSessionByIPInGroups_def Let_def split: if_splits list.splits option.splits)
  obtain s u where su: "r = (s, u)" by (cases r)
  have "s \<in> set (sessions d)" "ses_id s = ses_id s2"
    using find_in_set [OF r(1)] by (auto simp: su set_session_users)
  moreover have s2: "(s2, u2) \<in> set (ip_candidates now d (normalizeIP ip) gs)" by (simp add: c)
  then have "s2 \<in> set (sessions d)" by (simp add: set_ip_candidates set_session_users)
  ultimately have "s = s2" using assms(2) by (auto dest: distinct_key_eq)
  moreover have "\<forall>s'. authorised_ip now d ip gs s' \<longrightarrow> ses_exp s' \<le> ses_exp s2"
    using authorised_candidate candidates_latest [OF c] by blast
  ultimately show ?thesis
    using candidate_authorised [OF s2] r(2) su by (intro exI [of _ s2]) simp
qed

lemma ip_lookup_complete:
  assumes "authorised_ip now d ip gs s" and "\<not> db_fault L ''ValidateSessionByIPInGroups''"
  shows "\<exists>sg. ValidateSessionByIPInGroups L now d ip gs = Inr sg"
proof -
  obtain u where u: "(s, u) \<in> set (ip_candidates now d (normalizeIP ip) gs)"
    using authorised_candidate [OF assms(1)] by blast
  then obtain s2 u2 rest where c: "ip_candidates now d (normalizeIP ip) gs = (s2, u2) # rest"
    by (cases "ip_candidates now d (normalizeIP ip) gs") auto
  then have "(s2, u2) \<in> set (session_users d)"
    using set_ip_candidates [of s2 u2 now d "normalizeIP ip" gs] by simp
  then have "List.find (\<lambda>(s, u). ses_id s = ses_id s2) (session_users d) \<noteq> None"
    unfolding find_none by blast
  with c assms(2) show ?thesis
    by (auto simp: ValidateSessionByIPInGroups_def Let_def)
qed

text \<open>
  C21: IP session authentication is exact. When it answers, the session is unexpired, belongs to an
  existing user and to the normalised client address, its user is in one of the allowed
  groups when there are any, and no other such session expires later; when it refuses, there
  is no such session. The table need not respect its foreign key: an orphaned session on the address, whose
  user is gone, never hides a valid one, also when it expires last.
\<close>

theorem ValidateSessionByIPInGroups_exact:
  assumes "distinct (map ses_id (sessions d))" and "\<not> db_fault L ''ValidateSessionByIPInGroups''"
  shows "case ValidateSessionByIPInGroups L now d ip gs of
      Inr sg \<Rightarrow> (\<exists>s. authorised_ip now d ip gs s \<and> sn_id sg = ses_id s \<and> sn_user sg = ses_user s \<and>
        sn_exp sg = ses_exp s \<and> (\<forall>s'. authorised_ip now d ip gs s' \<longrightarrow> ses_exp s' \<le> ses_exp s))
    | Inl e \<Rightarrow> \<not> (\<exists>s. authorised_ip now d ip gs s)"
proof (cases "ValidateSessionByIPInGroups L now d ip gs")
  case (Inl e)
  with ip_lookup_complete [OF _ assms(2), of now d ip gs] show ?thesis by auto
next
  case (Inr sg)
  with ip_lookup_sound [OF Inr assms(1)] show ?thesis by simp
qed

text \<open>A database with two users, one group and a session of each user, for the witnesses.\<close>

definition sample_db :: db where
  "sample_db = empty_db\<lparr>
     users := [\<lparr>usr_id = 1, usr_name = ''ann'', usr_hash = ''pw'', usr_created = 0\<rparr>,
               \<lparr>usr_id = 2, usr_name = ''bob'', usr_hash = ''pw2'', usr_created = 0\<rparr>], users_seq := 2,
     groups := [\<lparr>grp_id = 7, grp_name = ''ops'', grp_desc = [], grp_created = 0\<rparr>], groups_seq := 7,
     user_groups := [(1, 7)],
     sessions := [\<lparr>ses_id = 3, ses_hash = ''h3'', ses_user = 1, ses_ip = BlobCell ''lan'', ses_exp = 100, ses_created = 0\<rparr>,
                  \<lparr>ses_id = 4, ses_hash = ''h4'', ses_user = 2, ses_ip = TextCell ''lan'', ses_exp = 200, ses_created = 0\<rparr>],
     sessions_seq := 4\<rparr>"

lemma sample_db_ok: "db_ok sample_db"
  by (simp add: sample_db_def empty_db_def db_ok_def table_ok_defs auto_key_def)

text \<open>With an orphan on the same address that expires after every other session.\<close>

definition orphan_db :: db where
  "orphan_db = sample_db\<lparr>sessions :=
     \<lparr>ses_id = 5, ses_hash = ''h5'', ses_user = 9, ses_ip = TextCell ''lan'', ses_exp = 900, ses_created = 0\<rparr> # sessions sample_db\<rparr>"

lemma orphan_lookup: "\<exists>sg. ValidateSessionByIPInGroups plain_lib 50 orphan_db ''lan'' [] = Inr sg \<and> sn_id sg = 4"
proof -
  have "normalizeIP ''lan'' = ''lan''"
    by (simp add: normalizeIP_def parse_ip_def trim_space_def is_space_def)
  then show ?thesis
    by (simp add: ValidateSessionByIPInGroups_def ip_candidates_def session_users_def orphan_db_def sample_db_def empty_db_def Let_def)
qed

theorem ValidateSessionByIPInGroups_exact_witness:
  "\<exists>s. authorised_ip 50 orphan_db ''lan'' [] s \<and> ses_id s = 4 \<and> ses_user s = 2"
proof -
  have "distinct (map ses_id (sessions orphan_db))" "\<not> db_fault plain_lib ''ValidateSessionByIPInGroups''"
    by (simp_all add: orphan_db_def sample_db_def empty_db_def plain_lib_def)
  from ValidateSessionByIPInGroups_exact [OF this, of 50 "''lan''" "[]"] orphan_lookup obtain s where
    s: "authorised_ip 50 orphan_db ''lan'' [] s" "ses_id s = 4" by auto
  then have "ses_user s = 2" by (auto simp: authorised_ip_def live_session_def orphan_db_def sample_db_def empty_db_def)
  with s show ?thesis by blast
qed

text \<open>A cookie token resolves to an unexpired session with that token's hash.\<close>

lemma ValidateSessionAndGroups_sound:
  assumes "ValidateSessionAndGroups L now d tok = Inr sg"
  shows "\<exists>s. live_session now d s \<and> ses_hash s = sha256hex L tok \<and> sn_id sg = ses_id s \<and>
    sn_user sg = ses_user s \<and> sn_groups sg = parseGroupIDs (group_concat (groups_of_user d (ses_user s)))"
  using assms
  by (force simp: ValidateSessionAndGroups_def Let_def live_session_def set_session_users image_iff
      dest: find_in_set split: if_splits option.splits)

lemma ValidateSession_sound:
  assumes "ValidateSession L now d tok = Inr sn"
  shows "\<exists>s. live_session now d s \<and> ses_hash s = sha256hex L tok \<and> sn_id sn = ses_id s \<and>
    sn_user sn = ses_user s"
  using assms
  by (force simp: ValidateSession_def Let_def live_session_def set_session_users image_iff
      dest: find_in_set split: if_splits option.splits)

lemma ValidateSession_dead:
  assumes "\<And>s. s \<in> set (sessions d) \<Longrightarrow> ses_hash s = sha256hex L tok \<Longrightarrow> ses_exp s \<le> now"
  shows "\<exists>e. ValidateSession L now d tok = Inl e"
  using ValidateSession_sound [of L now d tok] assms
  by (cases "ValidateSession L now d tok") (force simp: live_session_def)+

lemma ValidateSession_live:
  assumes "\<not> db_fault L ''ValidateSession''" "live_session now d s" "ses_hash s = sha256hex L tok"
    and "distinct (map ses_hash (sessions d))"
  shows "\<exists>sn. ValidateSession L now d tok = Inr sn \<and> sn_id sn = ses_id s \<and> sn_user sn = ses_user s"
proof -
  obtain u where "(s, u) \<in> set (session_users d)"
    using assms(2) by (auto simp: live_session_def set_session_users image_iff)
  then have "List.find (\<lambda>(s, u). ses_hash s = sha256hex L tok \<and> now < ses_exp s) (session_users d) \<noteq> None"
    using assms(2,3) unfolding find_none live_session_def by blast
  then obtain sn where sn: "ValidateSession L now d tok = Inr sn"
    using assms(1) by (auto simp: ValidateSession_def Let_def)
  from ValidateSession_sound [OF sn] obtain s' where s': "live_session now d s'"
    "ses_hash s' = sha256hex L tok" "sn_id sn = ses_id s'" "sn_user sn = ses_user s'" by blast
  then have "s' = s" using assms(2-4) by (auto simp: live_session_def dest: distinct_key_eq)
  with sn s' show ?thesis by blast
qed

text \<open>
  The token \<open>CreateSession\<close> returns authenticates its user until the session's expiry and never after
  it, and \<open>DeleteSession\<close> with the token ends the session at once.
\<close>

lemma session_life:
  assumes "CreateSession L now rnd d uid dur ip = (d', Inr tok)" and "db_ok d"
    and "\<not> db_fault L ''ValidateSession''" and "\<not> db_fault L ''DeleteSession''"
  shows "((\<exists>sn. ValidateSession L t d' tok = Inr sn \<and> sn_user sn = uid) \<longleftrightarrow> t < time_add now dur) \<and>
    (\<exists>e. ValidateSession L t (fst (DeleteSession L d' tok)) tok = Inl e)"
proof -
  define s where "s = \<lparr>ses_id = sessions_seq d + 1, ses_hash = sha256hex L tok, ses_user = uid,
    ses_ip = TextCell (normalizeIP ip), ses_exp = time_add now dur, ses_created = sql_now now\<rparr>"
  have d': "d' = d\<lparr>sessions := sessions d @ [s], sessions_seq := sessions_seq d + 1\<rparr>"
    and fresh: "sha256hex L tok \<notin> ses_hash ` set (sessions d)"
    and user: "uid \<in> usr_id ` set (users d)"
    using assms(1) by (auto simp: CreateSession_def Let_def s_def split: if_splits)
  have hashes: "distinct (map ses_hash (sessions d'))"
    using CreateSession_ok [OF assms(2), of L now rnd uid dur ip] assms(1)
    by (simp add: db_ok_def sessions_ok_def)
  have only: "x \<in> set (sessions d') \<Longrightarrow> ses_hash x = sha256hex L tok \<Longrightarrow> x = s" for x
    using fresh by (auto simp: d' intro: rev_image_eqI)
  have live: "\<exists>sn. ValidateSession L t d' tok = Inr sn \<and> sn_user sn = uid" if "t < time_add now dur"
  proof -
    have "live_session t d' s" using that user by (simp add: live_session_def d' s_def)
    with ValidateSession_live [OF assms(3) this _ hashes] show ?thesis by (auto simp: s_def)
  qed
  have dead: "\<exists>e. ValidateSession L t d' tok = Inl e" if "\<not> t < time_add now dur"
  proof (rule ValidateSession_dead)
    fix x assume "x \<in> set (sessions d')" "ses_hash x = sha256hex L tok"
    then have "x = s" by (rule only)
    with that show "ses_exp x \<le> t" by (simp add: s_def)
  qed
  have "\<exists>e. ValidateSession L t (fst (DeleteSession L d' tok)) tok = Inl e"
    using assms(4) by (intro ValidateSession_dead) (simp add: DeleteSession_def Let_def sql_simps)
  with live dead show ?thesis by fastforce
qed

end
