(* ===== verification/Invites.thy ===== *)
theory Invites
  imports Accounts
begin

text \<open>
  storage/invites.go. \<open>UseInvite\<close> runs its SELECT and its UPDATE as two statements outside a
  transaction, so the two are separate operations here and \<open>UseInvite\<close> is their sequence.
\<close>

record invite =
  iv_id :: int
  iv_desc :: string
  iv_used :: bool
  iv_exp :: time
  iv_created :: time

definition invite_of_row :: "invite_row \<Rightarrow> invite" where
  "invite_of_row r = \<lparr>iv_id = inv_id r, iv_desc = inv_desc r, iv_used = inv_used r,
     iv_exp = inv_exp r, iv_created = inv_created r\<rparr>"

definition CreateInvite ::
  "lib \<Rightarrow> time \<Rightarrow> 8 word list \<Rightarrow> db \<Rightarrow> string \<Rightarrow> duration \<Rightarrow> db \<times> (err + string \<times> invite)" where
  "CreateInvite L now rnd d description dur =
     (let code = randHex rnd; hash = sha256hex L code; exp = time_add now dur;
          r = \<lparr>inv_id = invites_seq d + 1, inv_hash = hash, inv_desc = description, inv_used = False,
               inv_exp = exp, inv_created = sql_now now\<rparr>
      in if db_fault L ''CreateInvite'' then (d, Inl (DbErr ''CreateInvite''))
         else if hash \<in> inv_hash ` set (invites d) then (d, Inl (Constraint ''CreateInvite''))
         else (d\<lparr>invites := invites d @ [r], invites_seq := invites_seq d + 1\<rparr>,
               Inr (code, invite_of_row r)))"

text \<open>The SELECT, which does not read the description, and the UPDATE of \<open>UseInvite\<close>.\<close>

definition UseInvite_select :: "lib \<Rightarrow> time \<Rightarrow> db \<Rightarrow> string \<Rightarrow> err + invite" where
  "UseInvite_select L now d code =
     (let hash = sha256hex L code
      in if db_fault L ''UseInvite.select'' then Inl (Msg ''invalid or expired invite'')
         else case List.find (\<lambda>r. inv_hash r = hash \<and> \<not> inv_used r \<and> now < inv_exp r) (invites d) of
             None \<Rightarrow> Inl (Msg ''invalid or expired invite'')
           | Some r \<Rightarrow> Inr ((invite_of_row r)\<lparr>iv_desc := []\<rparr>))"

definition UseInvite_update :: "lib \<Rightarrow> db \<Rightarrow> invite \<Rightarrow> db \<times> (err + invite)" where
  "UseInvite_update L d iv =
     (if db_fault L ''UseInvite.update'' then (d, Inl (DbErr ''UseInvite.update''))
      else (d\<lparr>invites := update_where (\<lambda>r. inv_id r = iv_id iv) (\<lambda>r. r\<lparr>inv_used := True\<rparr>) (invites d)\<rparr>,
            Inr (iv\<lparr>iv_used := True\<rparr>)))"

definition UseInvite :: "lib \<Rightarrow> time \<Rightarrow> db \<Rightarrow> string \<Rightarrow> db \<times> (err + invite)" where
  "UseInvite L now d code =
     (case UseInvite_select L now d code of
        Inl e \<Rightarrow> (d, Inl e)
      | Inr iv \<Rightarrow> UseInvite_update L d iv)"

definition GetAllInvites :: "lib \<Rightarrow> db \<Rightarrow> err + invite list" where
  "GetAllInvites L d =
     (if db_fault L ''GetAllInvites'' then Inl (DbErr ''GetAllInvites'')
      else Inr (map invite_of_row (sort_key (\<lambda>r. - inv_created r) (invites d))))"

definition DeleteInvite :: "lib \<Rightarrow> db \<Rightarrow> int \<Rightarrow> db \<times> (err + unit)" where
  "DeleteInvite L d i =
     (if db_fault L ''DeleteInvite'' then (d, Inl (DbErr ''DeleteInvite''))
      else if count_where (\<lambda>r. inv_id r = i) (invites d) = 0 then (d, Inl (Msg ''invite not found''))
      else (d\<lparr>invites := delete_where (\<lambda>r. inv_id r = i) (invites d)\<rparr>, Inr ()))"

definition CleanupExpiredInvites :: "lib \<Rightarrow> time \<Rightarrow> db \<Rightarrow> db" where
  "CleanupExpiredInvites L now d =
     (if db_fault L ''CleanupExpiredInvites'' then d
      else d\<lparr>invites := delete_where (\<lambda>r. inv_exp r < now \<and> \<not> inv_used r) (invites d)\<rparr>)"

section \<open>The constraints hold after every operation\<close>

lemma CreateInvite_ok [wf_intros]: "db_ok d \<Longrightarrow> db_ok (fst (CreateInvite L now rnd d desc dur))"
  by (auto simp: CreateInvite_def db_ok_def table_ok_defs Let_def intro!: auto_key_append)

lemma UseInvite_update_ok [wf_intros]: "db_ok d \<Longrightarrow> db_ok (fst (UseInvite_update L d iv))"
  by (auto simp: UseInvite_update_def db_ok_def table_ok_defs sql_simps intro!: auto_key_update)

lemma UseInvite_ok [wf_intros]: "db_ok d \<Longrightarrow> db_ok (fst (UseInvite L now d code))"
  by (auto simp: UseInvite_def UseInvite_update_ok split: sum.splits)

lemma DeleteInvite_ok [wf_intros]: "db_ok d \<Longrightarrow> db_ok (fst (DeleteInvite L d i))"
  by (auto simp: DeleteInvite_def db_ok_def table_ok_defs intro!: auto_key_delete distinct_delete_where)

lemma CleanupExpiredInvites_ok [wf_intros]: "db_ok d \<Longrightarrow> db_ok (CleanupExpiredInvites L now d)"
  by (auto simp: CleanupExpiredInvites_def db_ok_def table_ok_defs intro!: auto_key_delete distinct_delete_where)

section \<open>Invites are one-time\<close>

definition usable :: "lib \<Rightarrow> time \<Rightarrow> db \<Rightarrow> string \<Rightarrow> bool" where
  \<comment> \<open>the abstract contract: there is an unused, unexpired invite with this code\<close>
  "usable L now d code \<longleftrightarrow>
     (\<exists>r \<in> set (invites d). inv_hash r = sha256hex L code \<and> \<not> inv_used r \<and> now < inv_exp r)"

lemma UseInvite_select_sound:
  "UseInvite_select L now d code = Inr iv \<Longrightarrow>
   \<exists>r \<in> set (invites d). inv_hash r = sha256hex L code \<and> \<not> inv_used r \<and> now < inv_exp r \<and> iv_id iv = inv_id r"
  by (auto simp: UseInvite_select_def Let_def invite_of_row_def split: if_splits option.splits
      dest!: find_in_set)

lemma UseInvite_select_usable:
  "(\<exists>iv. UseInvite_select L now d code = Inr iv) \<longleftrightarrow>
   \<not> db_fault L ''UseInvite.select'' \<and> usable L now d code"
proof -
  have "List.find (\<lambda>r. inv_hash r = sha256hex L code \<and> \<not> inv_used r \<and> now < inv_exp r) (invites d) = None
    \<longleftrightarrow> \<not> usable L now d code" by (auto simp: find_none usable_def)
  then show ?thesis by (auto simp: UseInvite_select_def Let_def split: option.splits)
qed

lemma UseInvite_update_spends:
  assumes "UseInvite_update L d iv = (d', Inr iv')" "db_ok d"
    and "r \<in> set (invites d)" "inv_hash r = sha256hex L code" "iv_id iv = inv_id r"
  shows "\<not> usable L t d' code"
proof
  assume "usable L t d' code"
  then obtain r' where r': "r' \<in> set (invites d)" "inv_hash r' = sha256hex L code" "inv_id r' \<noteq> iv_id iv"
    using assms(1) by (auto simp: usable_def UseInvite_update_def sql_simps split: if_splits)
  then have "r' = r" using assms(2-4) by (auto simp: db_ok_def invites_ok_def dest: distinct_key_eq)
  with r'(3) assms(5) show False by simp
qed

text \<open>
  An invite code works once: \<open>UseInvite\<close> succeeds exactly when an unused, unexpired invite with that code
  exists, and after a success no invite with the code is usable at any later time.
\<close>

lemma UseInvite_exact:
  assumes "db_ok d" and "\<not> db_fault L ''UseInvite.select''" and "\<not> db_fault L ''UseInvite.update''"
  shows "((\<exists>iv. snd (UseInvite L now d code) = Inr iv) \<longleftrightarrow> usable L now d code) \<and>
    (usable L now d code \<longrightarrow> \<not> usable L t (fst (UseInvite L now d code)) code)"
proof (cases "UseInvite_select L now d code")
  case (Inl e)
  with UseInvite_select_usable [of L now d code] assms(2) show ?thesis by (simp add: UseInvite_def)
next
  case (Inr iv)
  with assms(2) have u: "usable L now d code" using UseInvite_select_usable by blast
  obtain r where r: "r \<in> set (invites d)" "inv_hash r = sha256hex L code" "iv_id iv = inv_id r"
    using UseInvite_select_sound [OF Inr] by blast
  obtain d' iv' where up: "UseInvite_update L d iv = (d', Inr iv')"
    using assms(3) by (simp add: UseInvite_update_def)
  with UseInvite_update_spends [OF up assms(1) r] u Inr show ?thesis by (simp add: UseInvite_def)
qed

definition invite_db :: db where
  "invite_db = empty_db\<lparr>invites := [\<lparr>inv_id = 1, inv_hash = ''6162'', inv_desc = [], inv_used = False,
     inv_exp = 10, inv_created = 0\<rparr>], invites_seq := 1\<rparr>"

lemma invite_db_ok: "db_ok invite_db"
  by (simp add: invite_db_def empty_db_def db_ok_def table_ok_defs auto_key_def)

lemma code_hash: "sha256hex plain_lib ''ab'' = ''6162''"
  by (simp add: sha256hex_def hex_encode_def hex_char_def char_of_eq_iff)

text \<open>
  C27: the check and the mark are two statements, so two registrations that interleave both
  spend the same usable invite: when the second SELECT runs before the first UPDATE, both UPDATEs
  report success.
\<close>

theorem UseInvite_race:
  assumes "usable L now d code" and "\<not> db_fault L ''UseInvite.select''" and "\<not> db_fault L ''UseInvite.update''"
  shows "\<exists>i1 i2 d1 d2 r1 r2.
    UseInvite_select L now d code = Inr i1 \<and> UseInvite_select L now d code = Inr i2 \<and>
    UseInvite_update L d i1 = (d1, Inr r1) \<and> UseInvite_update L d1 i2 = (d2, Inr r2)"
proof -
  obtain i where i: "UseInvite_select L now d code = Inr i"
    using assms(1,2) UseInvite_select_usable by blast
  with assms(3) show ?thesis by (simp add: UseInvite_update_def)
qed

theorem UseInvite_race_witness:
  "\<exists>i1 i2 d1 d2 r1 r2.
    UseInvite_select plain_lib 5 invite_db ''ab'' = Inr i1 \<and> UseInvite_select plain_lib 5 invite_db ''ab'' = Inr i2 \<and>
    UseInvite_update plain_lib invite_db i1 = (d1, Inr r1) \<and> UseInvite_update plain_lib d1 i2 = (d2, Inr r2)"
  by (rule UseInvite_race) (simp_all add: usable_def invite_db_def code_hash)

end
