(* ===== verification/ThrottleStore.thy ===== *)
theory ThrottleStore
  imports Schema
begin

text \<open>
  storage/throttle.go: the throttle policies and the persisted IP bans. Both tables are keyed
  stores: the upserts and deletes of the two tables interpret \<open>keyed_store\<close>.
\<close>

definition TierAnonymous :: string where "TierAnonymous = ''anonymous''"
definition TierSignedIn :: string where "TierSignedIn = ''signed-in''"

definition GetThrottlePolicies :: "lib \<Rightarrow> db \<Rightarrow> err + throttle_policy list" where
  "GetThrottlePolicies L d =
     (if db_fault L ''GetThrottlePolicies'' then Inl (DbErr ''GetThrottlePolicies'')
      else Inr (sort_key tp_tier (policy_rows d)))"

definition merge_policy :: "throttle_policy \<Rightarrow> throttle_policy \<Rightarrow> throttle_policy" where
  "merge_policy old x = old\<lparr>tp_enabled := tp_enabled x, tp_rate := tp_rate x, tp_burst := tp_burst x,
     tp_ban_enabled := tp_ban_enabled x, tp_ban_threshold := tp_ban_threshold x,
     tp_ban_window := tp_ban_window x, tp_ban_duration := tp_ban_duration x\<rparr>"

definition put_policy :: "throttle_policy \<Rightarrow> db \<Rightarrow> db" where
  "put_policy p d = d\<lparr>policy_rows := upsert tp_tier merge_policy p (policy_rows d)\<rparr>"

definition del_policy :: "string \<Rightarrow> db \<Rightarrow> db" where
  "del_policy tier d = d\<lparr>policy_rows := delete_where (\<lambda>p. tp_tier p = tier) (policy_rows d)\<rparr>"

definition UpsertThrottlePolicy :: "lib \<Rightarrow> db \<Rightarrow> throttle_policy \<Rightarrow> db \<times> (err + unit)" where
  "UpsertThrottlePolicy L d p =
     (if db_fault L ''UpsertThrottlePolicy'' then (d, Inl (DbErr ''UpsertThrottlePolicy''))
      else (put_policy p d, Inr ()))"

definition DeleteThrottlePolicy :: "lib \<Rightarrow> db \<Rightarrow> string \<Rightarrow> db \<times> (err + unit)" where
  "DeleteThrottlePolicy L d tier =
     (if tier = TierAnonymous \<or> tier = TierSignedIn then (d, Inl (Msg ''cannot delete built-in tier''))
      else if db_fault L ''DeleteThrottlePolicy'' then (d, Inl (DbErr ''DeleteThrottlePolicy''))
      else (del_policy tier d, Inr ()))"

text \<open>\<^verbatim>\<open>expires_at IS NULL OR expires_at > datetime('now')\<close>\<close>

definition ban_in_force :: "lib \<Rightarrow> time \<Rightarrow> banned_ip \<Rightarrow> bool" where
  "ban_in_force L now b \<longleftrightarrow> (case ban_expires b of None \<Rightarrow> True | Some e \<Rightarrow> after_now L e now)"

definition GetActiveBans :: "lib \<Rightarrow> time \<Rightarrow> db \<Rightarrow> err + banned_ip list" where
  "GetActiveBans L now d =
     (if db_fault L ''GetActiveBans'' then Inl (DbErr ''GetActiveBans'')
      else Inr (sort_key (\<lambda>b. - ban_created b) (filter (ban_in_force L now) (ban_rows d))))"

definition merge_ban :: "banned_ip \<Rightarrow> banned_ip \<Rightarrow> banned_ip" where
  "merge_ban old x = old\<lparr>ban_reason := ban_reason x, ban_tier := ban_tier x,
     ban_created := ban_created x, ban_expires := ban_expires x\<rparr>"

definition put_ban :: "banned_ip \<Rightarrow> db \<Rightarrow> db" where
  "put_ban b d = d\<lparr>ban_rows := upsert ban_ip merge_ban b (ban_rows d)\<rparr>"

definition del_ban :: "string \<Rightarrow> db \<Rightarrow> db" where
  "del_ban ip d = d\<lparr>ban_rows := delete_where (\<lambda>b. ban_ip b = ip) (ban_rows d)\<rparr>"

definition InsertBan ::
  "lib \<Rightarrow> time \<Rightarrow> db \<Rightarrow> string \<Rightarrow> string \<Rightarrow> string \<Rightarrow> time option \<Rightarrow> db \<times> (err + unit)" where
  "InsertBan L now d ip reason tier expiresAt =
     (if db_fault L ''InsertBan'' then (d, Inl (DbErr ''InsertBan''))
      else (put_ban \<lparr>ban_ip = ip, ban_reason = reason, ban_tier = tier, ban_created = sql_now now,
              ban_expires = expiresAt\<rparr> d, Inr ()))"

definition DeleteBan :: "lib \<Rightarrow> db \<Rightarrow> string \<Rightarrow> db \<times> (err + unit)" where
  "DeleteBan L d ip =
     (if db_fault L ''DeleteBan'' then (d, Inl (DbErr ''DeleteBan'')) else (del_ban ip d, Inr ()))"

definition CleanupExpiredBans :: "lib \<Rightarrow> time \<Rightarrow> db \<Rightarrow> db" where
  "CleanupExpiredBans L now d =
     (if db_fault L ''CleanupExpiredBans'' then d
      else d\<lparr>ban_rows := delete_where (\<lambda>b. \<not> ban_in_force L now b) (ban_rows d)\<rparr>)"

section \<open>Both tables are keyed stores\<close>

definition policy_lookup :: "db \<Rightarrow> string \<Rightarrow> throttle_policy option" where
  "policy_lookup d tier = List.find (\<lambda>p. tp_tier p = tier) (policy_rows d)"

definition ban_lookup :: "db \<Rightarrow> string \<Rightarrow> banned_ip option" where
  "ban_lookup d ip = List.find (\<lambda>b. ban_ip b = ip) (ban_rows d)"

lemma merge_policy_same: "tp_tier p = tp_tier x \<Longrightarrow> merge_policy p x = x"
  by (simp add: merge_policy_def)

lemma merge_ban_same: "ban_ip b = ban_ip x \<Longrightarrow> merge_ban b x = x"
  by (simp add: merge_ban_def)

lemma upsert_replaces:
  assumes "\<And>r. key r = key new \<Longrightarrow> merge r new = new"
  shows "List.find (\<lambda>r. key r = k) (upsert key merge new rows) =
    (if k = key new then Some new else List.find (\<lambda>r. key r = k) rows)"
  using assms by (subst find_upsert) (auto split: option.splits dest!: find_in_set)

interpretation policy_store: keyed_store policy_lookup put_policy del_policy tp_tier "\<lambda>p. p"
  by unfold_locales
    (simp_all add: policy_lookup_def put_policy_def del_policy_def upsert_replaces merge_policy_same find_delete_where)

interpretation ban_store: keyed_store ban_lookup put_ban del_ban ban_ip "\<lambda>b. b"
  by unfold_locales
    (simp_all add: ban_lookup_def put_ban_def del_ban_def upsert_replaces merge_ban_same find_delete_where)

section \<open>The constraints hold after every operation\<close>

lemma put_policy_ok: "db_ok d \<Longrightarrow> db_ok (put_policy p d)"
  by (simp add: put_policy_def db_ok_def table_ok_defs distinct_upsert merge_policy_def)

lemma put_ban_ok: "db_ok d \<Longrightarrow> db_ok (put_ban b d)"
  by (simp add: put_ban_def db_ok_def table_ok_defs distinct_upsert merge_ban_def)

lemma UpsertThrottlePolicy_ok [wf_intros]: "db_ok d \<Longrightarrow> db_ok (fst (UpsertThrottlePolicy L d p))"
  and InsertBan_ok [wf_intros]: "db_ok d \<Longrightarrow> db_ok (fst (InsertBan L now d ip r t e))"
  by (simp_all add: UpsertThrottlePolicy_def InsertBan_def put_policy_ok put_ban_ok)

lemma DeleteThrottlePolicy_ok [wf_intros]: "db_ok d \<Longrightarrow> db_ok (fst (DeleteThrottlePolicy L d t))"
  and DeleteBan_ok [wf_intros]: "db_ok d \<Longrightarrow> db_ok (fst (DeleteBan L d ip))"
  and CleanupExpiredBans_ok [wf_intros]: "db_ok d \<Longrightarrow> db_ok (CleanupExpiredBans L now d)"
  by (simp_all add: DeleteThrottlePolicy_def DeleteBan_def CleanupExpiredBans_def del_policy_def
      del_ban_def db_ok_def table_ok_defs distinct_delete_where)

section \<open>Built-in tiers\<close>

text \<open>No operation of the file removes a built-in tier.\<close>

lemma DeleteThrottlePolicy_keeps_builtin:
  "tier = TierAnonymous \<or> tier = TierSignedIn \<Longrightarrow>
   policy_lookup (fst (DeleteThrottlePolicy L d t)) tier = policy_lookup d tier"
  by (auto simp: DeleteThrottlePolicy_def policy_store.lookup_del)

lemma active_ban_lookup:
  assumes "GetActiveBans L now d = Inr bs" and "db_ok d"
  shows "b \<in> set bs \<longleftrightarrow> ban_lookup d (ban_ip b) = Some b \<and> ban_in_force L now b"
  using assms find_unique [of ban_ip "ban_rows d" b]
  by (auto simp: GetActiveBans_def ban_lookup_def db_ok_def throttle_ok_def
      dest: find_in_set split: if_splits)

end
