(* ===== verification/RouteStore.thy ===== *)
theory RouteStore
  imports Schema
begin

text \<open>
  storage/routes.go: the rows of \<^verbatim>\<open>proxy_routes\<close>. The table's trigger stamps \<open>rt_updated\<close> on every
  row an UPDATE matches (\<open>touch\<close>). \<open>SyncRoutes\<close> runs in one transaction, so any failure rolls all
  of it back.
\<close>

record ConfigRoute =
  cr_url :: string
  cr_target :: string
  cr_type :: string
  cr_tls :: bool
  cr_cert :: string
  cr_key :: string

definition touch :: "time \<Rightarrow> route \<Rightarrow> route" where
  "touch now r = r\<lparr>rt_updated := sql_now now\<rparr>"

definition new_route ::
  "int \<Rightarrow> time \<Rightarrow> string \<Rightarrow> string \<Rightarrow> string \<Rightarrow> bool \<Rightarrow> string \<Rightarrow> string \<Rightarrow> string \<Rightarrow> string \<Rightarrow> route" where
  \<comment> \<open>an inserted row: the columns the INSERT leaves out take their defaults\<close>
  "new_route i now url target typ tls cert key source rng =
     \<lparr>rt_id = i, rt_url = url, rt_target = target, rt_type = typ, rt_tls = tls, rt_cert = cert,
      rt_key = key, rt_enabled = True, rt_source = source, rt_groups = [], rt_ips = [],
      rt_ip_auth = False, rt_persistent = True, rt_require_login = False, rt_range = rng,
      rt_created = sql_now now, rt_updated = sql_now now\<rparr>"

definition merge_config :: "time \<Rightarrow> ConfigRoute \<Rightarrow> route \<Rightarrow> route" where
  "merge_config now c r = touch now (r\<lparr>rt_target := cr_target c, rt_type := cr_type c, rt_tls := cr_tls c,
     rt_cert := cr_cert c, rt_key := cr_key c, rt_source := ''config'', rt_enabled := True\<rparr>)"

definition sync_one :: "time \<Rightarrow> ConfigRoute \<Rightarrow> db \<Rightarrow> db" where
  "sync_one now c d =
     (if \<exists>r \<in> set (routes d). rt_url r = cr_url c
      then d\<lparr>routes := update_where (\<lambda>r. rt_url r = cr_url c) (merge_config now c) (routes d)\<rparr>
      else d\<lparr>routes := routes d @ [new_route (routes_seq d + 1) now (cr_url c) (cr_target c) (cr_type c)
                (cr_tls c) (cr_cert c) (cr_key c) ''config'' []],
             routes_seq := routes_seq d + 1\<rparr>)"

definition sync_delete :: "ConfigRoute list \<Rightarrow> db \<Rightarrow> db" where
  "sync_delete cs d =
     (if cs = [] then d\<lparr>routes := delete_where (\<lambda>r. rt_source r = ''config'') (routes d)\<rparr>
      else d\<lparr>routes := delete_where
               (\<lambda>r. rt_source r = ''config'' \<and> rt_url r \<notin> set (map cr_url cs)) (routes d)\<rparr>)"

definition SyncRoutes :: "lib \<Rightarrow> time \<Rightarrow> db \<Rightarrow> ConfigRoute list \<Rightarrow> db \<times> (err + unit)" where
  "SyncRoutes L now d cs =
     (if db_fault L ''SyncRoutes.begin'' then (d, Inl (DbErr ''SyncRoutes.begin''))
      else if cs \<noteq> [] \<and> db_fault L ''SyncRoutes.upsert'' then (d, Inl (DbErr ''SyncRoutes.upsert''))
      else let d1 = fold (sync_one now) cs d
        in if db_fault L ''SyncRoutes.delete'' then (d, Inl (DbErr ''SyncRoutes.delete''))
           else if db_fault L ''SyncRoutes.commit'' then (d, Inl (DbErr ''SyncRoutes.commit''))
           else (sync_delete cs d1, Inr ()))"

definition GetAllRoutes :: "lib \<Rightarrow> db \<Rightarrow> err + route list" where
  "GetAllRoutes L d =
     (if db_fault L ''GetAllRoutes'' then Inl (DbErr ''GetAllRoutes'')
      else Inr (sort_key rt_url (filter rt_enabled (routes d))))"

definition GetRouteByUrl :: "lib \<Rightarrow> db \<Rightarrow> string \<Rightarrow> err + route" where
  "GetRouteByUrl L d url =
     (if db_fault L ''GetRouteByUrl'' then Inl (DbErr ''GetRouteByUrl'')
      else case List.find (\<lambda>r. rt_url r = url \<and> rt_enabled r) (routes d) of
        None \<Rightarrow> Inl (NoRows ''GetRouteByUrl'') | Some r \<Rightarrow> Inr r)"

record access =
  ac_groups :: string
  ac_ips :: string
  ac_ip_auth :: bool
  ac_persistent :: bool
  ac_require_login :: bool

definition set_access :: "time \<Rightarrow> access \<Rightarrow> route \<Rightarrow> route" where
  "set_access now a r = touch now (r\<lparr>rt_groups := ac_groups a, rt_ips := ac_ips a, rt_ip_auth := ac_ip_auth a,
     rt_persistent := ac_persistent a, rt_require_login := ac_require_login a\<rparr>)"

definition UpdateRouteAccess :: "lib \<Rightarrow> time \<Rightarrow> db \<Rightarrow> int \<Rightarrow> access \<Rightarrow> db \<times> (err + unit)" where
  "UpdateRouteAccess L now d i a =
     (if db_fault L ''UpdateRouteAccess'' then (d, Inl (DbErr ''UpdateRouteAccess''))
      else if count_where (\<lambda>r. rt_id r = i) (routes d) = 0 then (d, Inl (Msg ''route not found''))
      else (d\<lparr>routes := update_where (\<lambda>r. rt_id r = i) (set_access now a) (routes d)\<rparr>, Inr ()))"

definition CreateRoute ::
  "lib \<Rightarrow> time \<Rightarrow> db \<Rightarrow> string \<Rightarrow> string \<Rightarrow> string \<Rightarrow> bool \<Rightarrow> string \<Rightarrow> string \<Rightarrow> string \<Rightarrow> db \<times> (err + route)" where
  "CreateRoute L now d url target routeType tls cert key rangeGroup =
     (if db_fault L ''CreateRoute'' then (d, Inl (DbErr ''CreateRoute''))
      else if \<exists>r \<in> set (routes d). rt_url r = url then (d, Inl (Constraint ''CreateRoute''))
      else let r = new_route (routes_seq d + 1) now url target routeType tls cert key ''ui'' rangeGroup
        in (d\<lparr>routes := routes d @ [r], routes_seq := routes_seq d + 1\<rparr>, Inr r))"

definition DeleteRoute :: "lib \<Rightarrow> db \<Rightarrow> int \<Rightarrow> db \<times> (err + string)" where
  "DeleteRoute L d i =
     (if db_fault L ''DeleteRoute'' then (d, Inl (DbErr ''DeleteRoute''))
      else case List.find (\<lambda>r. rt_id r = i \<and> rt_source r = ''ui'') (routes d) of
        None \<Rightarrow> (d, Inl (NoRows ''DeleteRoute''))
      | Some r \<Rightarrow> (d\<lparr>routes := delete_where (\<lambda>r. rt_id r = i \<and> rt_source r = ''ui'') (routes d)\<rparr>, Inr (rt_url r)))"

definition UpdateRouteAccessByGroup :: "lib \<Rightarrow> time \<Rightarrow> db \<Rightarrow> string \<Rightarrow> access \<Rightarrow> db \<times> (err + nat)" where
  "UpdateRouteAccessByGroup L now d rangeGroup a =
     (if rangeGroup = [] then (d, Inl (Msg ''empty range group''))
      else if db_fault L ''UpdateRouteAccessByGroup'' then (d, Inl (DbErr ''UpdateRouteAccessByGroup''))
      else let n = count_where (\<lambda>r. rt_range r = rangeGroup) (routes d)
        in if n = 0 then (d, Inl (Msg ''range group not found''))
           else (d\<lparr>routes := update_where (\<lambda>r. rt_range r = rangeGroup) (set_access now a) (routes d)\<rparr>, Inr n))"

definition DeleteRouteGroup :: "lib \<Rightarrow> db \<Rightarrow> string \<Rightarrow> db \<times> (err + string list)" where
  "DeleteRouteGroup L d rangeGroup =
     (if rangeGroup = [] then (d, Inl (Msg ''empty range group''))
      else if db_fault L ''DeleteRouteGroup'' then (d, Inl (DbErr ''DeleteRouteGroup''))
      else let P = (\<lambda>r. rt_range r = rangeGroup \<and> rt_source r = ''ui'');
               urls = map rt_url (filter P (routes d))
        in if urls = [] then (d, Inl (Msg ''range group not found''))
           else (d\<lparr>routes := delete_where P (routes d)\<rparr>, Inr urls))"

definition GetRouteByGroup :: "lib \<Rightarrow> db \<Rightarrow> string \<Rightarrow> err + route" where
  "GetRouteByGroup L d rangeGroup =
     (if db_fault L ''GetRouteByGroup'' then Inl (DbErr ''GetRouteByGroup'')
      else case sort_key rt_url (filter (\<lambda>r. rt_range r = rangeGroup) (routes d)) of
        [] \<Rightarrow> Inl (NoRows ''GetRouteByGroup'') | r # _ \<Rightarrow> Inr r)"

definition UpdateRouteEndpoint :: "lib \<Rightarrow> time \<Rightarrow> db \<Rightarrow> int \<Rightarrow> string \<Rightarrow> db \<times> (err + unit)" where
  "UpdateRouteEndpoint L now d i target =
     (if db_fault L ''UpdateRouteEndpoint'' then (d, Inl (DbErr ''UpdateRouteEndpoint''))
      else let P = (\<lambda>r. rt_id r = i \<and> rt_source r = ''ui'')
        in if count_where P (routes d) = 0 then (d, Inl (Msg ''route not found or not editable''))
           else (d\<lparr>routes := update_where P (\<lambda>r. touch now (r\<lparr>rt_target := target\<rparr>)) (routes d)\<rparr>, Inr ()))"

definition GetRouteByID :: "lib \<Rightarrow> db \<Rightarrow> int \<Rightarrow> err + route" where
  "GetRouteByID L d i =
     (if db_fault L ''GetRouteByID'' then Inl (DbErr ''GetRouteByID'')
      else case List.find (\<lambda>r. rt_id r = i) (routes d) of
        None \<Rightarrow> Inl (NoRows ''GetRouteByID'') | Some r \<Rightarrow> Inr r)"

definition EnsureRouteGroup :: "lib \<Rightarrow> time \<Rightarrow> db \<Rightarrow> string \<Rightarrow> string \<Rightarrow> db \<times> (err + unit)" where
  "EnsureRouteGroup L now d routeURL groupName =
     (if db_fault L ''EnsureRouteGroup.select'' then (d, Inl (DbErr ''EnsureRouteGroup.select''))
      else case List.find (\<lambda>g. grp_name g = groupName) (groups d) of
        None \<Rightarrow> (d, Inl (NoRows ''EnsureRouteGroup.select''))
      | Some g \<Rightarrow>
          if db_fault L ''EnsureRouteGroup.update'' then (d, Inl (DbErr ''EnsureRouteGroup.update''))
          else (d\<lparr>routes := update_where (\<lambda>r. rt_url r = routeURL \<and> rt_groups r = [])
                   (\<lambda>r. touch now (r\<lparr>rt_groups := itoa (grp_id g)\<rparr>)) (routes d)\<rparr>, Inr ()))"

definition NewRangeGroupID :: "8 word list \<Rightarrow> string" where
  "NewRangeGroupID rnd = randHex rnd"

text \<open>The set of the list entries that are not blank, and whether an id's decimal text is one.\<close>

definition allowed_entries :: "string \<Rightarrow> string list" where
  "allowed_entries s = filter (\<lambda>p. p \<noteq> []) (map trim_space (split_on (CHR '','') s))"

definition RouteAllows :: "string \<Rightarrow> int list \<Rightarrow> bool" where
  "RouteAllows allowedGroups groupIDs \<longleftrightarrow>
     allowedGroups = [] \<or> (\<exists>i \<in> set groupIDs. itoa i \<in> set (allowed_entries allowedGroups))"

section \<open>The constraints hold after every operation\<close>

lemma route_sel [simp]:
  "rt_url (touch now r) = rt_url r" "rt_id (touch now r) = rt_id r" "rt_source (touch now r) = rt_source r"
  "rt_url (merge_config now c r) = rt_url r" "rt_id (merge_config now c r) = rt_id r"
  "rt_source (merge_config now c r) = ''config''"
  "rt_url (set_access now a r) = rt_url r" "rt_id (set_access now a r) = rt_id r"
  "rt_source (set_access now a r) = rt_source r"
  "rt_url (new_route i now u t ty b ce k so rg) = u" "rt_id (new_route i now u t ty b ce k so rg) = i"
  "rt_source (new_route i now u t ty b ce k so rg) = so"
  by (simp_all add: touch_def merge_config_def set_access_def new_route_def)

lemma routes_updated_ok:
  assumes "db_ok d" and "\<And>r. rt_url (f r) = rt_url r" and "\<And>r. rt_id (f r) = rt_id r"
  shows "db_ok (d\<lparr>routes := update_where P f (routes d)\<rparr>)"
  using assms by (simp add: db_ok_def table_ok_defs auto_key_update sql_simps)

lemma routes_deleted_ok: "db_ok d \<Longrightarrow> db_ok (d\<lparr>routes := delete_where P (routes d)\<rparr>)"
  by (simp add: db_ok_def table_ok_defs auto_key_delete distinct_delete_where)

lemma route_appended_ok:
  assumes "db_ok d" and "rt_id r = routes_seq d + 1" and "rt_url r \<notin> rt_url ` set (routes d)"
  shows "db_ok (d\<lparr>routes := routes d @ [r], routes_seq := routes_seq d + 1\<rparr>)"
  using assms by (simp add: db_ok_def table_ok_defs auto_key_append)

lemma sync_one_ok: "db_ok d \<Longrightarrow> db_ok (sync_one now c d)"
  by (auto simp: sync_one_def intro!: routes_updated_ok route_appended_ok)

lemma fold_sync_ok: "db_ok d \<Longrightarrow> db_ok (fold (sync_one now) cs d)"
  by (induction cs arbitrary: d) (auto simp: sync_one_ok)

lemma SyncRoutes_ok [wf_intros]: "db_ok d \<Longrightarrow> db_ok (fst (SyncRoutes L now d cs))"
  by (simp add: SyncRoutes_def sync_delete_def Let_def fold_sync_ok routes_deleted_ok)

lemma UpdateRouteAccess_ok [wf_intros]: "db_ok d \<Longrightarrow> db_ok (fst (UpdateRouteAccess L now d i a))"
  and UpdateRouteAccessByGroup_ok [wf_intros]: "db_ok d \<Longrightarrow> db_ok (fst (UpdateRouteAccessByGroup L now d g a))"
  and UpdateRouteEndpoint_ok [wf_intros]: "db_ok d \<Longrightarrow> db_ok (fst (UpdateRouteEndpoint L now d i t))"
  by (simp_all add: UpdateRouteAccess_def UpdateRouteAccessByGroup_def UpdateRouteEndpoint_def Let_def
      routes_updated_ok)

lemma EnsureRouteGroup_ok [wf_intros]: "db_ok d \<Longrightarrow> db_ok (fst (EnsureRouteGroup L now d u g))"
  by (auto simp: EnsureRouteGroup_def intro: routes_updated_ok split: option.splits)

lemma CreateRoute_ok [wf_intros]: "db_ok d \<Longrightarrow> db_ok (fst (CreateRoute L now d u t ty b c k g))"
  by (auto simp: CreateRoute_def Let_def intro!: route_appended_ok)

lemma DeleteRoute_ok [wf_intros]: "db_ok d \<Longrightarrow> db_ok (fst (DeleteRoute L d i))"
  and DeleteRouteGroup_ok [wf_intros]: "db_ok d \<Longrightarrow> db_ok (fst (DeleteRouteGroup L d g))"
  by (simp_all add: DeleteRoute_def DeleteRouteGroup_def Let_def routes_deleted_ok split: option.splits)

section \<open>Reconciliation with the configuration file\<close>

definition route_lookup :: "db \<Rightarrow> string \<Rightarrow> route option" where
  "route_lookup d url = List.find (\<lambda>r. rt_url r = url) (routes d)"

definition access_of :: "route \<Rightarrow> access" where
  "access_of r = \<lparr>ac_groups = rt_groups r, ac_ips = rt_ips r, ac_ip_auth = rt_ip_auth r,
     ac_persistent = rt_persistent r, ac_require_login = rt_require_login r\<rparr>"

definition config_of :: "route \<Rightarrow> ConfigRoute" where
  "config_of r = \<lparr>cr_url = rt_url r, cr_target = rt_target r, cr_type = rt_type r, cr_tls = rt_tls r,
     cr_cert = rt_cert r, cr_key = rt_key r\<rparr>"

definition open_access :: access where
  "open_access = \<lparr>ac_groups = [], ac_ips = [], ac_ip_auth = False, ac_persistent = True, ac_require_login = False\<rparr>"

text \<open>What a row of the table looks like once the file has been applied.\<close>

definition synced :: "ConfigRoute option \<Rightarrow> route option \<Rightarrow> route option \<Rightarrow> bool" where
  "synced c old new \<longleftrightarrow>
     (case c of
        None \<Rightarrow> new = (case old of Some r \<Rightarrow> if rt_source r = ''config'' then None else Some r | None \<Rightarrow> None)
      | Some c \<Rightarrow> (\<exists>r. new = Some r \<and> config_of r = c \<and> rt_source r = ''config'' \<and> rt_enabled r \<and>
          access_of r = (case old of Some r0 \<Rightarrow> access_of r0 | None \<Rightarrow> open_access)))"

lemma route_lookup_url: "route_lookup d url = Some r \<Longrightarrow> rt_url r = url"
  by (auto simp: route_lookup_def dest: find_in_set)

lemma route_lookup_sync_one:
  "route_lookup (sync_one now c d) url =
     (if url = cr_url c
      then Some (case route_lookup d url of Some r \<Rightarrow> merge_config now c r
        | None \<Rightarrow> new_route (routes_seq d + 1) now (cr_url c) (cr_target c) (cr_type c) (cr_tls c)
            (cr_cert c) (cr_key c) ''config'' [])
      else route_lookup d url)"
proof -
  have "routes (sync_one now c d) = upsert rt_url (\<lambda>r _. merge_config now c r)
    (new_route (routes_seq d + 1) now (cr_url c) (cr_target c) (cr_type c) (cr_tls c)
            (cr_cert c) (cr_key c) ''config'' []) (routes d)"
    by (simp add: sync_one_def upsert_def)
  then show ?thesis
    by (simp add: route_lookup_def find_upsert split: option.splits)
qed

lemma view_merge:
  "config_of (merge_config now c r) = c\<lparr>cr_url := rt_url r\<rparr>" "access_of (merge_config now c r) = access_of r"
  "rt_enabled (merge_config now c r)"
  by (simp_all add: config_of_def access_of_def merge_config_def touch_def)

lemma view_new:
  "config_of (new_route i now (cr_url c) (cr_target c) (cr_type c) (cr_tls c) (cr_cert c) (cr_key c) so rg) = c"
  "access_of (new_route i now u t ty b ce k so rg) = open_access"
  "rt_enabled (new_route i now u t ty b ce k so rg)"
  by (simp_all add: config_of_def access_of_def open_access_def new_route_def)

text \<open>Before the DELETE: a URL of the file is settled by its last entry, any other row is as it was.\<close>

lemma route_lookup_fold_sync:
  "case List.find (\<lambda>c. cr_url c = url) (rev cs) of
     None \<Rightarrow> route_lookup (fold (sync_one now) cs d) url = route_lookup d url
   | Some c \<Rightarrow> synced (Some c) (route_lookup d url) (route_lookup (fold (sync_one now) cs d) url)"
proof (induction cs rule: rev_induct)
  case (snoc c cs)
  show ?case
  proof (cases "url = cr_url c")
    case False
    with snoc show ?thesis by (auto simp: route_lookup_sync_one split: option.splits)
  next
    case True
    let ?d1 = "fold (sync_one now) cs d"
    have "access_of (case route_lookup ?d1 url of Some r \<Rightarrow> merge_config now c r
        | None \<Rightarrow> new_route (routes_seq ?d1 + 1) now (cr_url c) (cr_target c) (cr_type c) (cr_tls c)
            (cr_cert c) (cr_key c) ''config'' []) =
      (case route_lookup d url of Some r0 \<Rightarrow> access_of r0 | None \<Rightarrow> open_access)"
      using snoc by (auto simp: synced_def view_merge view_new split: option.splits)
    with True show ?thesis
      by (auto simp: route_lookup_sync_one synced_def view_merge view_new dest!: route_lookup_url split: option.splits)
  qed
qed simp

lemma route_lookup_delete:
  assumes "distinct (map rt_url (routes d))"
  shows "route_lookup (d\<lparr>routes := delete_where P (routes d)\<rparr>) url =
    (case route_lookup d url of Some r \<Rightarrow> if P r then None else Some r | None \<Rightarrow> None)"
proof -
  have "List.find (\<lambda>r. rt_url r = url) (delete_where P rows) =
    (case List.find (\<lambda>r. rt_url r = url) rows of Some r \<Rightarrow> if P r then None else Some r | None \<Rightarrow> None)"
    if "distinct (map rt_url rows)" for rows
    using that
  proof (induction rows)
    case (Cons r rows)
    then have "url = rt_url r \<Longrightarrow> List.find (\<lambda>r. rt_url r = url) rows = None"
      by (auto simp: find_none image_iff)
    with Cons show ?case by (auto simp: delete_where_def split: option.splits)
  qed (simp add: delete_where_def)
  with assms show ?thesis by (simp add: route_lookup_def)
qed

lemma SyncRoutes_synced:
  assumes "SyncRoutes L now d cs = (d', Inr ())" and "db_ok d"
  shows "synced (List.find (\<lambda>c. cr_url c = url) (rev cs)) (route_lookup d url) (route_lookup d' url)"
proof -
  let ?d1 = "fold (sync_one now) cs d"
  have d': "d' = sync_delete cs ?d1"
    using assms(1) by (auto simp: SyncRoutes_def Let_def split: if_splits)
  have "distinct (map rt_url (routes ?d1))" "distinct (map rt_url (routes d))"
    using fold_sync_ok [OF assms(2)] assms(2) by (simp_all add: db_ok_def routes_ok_def)
  note del = this [THEN route_lookup_delete]
  have found: "(\<exists>c. List.find (\<lambda>c. cr_url c = url) (rev cs) = Some c) \<longleftrightarrow> url \<in> cr_url ` set cs"
    using find_none [of "\<lambda>c. cr_url c = url" "rev cs"] by (auto simp: image_iff)
  show ?thesis
  proof (cases "List.find (\<lambda>c. cr_url c = url) (rev cs)")
    case None
    with found have "url \<notin> cr_url ` set cs" by auto
    moreover have "route_lookup ?d1 url = route_lookup d url"
      using route_lookup_fold_sync [where url = url and cs = cs and now = now and d = d] None by simp
    ultimately show ?thesis
      by (auto simp: d' sync_delete_def del synced_def None dest: route_lookup_url split: option.splits)
  next
    case (Some c)
    with found have "url \<in> cr_url ` set cs" by auto
    moreover have "synced (Some c) (route_lookup d url) (route_lookup ?d1 url)"
      using route_lookup_fold_sync [where url = url and cs = cs and now = now and d = d] Some by simp
    ultimately show ?thesis
      by (auto simp: d' sync_delete_def del synced_def Some dest: route_lookup_url split: option.splits)
  qed
qed

text \<open>
  C37: \<open>SyncRoutes\<close> reconciles the table with the file, row by row. A URL in the file ends up with
  the file's last entry for it, enabled and config-sourced, with the access-control settings
  it had before (open for a new URL). A config-sourced row that left the file is gone; every
  other row is untouched.
\<close>

theorem SyncRoutes_reconciles:
  assumes "SyncRoutes L now d cs = (d', Inr ())" and "db_ok d"
  shows "synced (List.find (\<lambda>c. cr_url c = url) (rev cs)) (route_lookup d url) (route_lookup d' url)"
  using assms by (rule SyncRoutes_synced)

definition route_db :: db where
  "route_db = empty_db\<lparr>routes :=
     [new_route 1 0 ''a.b:80'' ''http://x'' ''proxy'' False [] [] ''config'' [],
      new_route 2 0 ''c.d:80'' ''http://y'' ''proxy'' False [] [] ''ui'' []], routes_seq := 2\<rparr>"

lemma route_db_ok: "db_ok route_db"
  by (simp add: route_db_def empty_db_def db_ok_def table_ok_defs auto_key_def)

definition conf_route :: ConfigRoute where
  "conf_route = \<lparr>cr_url = ''e.f:81'', cr_target = ''/www'', cr_type = ''static'', cr_tls = False, cr_cert = [], cr_key = []\<rparr>"

theorem SyncRoutes_reconciles_witness:
  "route_lookup (fst (SyncRoutes plain_lib 5 route_db [conf_route])) ''a.b:80'' = None \<and>
   route_lookup (fst (SyncRoutes plain_lib 5 route_db [conf_route])) ''c.d:80'' \<noteq> None"
proof -
  have "SyncRoutes plain_lib 5 route_db [conf_route] =
      (fst (SyncRoutes plain_lib 5 route_db [conf_route]), Inr ())"
    by (simp add: SyncRoutes_def Let_def)
  note sync = SyncRoutes_reconciles [OF this route_db_ok]
  show ?thesis
    using sync [of "''a.b:80''"] sync [of "''c.d:80''"]
    by (simp add: synced_def conf_route_def route_lookup_def route_db_def)
qed

text \<open>A failed synchronisation is rolled back.\<close>

lemma SyncRoutes_rollback: "SyncRoutes L now d cs = (d', Inl e) \<Longrightarrow> d' = d"
  by (auto simp: SyncRoutes_def Let_def split: if_splits)

section \<open>Group lists\<close>

text \<open>
  \<open>RouteAllows\<close> on the list of ids the admin panel stores is exactly group membership, and an
  empty list is public.
\<close>

lemma RouteAllows_membership:
  assumes "\<forall>g \<in> set gs. int64 g" and "\<forall>i \<in> set ids. int64 i"
  shows "RouteAllows (group_concat gs) ids \<longleftrightarrow> gs = [] \<or> set gs \<inter> set ids \<noteq> {}"
proof (cases "gs = []")
  case False
  have "split_on (CHR '','') (group_concat gs) = map itoa gs"
    using False itoa_plain(1) unfolding group_concat_def by (intro split_join) fastforce+
  moreover have "filter (\<lambda>p. p \<noteq> []) (map itoa gs) = map itoa gs"
    by (simp add: filter_id_conv)
  ultimately have entries: "set (allowed_entries (group_concat gs)) = itoa ` set gs"
    by (simp add: allowed_entries_def comp_def)
  then have "group_concat gs \<noteq> []"
    using False by (auto simp: allowed_entries_def trim_space_def)
  with entries False assms show ?thesis
    by (auto simp: RouteAllows_def image_iff itoa_inj)
qed (simp add: RouteAllows_def group_concat_def)

lemma RouteAllows_membership_witness:
  "RouteAllows (group_concat [3, 12]) [12, 40] \<and> \<not> RouteAllows (group_concat [3, 12]) [1, 2]"
  using RouteAllows_membership [of "[3, 12]" "[12, 40]"] RouteAllows_membership [of "[3, 12]" "[1, 2]"]
  by (simp add: int64_def)

end
