(* ===== verification/AccessLog.thy ===== *)
theory AccessLog
  imports Schema
begin

text \<open>
  The log half of storage/metrics.go: failed logins and granted accesses. \<^verbatim>\<open>ORDER BY created_at
  DESC LIMIT n\<close> reads the index on \<^verbatim>\<open>created_at\<close> backwards, so equal stamps come latest row first; a
  negative limit is no limit.
\<close>

definition newest_first :: "('r \<Rightarrow> time) \<Rightarrow> 'r list \<Rightarrow> 'r list" where
  "newest_first created rows = rev (sort_key created rows)"

definition sql_limit :: "int \<Rightarrow> 'r list \<Rightarrow> 'r list" where
  "sql_limit n rows = (if n < 0 then rows else take (nat n) rows)"

definition LogAuthFailure :: "lib \<Rightarrow> time \<Rightarrow> db \<Rightarrow> string \<Rightarrow> string \<Rightarrow> db" where
  "LogAuthFailure L now d ip username =
     (if db_fault L ''LogAuthFailure'' then d
      else d\<lparr>failures := failures d @ [\<lparr>af_id = failures_seq d + 1, af_ip = ip, af_user = username,
               af_created = sql_now now\<rparr>], failures_seq := failures_seq d + 1\<rparr>)"

definition GetRecentAuthFailures :: "lib \<Rightarrow> db \<Rightarrow> int \<Rightarrow> err + failure_row list" where
  "GetRecentAuthFailures L d limit =
     (if db_fault L ''GetRecentAuthFailures'' then Inl (DbErr ''GetRecentAuthFailures'')
      else Inr (sql_limit limit (newest_first af_created (failures d))))"

definition LogAccess :: "lib \<Rightarrow> time \<Rightarrow> db \<Rightarrow> string \<Rightarrow> string \<Rightarrow> string \<Rightarrow> db" where
  "LogAccess L now d ip username routeUrl =
     (if db_fault L ''LogAccess'' then d
      else d\<lparr>accesses := accesses d @ [\<lparr>al_id = accesses_seq d + 1, al_ip = ip, al_user = username,
               al_route = routeUrl, al_created = sql_now now\<rparr>], accesses_seq := accesses_seq d + 1\<rparr>)"

definition GetRecentAccess :: "lib \<Rightarrow> db \<Rightarrow> int \<Rightarrow> err + access_row list" where
  "GetRecentAccess L d limit =
     (if db_fault L ''GetRecentAccess'' then Inl (DbErr ''GetRecentAccess'')
      else Inr (sql_limit limit (newest_first al_created (accesses d))))"

definition CleanupOldAccessLog :: "lib \<Rightarrow> db \<Rightarrow> db" where
  "CleanupOldAccessLog L d =
     (if db_fault L ''CleanupOldAccessLog'' then d
      else let keep = map al_id (sql_limit 5000 (newest_first al_created (accesses d)))
        in d\<lparr>accesses := delete_where (\<lambda>r. al_id r \<notin> set keep) (accesses d)\<rparr>)"

section \<open>The constraints hold after every operation\<close>

lemma LogAuthFailure_ok [wf_intros]: "db_ok d \<Longrightarrow> db_ok (LogAuthFailure L now d ip u)"
  by (auto simp: LogAuthFailure_def db_ok_def table_ok_defs intro!: auto_key_append)

lemma LogAccess_ok [wf_intros]: "db_ok d \<Longrightarrow> db_ok (LogAccess L now d ip u r)"
  by (auto simp: LogAccess_def db_ok_def table_ok_defs intro!: auto_key_append)

lemma CleanupOldAccessLog_ok [wf_intros]: "db_ok d \<Longrightarrow> db_ok (CleanupOldAccessLog L d)"
  by (auto simp: CleanupOldAccessLog_def db_ok_def table_ok_defs Let_def intro!: auto_key_delete)

section \<open>The clean-up keeps the newest rows\<close>

lemma set_newest_first [simp]: "set (newest_first f rows) = set rows"
  by (simp add: newest_first_def)

lemma sort_key_filter: "sort_key f (filter P xs) = filter P (sort_key f xs)"
  by (simp add: filter_sort)

lemma newest_first_filter: "newest_first f (filter P xs) = filter P (newest_first f xs)"
  by (simp add: newest_first_def sort_key_filter rev_filter)

lemma filter_keys_take:
  assumes "distinct (map key xs)"
  shows "filter (\<lambda>r. key r \<in> key ` set (take n xs)) xs = take n xs"
proof -
  have "distinct (map key (take n xs @ drop n xs))" using assms by simp
  then have disj: "key ` set (take n xs) \<inter> key ` set (drop n xs) = {}"
    by (simp only: map_append distinct_append set_map)
  have "filter (\<lambda>r. key r \<in> key ` set (take n xs)) (take n xs @ drop n xs) = take n xs"
    using disj by (auto simp: filter_id_conv filter_empty_conv simp del: append_take_drop_id)
  then show ?thesis by simp
qed

lemma distinct_newest_first: "distinct (map key rows) \<Longrightarrow> distinct (map key (newest_first f rows))"
  by (simp add: newest_first_def distinct_map)

lemma cleaned_newest:
  assumes "db_ok d" and "\<not> db_fault L ''CleanupOldAccessLog''"
  shows "newest_first al_created (accesses (CleanupOldAccessLog L d)) =
    take 5000 (newest_first al_created (accesses d))"
proof -
  let ?xs = "newest_first al_created (accesses d)"
  have "distinct (map al_id ?xs)"
    using assms(1) by (intro distinct_newest_first) (simp add: db_ok_def logs_ok_def auto_key_def)
  then show ?thesis
    using assms(2)
    by (simp add: CleanupOldAccessLog_def sql_limit_def delete_where_def newest_first_filter filter_keys_take)
qed

text \<open>
  The access log is bounded without losing a recent entry: after a clean-up at most 5000 rows
  are left, and every listing of at most 5000 entries is what it was before.
\<close>

lemma CleanupOldAccessLog_keeps_newest:
  assumes "db_ok d" and "\<not> db_fault L ''CleanupOldAccessLog''" and "0 \<le> n" and "n \<le> 5000"
  shows "length (accesses (CleanupOldAccessLog L d)) \<le> 5000 \<and>
    GetRecentAccess L (CleanupOldAccessLog L d) n = GetRecentAccess L d n"
proof -
  have "length (accesses d') = length (newest_first al_created (accesses d'))" for d' :: db
    by (simp add: newest_first_def)
  moreover have "min (nat n) 5000 = nat n" using assms(4) by simp
  ultimately show ?thesis
    using cleaned_newest [OF assms(1,2)] assms(3) by (simp add: GetRecentAccess_def sql_limit_def)
qed

definition log_db :: db where
  "log_db = LogAccess plain_lib 7000000000 (LogAccess plain_lib 0 empty_db ''lan'' ''ann'' ''a.b:80'') ''lan'' ''bob'' ''a.b:80''"

lemma CleanupOldAccessLog_keeps_newest_witness:
  "length (accesses (CleanupOldAccessLog plain_lib log_db)) \<le> 5000 \<and>
   GetRecentAccess plain_lib (CleanupOldAccessLog plain_lib log_db) 1 = GetRecentAccess plain_lib log_db 1"
  by (rule CleanupOldAccessLog_keeps_newest) (simp_all add: log_db_def LogAccess_ok empty_db_ok)

section \<open>The debug dump of sessions\<close>

text \<open>The rows of storage/sessions.go's \<^verbatim>\<open>DebugDumpSessions\<close>, before they are printed.\<close>

record debug_row =
  dr_id :: int
  dr_user :: int
  dr_ip :: string
  dr_ip_type :: string
  dr_exp :: time
  dr_active :: bool

fun typeof_cell :: "cell \<Rightarrow> string" where
  "typeof_cell (TextCell s) = ''text''"
| "typeof_cell (BlobCell s) = ''blob''"

definition DebugDumpSessions :: "lib \<Rightarrow> time \<Rightarrow> db \<Rightarrow> int \<Rightarrow> err + debug_row list" where
  "DebugDumpSessions L now d limit =
     (if db_fault L ''DebugDumpSessions'' then Inl (DbErr ''DebugDumpSessions'')
      else Inr (map (\<lambda>s. \<lparr>dr_id = ses_id s, dr_user = ses_user s, dr_ip = cast_text (ses_ip s),
              dr_ip_type = typeof_cell (ses_ip s), dr_exp = ses_exp s, dr_active = (now < ses_exp s)\<rparr>)
            (sql_limit limit (sort_key (\<lambda>s. - ses_id s) (sessions d)))))"

text \<open>A negative limit dumps every session, orphans and expired ones included.\<close>

lemma DebugDumpSessions_all:
  "n < 0 \<Longrightarrow> DebugDumpSessions L now d n = Inr rows \<Longrightarrow> dr_id ` set rows = ses_id ` set (sessions d)"
  by (auto simp: DebugDumpSessions_def sql_limit_def image_image split: if_splits)

end
