(* ===== verification/Events.thy ===== *)
theory Events
  imports GoTime GoText
begin

text \<open>
  proxy/metrics.go: the in-memory event firehose. Per-outcome and per-route counters are 64-bit,
  the recent events are a ring of \<open>recentEventsCap\<close> slots with a write position and a count.
\<close>

definition OutcomeServed :: string where "OutcomeServed = ''served''"
definition OutcomeDenied :: string where "OutcomeDenied = ''denied''"
definition OutcomeRateLimited :: string where "OutcomeRateLimited = ''rate_limited''"
definition OutcomeBanned :: string where "OutcomeBanned = ''banned''"
definition OutcomeNotFound :: string where "OutcomeNotFound = ''not_found''"
definition OutcomeNoListener :: string where "OutcomeNoListener = ''no_listener''"
definition OutcomeTLSError :: string where "OutcomeTLSError = ''tls_error''"
definition OutcomeTCPRejected :: string where "OutcomeTCPRejected = ''tcp_rejected''"
definition OutcomeDialError :: string where "OutcomeDialError = ''dial_error''"

definition recentEventsCap :: nat where
  "recentEventsCap = 500"

record event =
  ev_time :: time
  ev_ip :: string
  ev_route :: string
  ev_outcome :: string

record metrics =
  routeCounters :: "string \<Rightarrow> int option"
  eventCounters :: "string \<Rightarrow> int option"
  eventRing :: "event list"
  eventHead :: nat
  eventCount :: nat

definition metrics0 :: metrics where
  "metrics0 = \<lparr>routeCounters = (\<lambda>_. None), eventCounters = (\<lambda>_. None),
     eventRing = replicate recentEventsCap \<lparr>ev_time = zero_time, ev_ip = [], ev_route = [], ev_outcome = []\<rparr>,
     eventHead = 0, eventCount = 0\<rparr>"

text \<open>\<^verbatim>\<open>LoadOrStore(k, new(int64))\<close> and \<^verbatim>\<open>atomic.AddInt64\<close>\<close>

definition bump :: "string \<Rightarrow> (string \<Rightarrow> int option) \<Rightarrow> string \<Rightarrow> int option" where
  "bump k m = m(k \<mapsto> wrap64 ((case m k of None \<Rightarrow> 0 | Some n \<Rightarrow> n) + 1))"

definition push_event :: "event \<Rightarrow> metrics \<Rightarrow> metrics" where
  "push_event e m = m\<lparr>eventRing := (eventRing m)[eventHead m := e],
     eventHead := (eventHead m + 1) mod recentEventsCap,
     eventCount := (if eventCount m < recentEventsCap then eventCount m + 1 else eventCount m)\<rparr>"

definition RecordEvent :: "time \<Rightarrow> string \<Rightarrow> string \<Rightarrow> string \<Rightarrow> metrics \<Rightarrow> metrics" where
  "RecordEvent now ip route outcome m =
     (let m1 = m\<lparr>eventCounters := bump outcome (eventCounters m)\<rparr>;
          m2 = (if outcome = OutcomeServed then m1\<lparr>routeCounters := bump route (routeCounters m1)\<rparr> else m1)
      in push_event \<lparr>ev_time = now, ev_ip = ip, ev_route = route, ev_outcome = outcome\<rparr> m2)"

definition RecordRequest :: "time \<Rightarrow> string \<Rightarrow> metrics \<Rightarrow> metrics" where
  "RecordRequest now routeUrl m = RecordEvent now [] routeUrl OutcomeServed m"

definition GetRouteStats :: "metrics \<Rightarrow> string \<Rightarrow> int option" where
  "GetRouteStats m = routeCounters m"

definition GetEventStats :: "metrics \<Rightarrow> string \<Rightarrow> int option" where
  "GetEventStats m = eventCounters m"

text \<open>\<open>eventHead\<close> is the next slot to write; \<open>i\<close> walks back from the slot before it.\<close>

definition GetRecentEvents :: "metrics \<Rightarrow> event list" where
  "GetRecentEvents m =
     map (\<lambda>i. eventRing m ! ((eventHead m + recentEventsCap - 1 - i) mod recentEventsCap)) [0..<eventCount m]"

section \<open>The contract of a recent-entries buffer\<close>

locale recent_log =
  fixes push :: "'e \<Rightarrow> 's \<Rightarrow> 's"
    and items :: "'s \<Rightarrow> 'e list"
    and ok :: "'s \<Rightarrow> bool"
    and cap :: nat
  assumes push_ok: "ok s \<Longrightarrow> ok (push e s)"
    and items_push: "ok s \<Longrightarrow> items (push e s) = take cap (e # items s)"
begin

lemma fold_push_ok: "ok s \<Longrightarrow> ok (fold push es s)"
  by (induction es arbitrary: s) (auto simp: push_ok)

lemma items_fold_push: "ok s \<Longrightarrow> es \<noteq> [] \<Longrightarrow> items (fold push es s) = take cap (rev es @ items s)"
proof (induction es rule: rev_induct)
  case (snoc e es)
  show ?case
  proof (cases "es = []")
    case False
    with snoc show ?thesis
      by (cases cap) (simp_all add: items_push fold_push_ok min_def)
  qed (use snoc.prems in \<open>simp add: items_push\<close>)
qed simp

lemma newest_is_hd: "ok s \<Longrightarrow> 0 < cap \<Longrightarrow> hd (items (push e s)) = e"
  by (cases cap) (simp_all add: items_push)

end

section \<open>The ring implements it\<close>

definition ring_ok :: "metrics \<Rightarrow> bool" where
  "ring_ok m \<longleftrightarrow> length (eventRing m) = recentEventsCap \<and> eventHead m < recentEventsCap
     \<and> eventCount m \<le> recentEventsCap"

lemma metrics0_ok: "ring_ok metrics0"
  by (simp add: ring_ok_def metrics0_def recentEventsCap_def)

lemma back_step:
  fixes h c i :: nat
  assumes "h < c" and "i < c"
  shows "((h + 1) mod c + c - 1 - i) mod c = (if i = 0 then h else (h + c - i) mod c)"
proof (cases "h + 1 = c")
  case True
  with assms have "i \<le> h" by simp
  then have "h + c - i = (h - i) + c" by (rule diff_add_assoc2)
  moreover have "h - i < c" using assms by linarith
  ultimately have "(h + c - i) mod c = h - i" by (metis mod_add_self2 mod_less)
  moreover have "((h + 1) mod c + c - 1 - i) mod c = h - i"
    unfolding True using \<open>i \<le> h\<close> True by (simp flip: True)
  ultimately show ?thesis by simp
next
  case False
  with assms have "(h + 1) mod c = h + 1" by simp
  with assms show ?thesis by auto
qed

lemma back_other:
  fixes h c i :: nat
  assumes "h < c" and "0 < i" and "i < c"
  shows "(h + c - i) mod c \<noteq> h"
proof (cases "i \<le> h")
  case True
  then have "h + c - i = (h - i) + c" by (rule diff_add_assoc2)
  moreover have "h - i < c" using assms by linarith
  ultimately have "(h + c - i) mod c = h - i" by (metis mod_add_self2 mod_less)
  moreover have "h - i \<noteq> h" using True assms by linarith
  ultimately show ?thesis by simp
next
  case False
  define k where "k = i - h"
  have k: "i = h + k" "0 < k" using False by (simp_all add: k_def)
  then have "h + c - i = c - k" "c - k < c" using assms by simp_all
  then have "(h + c - i) mod c = c - k" by (simp only: mod_less)
  moreover have "c - k \<noteq> h" using k assms by arith
  ultimately show ?thesis by simp
qed

lemma nth_push:
  assumes "ring_ok m" and "i < recentEventsCap"
  shows "eventRing (push_event e m) ! ((eventHead (push_event e m) + recentEventsCap - 1 - i) mod recentEventsCap) =
    (if i = 0 then e else eventRing m ! ((eventHead m + recentEventsCap - i) mod recentEventsCap))"
  using assms back_step [of "eventHead m" recentEventsCap i] back_other [of "eventHead m" recentEventsCap i]
  by (cases "i = 0") (simp_all add: ring_ok_def push_event_def)

lemma recent_push:
  assumes "ring_ok m"
  shows "GetRecentEvents (push_event e m) = take recentEventsCap (e # GetRecentEvents m)"
proof (rule nth_equalityI)
  have cnt: "eventCount (push_event e m) = min recentEventsCap (Suc (eventCount m))"
    using assms by (auto simp: push_event_def ring_ok_def)
  then show "length (GetRecentEvents (push_event e m)) = length (take recentEventsCap (e # GetRecentEvents m))"
    by (simp add: GetRecentEvents_def min.commute)
  fix i assume "i < length (GetRecentEvents (push_event e m))"
  then have i: "i < recentEventsCap" "i < Suc (eventCount m)" "i < eventCount (push_event e m)"
    using cnt by (simp_all add: GetRecentEvents_def)
  show "GetRecentEvents (push_event e m) ! i = take recentEventsCap (e # GetRecentEvents m) ! i"
  proof (cases i)
    case 0
    with i nth_push [OF assms, of 0 e] show ?thesis by (simp add: GetRecentEvents_def)
  next
    case (Suc j)
    with i nth_push [OF assms i(1), of e] show ?thesis by (simp add: GetRecentEvents_def)
  qed
qed

interpretation ring: recent_log push_event GetRecentEvents ring_ok recentEventsCap
proof unfold_locales
  show "ring_ok (push_event e m)" if "ring_ok m" for e m
    using that by (auto simp: ring_ok_def push_event_def recentEventsCap_def)
qed (rule recent_push)

section \<open>What a history of events leaves\<close>

definition record_all :: "(time \<times> string \<times> string \<times> string) list \<Rightarrow> metrics \<Rightarrow> metrics" where
  "record_all = fold (\<lambda>(now, ip, route, outcome). RecordEvent now ip route outcome)"

definition event_of :: "time \<times> string \<times> string \<times> string \<Rightarrow> event" where
  "event_of = (\<lambda>(now, ip, route, outcome). \<lparr>ev_time = now, ev_ip = ip, ev_route = route, ev_outcome = outcome\<rparr>)"

definition tally :: "nat \<Rightarrow> int option" where
  "tally n = (if n = 0 then None else Some (int n))"

lemma recent_RecordEvent:
  "ring_ok m \<Longrightarrow> GetRecentEvents (RecordEvent now ip r out m) =
     take recentEventsCap (event_of (now, ip, r, out) # GetRecentEvents m)"
proof -
  assume ok: "ring_ok m"
  let ?m = "m\<lparr>eventCounters := bump out (eventCounters m),
    routeCounters := (if out = OutcomeServed then bump r (routeCounters m) else routeCounters m)\<rparr>"
  have "RecordEvent now ip r out m = push_event (event_of (now, ip, r, out)) ?m"
    by (simp add: RecordEvent_def event_of_def)
  moreover have "ring_ok ?m" "GetRecentEvents ?m = GetRecentEvents m"
    using ok by (simp_all add: ring_ok_def GetRecentEvents_def)
  ultimately show ?thesis by (simp add: recent_push)
qed

lemma RecordEvent_ok: "ring_ok m \<Longrightarrow> ring_ok (RecordEvent now ip r out m)"
  by (auto simp: RecordEvent_def Let_def ring_ok_def push_event_def recentEventsCap_def)

lemma record_all_snoc:
  "record_all (h @ [(now, ip, r, out)]) m = RecordEvent now ip r out (record_all h m)"
  by (simp add: record_all_def)

lemma record_all_ok: "ring_ok m \<Longrightarrow> ring_ok (record_all h m)"
  by (induction h arbitrary: m) (auto simp: record_all_def RecordEvent_ok)

lemma recent_record_all: "GetRecentEvents (record_all h metrics0) = take recentEventsCap (rev (map event_of h))"
proof (induction h rule: rev_induct)
  case Nil
  show ?case by (simp add: record_all_def GetRecentEvents_def metrics0_def)
next
  case (snoc x h)
  obtain now ip r out where "x = (now, ip, r, out)" by (cases x)
  with snoc show ?case
    by (simp add: record_all_snoc recent_RecordEvent record_all_ok metrics0_ok recentEventsCap_def)
qed

lemma counters_RecordEvent:
  "eventCounters (RecordEvent now ip r out m) = bump out (eventCounters m)"
  "routeCounters (RecordEvent now ip r out m) =
     (if out = OutcomeServed then bump r (routeCounters m) else routeCounters m)"
  by (simp_all add: RecordEvent_def Let_def push_event_def)

lemma bump_tally:
  assumes "int (Suc n) < 2 ^ 63" and "m k' = tally n"
  shows "bump k m k' = (if k' = k then tally (Suc n) else tally n)"
  using assms by (auto simp: bump_def tally_def int64_def)

lemma tally_record_all:
  assumes "int (length h) < 2 ^ 63"
  shows "GetEventStats (record_all h metrics0) out = tally (length (filter (\<lambda>(_, _, _, o'). o' = out) h))
    \<and> GetRouteStats (record_all h metrics0) r =
      tally (length (filter (\<lambda>(_, _, r', o'). r' = r \<and> o' = OutcomeServed) h))"
  using assms
proof (induction h rule: rev_induct)
  case Nil
  show ?case by (simp add: record_all_def metrics0_def GetEventStats_def GetRouteStats_def tally_def)
next
  case (snoc x h)
  obtain now ip r' o' where x: "x = (now, ip, r', o')" by (cases x)
  have le: "length (filter P h) \<le> length h" for P :: "time \<times> string \<times> string \<times> string \<Rightarrow> bool" by simp
  from snoc.prems have b: "int (Suc (length (filter P h))) < 2 ^ 63" for P
    using le [of P] by (simp del: length_filter_le)
  from snoc have IH: "GetEventStats (record_all h metrics0) out = tally (length (filter (\<lambda>(_, _, _, o'). o' = out) h))"
    "GetRouteStats (record_all h metrics0) r =
      tally (length (filter (\<lambda>(_, _, r', o'). r' = r \<and> o' = OutcomeServed) h))" by simp_all
  note ev = bump_tally [OF b, of "eventCounters (record_all h metrics0)" out "\<lambda>(_, _, _, o'). o' = out", OF IH(1) [unfolded GetEventStats_def]]
  note rt = bump_tally [OF b, of "routeCounters (record_all h metrics0)" r "\<lambda>(_, _, r', o'). r' = r \<and> o' = OutcomeServed", OF IH(2) [unfolded GetRouteStats_def]]
  show ?case
    using ev [of o'] rt [of r'] IH
    by (auto simp: x record_all_snoc GetEventStats_def GetRouteStats_def counters_RecordEvent)
qed

text \<open>
  C38: the event metrics account for every event since the process started: the recent list
  is the last 500 events, newest first, and (below 2 to the 63 events) the two counter maps hold exactly
  how often each outcome occurred and how often each route was served.
\<close>

theorem metrics_account:
  assumes "int (length h) < 2 ^ 63"
  shows "GetRecentEvents (record_all h metrics0) = take 500 (rev (map event_of h)) \<and>
    GetEventStats (record_all h metrics0) out = tally (length (filter (\<lambda>(_, _, _, o'). o' = out) h)) \<and>
    GetRouteStats (record_all h metrics0) r =
      tally (length (filter (\<lambda>(_, _, r', o'). r' = r \<and> o' = OutcomeServed) h))"
  using recent_record_all [of h] tally_record_all [OF assms] by (simp add: recentEventsCap_def)

theorem metrics_account_witness:
  "GetEventStats (record_all [(1, ''lan'', ''a:80'', ''served''), (2, ''lan'', ''a:80'', ''denied''),
     (3, ''wan'', ''a:80'', ''served'')] metrics0) ''served'' = Some 2"
  using metrics_account [of "[(1, ''lan'', ''a:80'', ''served''), (2, ''lan'', ''a:80'', ''denied''),
     (3, ''wan'', ''a:80'', ''served'')]" "''served''" "''a:80''"]
  by (simp add: tally_def)

end
