(* ===== verification/Http.thy ===== *)
theory Http
  imports Sessions Invites ThrottleStore RouteStore AccessLog Events
begin

text \<open>
  What the handlers see of \<^verbatim>\<open>net/http\<close>: a request with the parts the program reads, and the outcome
  of a handler. A decoded JSON body is given by the values of the struct fields after \<^verbatim>\<open>Decode\<close>,
  looked up by their JSON tags (Go's zero values for absent ones), and by whether \<^verbatim>\<open>Decode\<close>
  returned nil.
\<close>

record body =
  bd_ok :: bool
  bd_str :: "string \<Rightarrow> string"
  bd_int :: "string \<Rightarrow> int"
  bd_bool :: "string \<Rightarrow> bool"
  bd_num :: "string \<Rightarrow> rat"

record request =
  rq_method :: string
  rq_host :: string
  rq_path :: string
  rq_remote :: string
  rq_tls :: bool
  rq_cookie :: "string option"
  rq_query :: "string \<Rightarrow> string"
  rq_body :: body

definition no_body :: body where
  "no_body = \<lparr>bd_ok = False, bd_str = (\<lambda>_. []), bd_int = (\<lambda>_. 0), bd_bool = (\<lambda>_. False), bd_num = (\<lambda>_. 0)\<rparr>"

definition get_request :: "string \<Rightarrow> string \<Rightarrow> string \<Rightarrow> request" where
  "get_request host path remote = \<lparr>rq_method = ''GET'', rq_host = host, rq_path = path, rq_remote = remote,
     rq_tls = False, rq_cookie = None, rq_query = (\<lambda>_. []), rq_body = no_body\<rparr>"

section \<open>Status codes\<close>

definition StatusOK :: nat where "StatusOK = 200"
definition StatusBadRequest :: nat where "StatusBadRequest = 400"
definition StatusUnauthorized :: nat where "StatusUnauthorized = 401"
definition StatusForbidden :: nat where "StatusForbidden = 403"
definition StatusNotFound :: nat where "StatusNotFound = 404"
definition StatusMethodNotAllowed :: nat where "StatusMethodNotAllowed = 405"
definition StatusProxyAuthRequired :: nat where "StatusProxyAuthRequired = 407"
definition StatusConflict :: nat where "StatusConflict = 409"
definition StatusTooManyRequests :: nat where "StatusTooManyRequests = 429"
definition StatusInternalServerError :: nat where "StatusInternalServerError = 500"
definition StatusBadGateway :: nat where "StatusBadGateway = 502"
definition StatusServiceUnavailable :: nat where "StatusServiceUnavailable = 503"

lemmas status_defs = StatusOK_def StatusBadRequest_def StatusUnauthorized_def StatusForbidden_def
  StatusNotFound_def StatusMethodNotAllowed_def StatusProxyAuthRequired_def StatusConflict_def
  StatusTooManyRequests_def StatusInternalServerError_def StatusBadGateway_def
  StatusServiceUnavailable_def

section \<open>Outcomes\<close>

text \<open>The \<^verbatim>\<open>Set-Cookie\<close> of a response; name, path, \<^verbatim>\<open>HttpOnly\<close> and \<^verbatim>\<open>SameSite\<close> never vary.\<close>

record cookie =
  ck_value :: string
  ck_domain :: string
  ck_secure :: bool
  ck_max_age :: int

record route_info =
  ri_url :: string
  ri_tls :: bool
  ri_hours :: int
  ri_renew :: bool

record metrics_view =
  mv_sessions :: "session_info list"
  mv_route_stats :: "string \<Rightarrow> int option"
  mv_failures :: "failure_row list"
  mv_access :: "access_row list"
  mv_event_stats :: "string \<Rightarrow> int option"
  mv_recent :: "event list"
  mv_bans :: "banned_ip list"

datatype payload =
    Plain string
  | Failed string
  | OkTrue
  | AuthUrlIs string
  | UserWithGroups user "group list"
  | NewUser user
  | Accessible "route_info list"
  | ExpiresAt time
  | UserList "(user \<times> group list) list"
  | GroupList "group list"
  | NewGroup group
  | InviteList "invite list"
  | NewInvite invite string
  | RouteList "route list"
  | NewRoute route string
  | NewRange string int string
  | SettingsAre settings
  | Throttling "throttle_policy list" "banned_ip list"
  | MetricsAre metrics_view
  | OwnSessions "session_info list" int
  | Greeting string string
  | Healthy

record response =
  rs_status :: nat
  rs_cookie :: "cookie option"
  rs_retry :: "int option"
  rs_body :: payload

text \<open>What \<^verbatim>\<open>createReverseProxy\<close>'s director puts on the outgoing request.\<close>

record forwarded =
  fw_target :: string
  fw_host :: string
  fw_origin :: string
  fw_proxy :: string
  fw_for :: "string option"

text \<open>
  A handler writes a response, forwards to a backend, serves from a directory or a file, or never
  returns. \<open>Panicked\<close> is a Go panic, which \<^verbatim>\<open>net/http\<close> turns into a dropped connection.
\<close>

datatype outcome =
    Respond response
  | Forward forwarded
  | ServeDir string
  | ServeFile string string
  | NeverReturns
  | Panicked

definition http_error :: "nat \<Rightarrow> string \<Rightarrow> response" where
  "http_error code msg = \<lparr>rs_status = code, rs_cookie = None, rs_retry = None, rs_body = Plain msg\<rparr>"

definition fail :: "nat \<Rightarrow> string \<Rightarrow> response" where
  "fail code msg = \<lparr>rs_status = code, rs_cookie = None, rs_retry = None, rs_body = Failed msg\<rparr>"

definition ok :: "payload \<Rightarrow> response" where
  "ok v = \<lparr>rs_status = StatusOK, rs_cookie = None, rs_retry = None, rs_body = v\<rparr>"

lemma response_sel [simp]:
  "rs_status (fail c m) = c" "rs_status (http_error c m) = c" "rs_status (ok v) = StatusOK"
  "rs_cookie (fail c m) = None" "rs_cookie (ok v) = None" "rs_body (ok v) = v" "rs_body (fail c m) = Failed m"
  by (simp_all add: fail_def http_error_def ok_def)

text \<open>\<^verbatim>\<open>extractClientIP\<close>: the host part of the remote address, or all of it.\<close>

definition extractClientIP :: "request \<Rightarrow> string" where
  "extractClientIP r = (case split_host_port (rq_remote r) of None \<Rightarrow> rq_remote r | Some (ip, _) \<Rightarrow> ip)"

text \<open>Only for the debug log.\<close>

definition hasSessionCookie :: "request \<Rightarrow> bool" where
  "hasSessionCookie r \<longleftrightarrow> rq_cookie r \<noteq> None"

end
