(* ===== verification/Limiter.thy ===== *)
theory Limiter
  imports ThrottleStore
begin

text \<open>
  proxy/limiter.go: the per-address token buckets, failure counters and the in-memory ban set
  that mirrors the \<^verbatim>\<open>banned_ips\<close> table. An operation reads the clock once (\<open>now\<close>); the mutexes of the
  source make each of them atomic. \<open>has_store\<close> says whether \<^verbatim>\<open>authStore\<close> is set.
\<close>

section \<open>State\<close>

definition ipBucketIdle :: duration where
  "ipBucketIdle = 30 * Minute"

record ipBucket =
  bk_tier :: string
  bk_tokens :: rat
  bk_lastRefill :: time
  bk_failCount :: int
  bk_windowStart :: time
  bk_lastSeen :: time

record limiter =
  ipBuckets :: "string \<Rightarrow> ipBucket option"
  policies :: "string \<Rightarrow> throttle_policy option"
  banned :: "string \<Rightarrow> time option"

definition limiter0 :: limiter where
  "limiter0 = \<lparr>ipBuckets = (\<lambda>_. None), policies = (\<lambda>_. None), banned = (\<lambda>_. None)\<rparr>"

section \<open>The ban set\<close>

definition ban_live :: "time \<Rightarrow> time \<Rightarrow> bool" where
  "ban_live now e \<longleftrightarrow> is_zero e \<or> \<not> e < now"

definition ban_del :: "string \<Rightarrow> limiter \<Rightarrow> limiter" where
  "ban_del ip lm = lm\<lparr>banned := (banned lm)(ip := None)\<rparr>"

definition ban_set :: "string \<times> time \<Rightarrow> limiter \<Rightarrow> limiter" where
  "ban_set e lm = lm\<lparr>banned := (banned lm)(fst e \<mapsto> snd e)\<rparr>"

definition ban_replace :: "(string \<Rightarrow> time option) \<Rightarrow> limiter \<Rightarrow> limiter" where
  "ban_replace m lm = lm\<lparr>banned := m\<rparr>"

definition ban_has :: "time \<Rightarrow> string \<Rightarrow> limiter \<Rightarrow> bool \<times> limiter" where
  "ban_has now ip lm =
     (case banned lm ip of
        None \<Rightarrow> (False, lm)
      | Some e \<Rightarrow> if is_zero e then (True, lm)
                  else if e < now then (False, ban_del ip lm)
                  else (True, lm))"

definition IsBanned :: "time \<Rightarrow> string \<Rightarrow> limiter \<Rightarrow> bool \<times> limiter" where
  "IsBanned now ip lm = ban_has now ip lm"

section \<open>Policies and buckets\<close>

definition policyFor :: "limiter \<Rightarrow> string \<Rightarrow> throttle_policy option" where
  "policyFor lm tier = policies lm tier"

definition group_tier :: "int \<Rightarrow> string" where
  "group_tier i = ''group:'' @ itoa i"

fun ResolveTier :: "limiter \<Rightarrow> int list \<Rightarrow> string" where
  "ResolveTier lm [] = TierSignedIn"
| "ResolveTier lm (i # is) =
     (case policies lm (group_tier i) of
        Some p \<Rightarrow> if tp_enabled p then group_tier i else ResolveTier lm is
      | None \<Rightarrow> ResolveTier lm is)"

definition new_bucket :: "time \<Rightarrow> ipBucket" where
  "new_bucket now = \<lparr>bk_tier = TierAnonymous, bk_tokens = 0, bk_lastRefill = zero_time,
     bk_failCount = 0, bk_windowStart = zero_time, bk_lastSeen = now\<rparr>"

definition bucketFor :: "time \<Rightarrow> string \<Rightarrow> limiter \<Rightarrow> ipBucket" where
  \<comment> \<open>the caller stores the bucket back, which is \<^verbatim>\<open>LoadOrStore\<close> and the mutation through the pointer\<close>
  "bucketFor now ip lm = (case ipBuckets lm ip of Some b \<Rightarrow> b | None \<Rightarrow> new_bucket now)"

definition put_bucket :: "string \<Rightarrow> ipBucket \<Rightarrow> limiter \<Rightarrow> limiter" where
  "put_bucket ip b lm = lm\<lparr>ipBuckets := (ipBuckets lm)(ip \<mapsto> b)\<rparr>"

definition SetTier :: "time \<Rightarrow> string \<Rightarrow> string \<Rightarrow> limiter \<Rightarrow> limiter" where
  "SetTier now ip tier lm =
     (let b = bucketFor now ip lm; b1 = (if bk_tier b \<noteq> tier then b\<lparr>bk_tier := tier\<rparr> else b)
      in put_bucket ip (b1\<lparr>bk_lastSeen := now\<rparr>) lm)"

section \<open>Allow\<close>

definition capacity :: "throttle_policy \<Rightarrow> rat" where
  "capacity p = (let burst = fl (of_int (tp_burst p)) in if burst < 1 then 1 else burst)"

definition refill :: "throttle_policy \<Rightarrow> time \<Rightarrow> ipBucket \<Rightarrow> rat" where
  "refill p now b =
     (let t = (if is_zero (bk_lastRefill b) then capacity p
               else fl (bk_tokens b + fl (secs (time_sub now (bk_lastRefill b)) * tp_rate p)))
      in if capacity p < t then capacity p else t)"

definition limited :: "throttle_policy option \<Rightarrow> bool" where
  "limited p \<longleftrightarrow> (case p of None \<Rightarrow> False | Some p \<Rightarrow> tp_enabled p \<and> \<not> tp_rate p \<le> 0)"

definition retry_after :: "throttle_policy \<Rightarrow> rat \<Rightarrow> int" where
  "retry_after p t = wrap64 (float_to_int (fl (fl (1 - t) / tp_rate p)) + 1)"

definition Allow :: "time \<Rightarrow> string \<Rightarrow> limiter \<Rightarrow> (bool \<times> int) \<times> limiter" where
  "Allow now ip lm =
     (let b = bucketFor now ip lm; pol = policyFor lm (bk_tier b)
      in if \<not> limited pol then ((True, 0), put_bucket ip (b\<lparr>bk_lastSeen := now\<rparr>) lm)
         else let p = the pol; t = refill p now b; b1 = b\<lparr>bk_lastRefill := now, bk_lastSeen := now\<rparr>
           in if 1 \<le> t then ((True, 0), put_bucket ip (b1\<lparr>bk_tokens := fl (t - 1)\<rparr>) lm)
              else ((False, retry_after p t), put_bucket ip (b1\<lparr>bk_tokens := t\<rparr>) lm))"

section \<open>Failures and bans\<close>

definition Ban ::
  "lib \<Rightarrow> bool \<Rightarrow> time \<Rightarrow> string \<Rightarrow> string \<Rightarrow> string \<Rightarrow> int \<Rightarrow> limiter \<times> db \<Rightarrow> limiter \<times> db" where
  "Ban L has_store now ip reason tier durationSec = (\<lambda>(lm, d).
     (let expiry = (if 0 < durationSec then time_add now (dur_mul durationSec Second) else zero_time);
          exp = (if 0 < durationSec then Some expiry else None)
      in (ban_set (ip, expiry) lm,
          if has_store then fst (InsertBan L now d ip reason tier exp) else d)))"

definition Unban :: "lib \<Rightarrow> bool \<Rightarrow> string \<Rightarrow> limiter \<times> db \<Rightarrow> limiter \<times> db" where
  "Unban L has_store ip = (\<lambda>(lm, d).
     (ban_del ip lm, if has_store then fst (DeleteBan L d ip) else d))"

definition BanIP :: "lib \<Rightarrow> bool \<Rightarrow> time \<Rightarrow> string \<Rightarrow> int \<Rightarrow> limiter \<times> db \<Rightarrow> limiter \<times> db" where
  "BanIP L has_store now ip durationSec = Ban L has_store now ip ''manual'' ''manual'' durationSec"

definition UnbanIP :: "lib \<Rightarrow> bool \<Rightarrow> string \<Rightarrow> limiter \<times> db \<Rightarrow> limiter \<times> db" where
  "UnbanIP L has_store ip = Unban L has_store ip"

definition count_failure :: "throttle_policy \<Rightarrow> time \<Rightarrow> ipBucket \<Rightarrow> bool \<times> ipBucket" where
  "count_failure p now b =
     (let window = dur_mul (tp_ban_window p) Second;
          b1 = (if is_zero (bk_windowStart b) \<or> (0 < window \<and> window < time_sub now (bk_windowStart b))
                then b\<lparr>bk_windowStart := now, bk_failCount := 0\<rparr> else b);
          b2 = b1\<lparr>bk_failCount := wrap64 (bk_failCount b1 + 1), bk_lastSeen := now\<rparr>
      in if tp_ban_threshold p \<le> bk_failCount b2
         then (True, b2\<lparr>bk_failCount := 0, bk_windowStart := zero_time\<rparr>) else (False, b2))"

definition ban_reason_text :: "throttle_policy \<Rightarrow> string \<Rightarrow> string" where
  "ban_reason_text p tier = ''auto: '' @ itoa (tp_ban_threshold p) @ '' failures within '' @
     itoa (tp_ban_window p) @ ''s ('' @ tier @ '')''"

definition RecordFailure :: "lib \<Rightarrow> bool \<Rightarrow> time \<Rightarrow> string \<Rightarrow> limiter \<times> db \<Rightarrow> limiter \<times> db" where
  "RecordFailure L has_store now ip = (\<lambda>(lm, d).
     (let b = bucketFor now ip lm; tier = bk_tier b
      in case policyFor lm tier of
           None \<Rightarrow> (put_bucket ip (b\<lparr>bk_lastSeen := now\<rparr>) lm, d)
         | Some p \<Rightarrow>
             if \<not> tp_ban_enabled p \<or> tp_ban_threshold p \<le> 0
             then (put_bucket ip (b\<lparr>bk_lastSeen := now\<rparr>) lm, d)
             else let (tripped, b') = count_failure p now b; lm' = put_bucket ip b' lm
               in if tripped then Ban L has_store now ip (ban_reason_text p tier) tier (tp_ban_duration p) (lm', d)
                  else (lm', d)))"

definition GetActiveBans :: "lib \<Rightarrow> bool \<Rightarrow> time \<Rightarrow> db \<Rightarrow> banned_ip list" where
  "GetActiveBans L has_store now d =
     (if \<not> has_store then []
      else case ThrottleStore.GetActiveBans L now d of Inl e \<Rightarrow> [] | Inr bans \<Rightarrow> bans)"

section \<open>Reload and sweep\<close>

definition expiry_of :: "banned_ip \<Rightarrow> time" where
  "expiry_of b = (case ban_expires b of Some e \<Rightarrow> e | None \<Rightarrow> zero_time)"

definition reloadThrottle :: "lib \<Rightarrow> bool \<Rightarrow> time \<Rightarrow> db \<Rightarrow> limiter \<Rightarrow> limiter" where
  "reloadThrottle L has_store now d lm =
     (if \<not> has_store then lm
      else let lm1 = (case GetThrottlePolicies L d of
                 Inl e \<Rightarrow> lm
               | Inr ps \<Rightarrow> lm\<lparr>policies := fold (\<lambda>p m. m(tp_tier p \<mapsto> p)) ps Map.empty\<rparr>)
        in case ThrottleStore.GetActiveBans L now d of
             Inl e \<Rightarrow> lm1
           | Inr bans \<Rightarrow> ban_replace (fold (\<lambda>b m. m(ban_ip b \<mapsto> expiry_of b)) bans Map.empty) lm1)"

definition sweepBuckets :: "time \<Rightarrow> limiter \<Rightarrow> limiter" where
  "sweepBuckets now lm =
     (let cutoff = time_add now (- ipBucketIdle)
      in lm\<lparr>ipBuckets := (\<lambda>ip. case ipBuckets lm ip of
             Some b \<Rightarrow> if bk_lastSeen b < cutoff then None else Some b | None \<Rightarrow> None)\<rparr>)"

section \<open>Buckets are independent of one another and of the bans\<close>

lemma put_bucket_sel [simp]:
  "ipBuckets (put_bucket ip b lm) ip' = (if ip' = ip then Some b else ipBuckets lm ip')"
  "policies (put_bucket ip b lm) = policies lm" "banned (put_bucket ip b lm) = banned lm"
  by (simp_all add: put_bucket_def)

lemma bucketFor_put [simp]: "bucketFor now ip' (put_bucket ip b lm) = (if ip' = ip then b else bucketFor now ip' lm)"
  by (simp add: bucketFor_def)

lemma ban_ops_sel [simp]:
  "ipBuckets (ban_set e lm) = ipBuckets lm" "policies (ban_set e lm) = policies lm"
  "ipBuckets (ban_del ip lm) = ipBuckets lm" "policies (ban_del ip lm) = policies lm"
  "ipBuckets (ban_replace m lm) = ipBuckets lm" "policies (ban_replace m lm) = policies lm"
  by (simp_all add: ban_set_def ban_del_def ban_replace_def)

lemma policyFor_put [simp]: "policyFor (put_bucket ip b lm) t = policyFor lm t"
  by (simp add: policyFor_def)

lemma Allow_frame [frame_simps]:
  "policies (snd (Allow now ip lm)) = policies lm" "banned (snd (Allow now ip lm)) = banned lm"
  "ip' \<noteq> ip \<Longrightarrow> ipBuckets (snd (Allow now ip lm)) ip' = ipBuckets lm ip'"
  by (simp_all add: Allow_def Let_def)

section \<open>The token bucket\<close>

lemma capacity_ge_1: "1 \<le> capacity p"
  by (simp add: capacity_def Let_def)

lemma refill_le: "refill p now b \<le> capacity p"
  by (simp add: refill_def Let_def)

text \<open>A bucket whose tokens are never negative and whose last refill is not in the future.\<close>

definition bucket_ok :: "time \<Rightarrow> ipBucket \<Rightarrow> bool" where
  "bucket_ok now b \<longleftrightarrow> 0 \<le> bk_tokens b \<and> bk_lastRefill b \<le> now \<and> 0 \<le> bk_failCount b"

definition limiter_ok :: "time \<Rightarrow> limiter \<Rightarrow> bool" where
  "limiter_ok now lm \<longleftrightarrow> (\<forall>ip b. ipBuckets lm ip = Some b \<longrightarrow> bucket_ok now b)"

lemma bucketFor_ok: "limiter_ok now lm \<Longrightarrow> 0 \<le> now \<Longrightarrow> bucket_ok now (bucketFor now ip lm)"
  by (auto simp: limiter_ok_def bucketFor_def new_bucket_def bucket_ok_def zero_time_def split: option.splits)

lemma limiter_ok_later: "limiter_ok now lm \<Longrightarrow> now \<le> now' \<Longrightarrow> limiter_ok now' lm"
  by (fastforce simp: limiter_ok_def bucket_ok_def)

lemma refill_nonneg:
  assumes "bucket_ok now b" and "limited (Some p)"
  shows "0 \<le> refill p now b"
proof -
  have "0 \<le> fl (bk_tokens b + fl (secs (time_sub now (bk_lastRefill b)) * tp_rate p))"
    using assms
    by (intro fl_nonneg add_nonneg_nonneg mult_nonneg_nonneg secs_nonneg)
      (simp_all add: bucket_ok_def limited_def time_sub_def)
  with capacity_ge_1 [of p] show ?thesis by (simp add: refill_def Let_def)
qed

lemma put_bucket_ok: "limiter_ok now lm \<Longrightarrow> bucket_ok now b \<Longrightarrow> limiter_ok now (put_bucket ip b lm)"
  by (simp add: limiter_ok_def)

lemma Allow_ok:
  assumes "limiter_ok now lm" and "0 \<le> now"
  shows "limiter_ok now (snd (Allow now ip lm))"
proof (cases "policyFor lm (bk_tier (bucketFor now ip lm))")
  case None
  with bucketFor_ok [OF assms, of ip] assms(1) show ?thesis
    by (simp add: Allow_def Let_def limited_def put_bucket_ok bucket_ok_def)
next
  case (Some p)
  note b = bucketFor_ok [OF assms, of ip]
  show ?thesis
  proof (cases "limited (Some p)")
    case True
    with refill_nonneg [OF b True] b assms(1) Some show ?thesis
      by (auto simp: Allow_def Let_def bucket_ok_def intro!: put_bucket_ok fl_nonneg)
  next
    case False
    with b assms(1) Some show ?thesis
      by (simp add: Allow_def Let_def put_bucket_ok bucket_ok_def)
  qed
qed

text \<open>
  C32: a \<open>Retry-After\<close> is honest. A client that is refused and comes back after the announced
  number of seconds (or later) is let through, whatever the floating-point rounding of the refill
  did in between. (The bound on \<open>r\<close> is what a \<^verbatim>\<open>time.Duration\<close> can hold.)
\<close>

theorem Allow_retry_honest:
  assumes "Allow now ip lm = ((False, r), lm')" and "limiter_ok now lm" and "0 \<le> now"
    and "0 < r" and "r \<le> 9223372036" and "time_add now (r * Second) \<le> now'"
  shows "fst (Allow now' ip lm') = (True, 0)"
proof -
  define b where "b = bucketFor now ip lm"
  obtain p where p: "policyFor lm (bk_tier b) = Some p" "limited (Some p)"
    using assms(1) by (cases "policyFor lm (bk_tier b)") (auto simp: Allow_def Let_def limited_def b_def split: if_splits)
  define t where "t = refill p now b"
  define b1 where "b1 = b\<lparr>bk_lastRefill := now, bk_lastSeen := now, bk_tokens := t\<rparr>"
  have t: "\<not> 1 \<le> t" and r: "r = retry_after p t" and lm': "lm' = put_bucket ip b1 lm"
    using assms(1) p by (auto simp: Allow_def Let_def b_def t_def b1_def split: if_splits)
  have t0: "0 \<le> t" using refill_nonneg [OF bucketFor_ok [OF assms(2,3), of ip] p(2)] by (simp add: t_def b_def)
  have rate: "0 < tp_rate p" using p(2) by (simp add: limited_def)
  define y where "y = fl (1 - t)"
  define x where "x = fl (y / tp_rate p)"
  have y: "0 \<le> y" "1 - t - 1 / 2 ^ 54 \<le> y"
    using t t0 fl_error_unit [of "1 - t"] fl_nonneg [of "1 - t"] unfolding y_def by linarith+
  have x: "0 \<le> x" unfolding x_def using y(1) rate by (intro fl_nonneg) simp
  have "r = wrap64 (float_to_int x + 1)" using r by (simp add: retry_after_def x_def y_def)
  have rx: "r = \<lfloor>x\<rfloor> + 1"
  proof (cases "int64 (\<lfloor>x\<rfloor> + 1)")
    case True
    with x have "int64 \<lfloor>x\<rfloor>" by (simp add: int64_def)
    with x True \<open>r = wrap64 (float_to_int x + 1)\<close> show ?thesis by (simp add: float_to_int_def Let_def)
  next
    case False
    have "r < 0"
    proof (cases "int64 \<lfloor>x\<rfloor>")
      case True
      with False x have "\<lfloor>x\<rfloor> = 2 ^ 63 - 1" by (simp add: int64_def floor_eq_iff)
      with x True \<open>r = wrap64 (float_to_int x + 1)\<close> show ?thesis
        by (simp add: float_to_int_def Let_def wrap64_def)
    next
      case False
      with x \<open>r = wrap64 (float_to_int x + 1)\<close> show ?thesis
        by (simp add: float_to_int_def Let_def wrap64_def)
    qed
    with assms(4) show ?thesis by simp
  qed
  have r0: "0 \<le> r" "r < 2 ^ 53" using assms(4,5) by simp_all
  have "y / tp_rate p < of_int r"
  proof (rule ccontr)
    assume "\<not> y / tp_rate p < of_int r"
    then have "fl (of_int r) \<le> x" unfolding x_def using r0 by (intro fl_mono) simp_all
    then show False using fl_int [OF r0] rx by linarith
  qed
  then have yr: "y \<le> of_int r * tp_rate p" using rate by (simp add: field_simps)
  define e where "e = secs (time_sub now' now)"
  have "r * Second \<le> time_sub now' now"
    using assms(4-6) by (simp add: time_sub_def time_add_def Second_def)
  then have e: "of_int r \<le> e" unfolding e_def by (rule secs_mono_whole [OF r0])
  then have "of_int r * tp_rate p \<le> e * tp_rate p" using rate by simp
  with yr have "fl y \<le> fl (e * tp_rate p)" using y(1) by (intro fl_mono) simp_all
  moreover have "fl y = y" using t by (simp add: y_def fl_idem)
  ultimately have "1 - 1 / 2 ^ 54 \<le> t + fl (e * tp_rate p)" using y(2) by linarith
  then have "1 \<le> fl (t + fl (e * tp_rate p))" by (rule fl_near_one)
  then have "1 \<le> refill p now' b1"
    using capacity_ge_1 [of p] by (simp add: refill_def Let_def b1_def e_def)
  moreover have "bk_tier b1 = bk_tier b" by (simp add: b1_def)
  ultimately show ?thesis using p by (simp add: Allow_def Let_def lm')
qed

definition one_per_second :: throttle_policy where
  "one_per_second = \<lparr>tp_tier = TierAnonymous, tp_enabled = True, tp_rate = 1, tp_burst = 3,
     tp_ban_enabled = True, tp_ban_threshold = 3, tp_ban_window = 10, tp_ban_duration = 60\<rparr>"

definition throttled :: limiter where
  "throttled = limiter0\<lparr>policies := [TierAnonymous \<mapsto> one_per_second]\<rparr>"

definition drained :: limiter where
  "drained = put_bucket ''lan'' (new_bucket 0\<lparr>bk_lastRefill := Second\<rparr>) throttled"

lemma drained_ok: "limiter_ok Second drained"
  by (simp add: drained_def throttled_def limiter0_def limiter_ok_def put_bucket_def bucket_ok_def new_bucket_def)

lemma one_per_second_sel [simp]:
  "tp_rate one_per_second = 1" "tp_enabled one_per_second" "tp_burst one_per_second = 3"
  "tp_ban_enabled one_per_second" "tp_ban_threshold one_per_second = 3" "tp_ban_window one_per_second = 10"
  "tp_ban_duration one_per_second = 60"
  by (simp_all add: one_per_second_def)

lemma drained_refused: "\<exists>lm'. Allow Second ''lan'' drained = ((False, 2), lm')"
proof -
  have b: "bucketFor Second ''lan'' drained = new_bucket 0\<lparr>bk_lastRefill := Second\<rparr>" by (simp add: drained_def)
  have pol: "policyFor drained TierAnonymous = Some one_per_second"
    by (simp add: policyFor_def drained_def throttled_def)
  have "refill one_per_second Second (new_bucket 0\<lparr>bk_lastRefill := Second\<rparr>) = 0"
    using capacity_ge_1 [of one_per_second] by (simp add: refill_def Let_def new_bucket_def time_defs)
  moreover have "retry_after one_per_second 0 = 2"
    by (simp add: retry_after_def float_to_int_def int64_def wrap64_def)
  moreover have "bk_tier (new_bucket 0) = TierAnonymous" by (simp add: new_bucket_def)
  ultimately show ?thesis by (simp add: Allow_def Let_def b pol limited_def)
qed

theorem Allow_retry_honest_witness:
  "\<exists>lm'. Allow Second ''lan'' drained = ((False, 2), lm') \<and> fst (Allow (3 * Second) ''lan'' lm') = (True, 0)"
proof -
  obtain lm' where a: "Allow Second ''lan'' drained = ((False, 2), lm')" using drained_refused by blast
  from Allow_retry_honest [OF a drained_ok, of "3 * Second"] a show ?thesis by (simp add: time_defs)
qed

subsection \<open>Bursts\<close>

primrec allow_run :: "time \<Rightarrow> string \<Rightarrow> nat \<Rightarrow> limiter \<Rightarrow> bool list" where
  "allow_run now ip 0 lm = []"
| "allow_run now ip (Suc n) lm =
     fst (fst (Allow now ip lm)) # allow_run now ip n (snd (Allow now ip lm))"

lemma capacity_burst: "1 \<le> tp_burst p \<Longrightarrow> tp_burst p < 2 ^ 53 \<Longrightarrow> capacity p = of_int (tp_burst p)"
  by (simp add: capacity_def Let_def fl_int)

lemma refill_same_instant:
  assumes "bk_lastRefill b = now" "now \<noteq> 0" "bk_tokens b = of_int k" "0 \<le> k" "k \<le> tp_burst p"
    and "1 \<le> tp_burst p" "tp_burst p < 2 ^ 53"
  shows "refill p now b = of_int k"
  using assms capacity_burst [of p] fl_int [of k] by (auto simp: refill_def is_zero_def zero_time_def)

lemma Allow_at:
  assumes "policyFor lm (bk_tier b) = Some p" "limited (Some p)" "b = bucketFor now ip lm"
    and "refill p now b = of_int k" "0 \<le> k" "k < 2 ^ 53"
  shows "Allow now ip lm =
    (if 1 \<le> k then ((True, 0), put_bucket ip (b\<lparr>bk_lastRefill := now, bk_lastSeen := now, bk_tokens := of_int (k - 1)\<rparr>) lm)
     else ((False, retry_after p (of_int k)), put_bucket ip (b\<lparr>bk_lastRefill := now, bk_lastSeen := now, bk_tokens := of_int k\<rparr>) lm))"
proof -
  have "1 \<le> k \<Longrightarrow> fl (of_int k - 1) = of_int (k - 1)" using fl_int [of "k - 1"] assms(6) by simp
  with assms show ?thesis by (simp add: Allow_def Let_def del: of_int_diff)
qed

lemma allow_run_tokens:
  assumes "policyFor lm (bk_tier b) = Some p" "limited (Some p)" "1 \<le> tp_burst p" "tp_burst p < 2 ^ 53"
    and "ipBuckets lm ip = Some b" "bk_lastRefill b = now" "now \<noteq> 0" "bk_tokens b = of_int (int k)"
    and "int k \<le> tp_burst p"
  shows "allow_run now ip n lm = replicate (min n k) True @ replicate (n - k) False"
  using assms
proof (induction n arbitrary: lm b k)
  case (Suc n)
  have b: "b = bucketFor now ip lm" using Suc.prems(5) by (simp add: bucketFor_def)
  have rf: "refill p now b = of_int (int k)" using Suc.prems by (intro refill_same_instant) simp_all
  have a: "Allow now ip lm =
    (if 1 \<le> int k then ((True, 0), put_bucket ip (b\<lparr>bk_lastRefill := now, bk_lastSeen := now, bk_tokens := of_int (int k - 1)\<rparr>) lm)
     else ((False, retry_after p (of_int (int k))), put_bucket ip (b\<lparr>bk_lastRefill := now, bk_lastSeen := now, bk_tokens := of_int (int k)\<rparr>) lm))"
    using Suc.prems by (intro Allow_at [OF _ _ b rf]) simp_all
  show ?case
  proof (cases k)
    case 0
    let ?b = "b\<lparr>bk_lastRefill := now, bk_lastSeen := now, bk_tokens := 0\<rparr>"
    have "allow_run now ip n (put_bucket ip ?b lm) = replicate (min n 0) True @ replicate (n - 0) False"
      using Suc.prems 0 by (intro Suc.IH [of _ ?b]) simp_all
    with a 0 show ?thesis by simp
  next
    case (Suc j)
    let ?b = "b\<lparr>bk_lastRefill := now, bk_lastSeen := now, bk_tokens := of_int (int j)\<rparr>"
    have "allow_run now ip n (put_bucket ip ?b lm) = replicate (min n j) True @ replicate (n - j) False"
      using Suc.prems Suc by (intro Suc.IH [of _ ?b]) simp_all
    with a Suc show ?thesis by simp
  qed
qed simp

text \<open>
  C31: a burst is exactly as large as configured. Of \<open>n\<close> requests that a new address makes at one
  instant under an enabled anonymous policy, the first \<open>burst\<close> are served and all others are
  refused.
\<close>

theorem Allow_burst_exact:
  assumes "policies lm TierAnonymous = Some p" and "tp_enabled p" and "0 < tp_rate p"
    and "ipBuckets lm ip = None" and "0 < now" and "tp_burst p = int k" and "0 < k" and "k < 2 ^ 53"
  shows "allow_run now ip n lm = replicate (min n k) True @ replicate (n - k) False"
proof (cases n)
  case (Suc m)
  have burst: "1 \<le> tp_burst p" "tp_burst p < 2 ^ 53" using assms(6-8) by simp_all
  have lim: "limited (Some p)" using assms(2,3) by (simp add: limited_def)
  have pol: "policyFor lm TierAnonymous = Some p" using assms(1) by (simp add: policyFor_def)
  have rf: "refill p now (new_bucket now) = of_int (int k)"
    using capacity_burst [OF burst] assms(6) by (simp add: refill_def new_bucket_def is_zero_def zero_time_def)
  let ?b = "new_bucket now\<lparr>bk_lastRefill := now, bk_lastSeen := now, bk_tokens := of_int (int (k - 1))\<rparr>"
  have "Allow now ip lm = ((True, 0), put_bucket ip ?b lm)"
    using Allow_at [of lm "new_bucket now" p now ip "int k"] pol lim rf assms(4,7,8)
    by (simp add: bucketFor_def new_bucket_def of_nat_diff)
  moreover have "allow_run now ip m (put_bucket ip ?b lm) = replicate (min m (k - 1)) True @ replicate (m - (k - 1)) False"
    using pol lim burst assms(5-7) by (intro allow_run_tokens [of _ ?b p]) (simp_all add: new_bucket_def)
  ultimately show ?thesis using Suc assms(7) by (cases k) simp_all
qed simp

theorem Allow_burst_exact_witness:
  "allow_run 5 ''lan'' 5 throttled = replicate 3 True @ replicate 2 False"
  using Allow_burst_exact [of throttled one_per_second "''lan''" 5 3 5]
  by (simp add: throttled_def limiter0_def)

section \<open>Automatic bans\<close>

definition fail_run :: "lib \<Rightarrow> bool \<Rightarrow> string \<Rightarrow> time list \<Rightarrow> limiter \<times> db \<Rightarrow> limiter \<times> db" where
  "fail_run L has_store ip = fold (\<lambda>t. RecordFailure L has_store t ip)"

lemma count_failure_below:
  assumes "bk_windowStart b = t0" "t0 \<noteq> 0" "bk_failCount b = int j" "int j + 1 < tp_ban_threshold p"
    and "int j + 1 < 2 ^ 63"
    and "0 < dur_mul (tp_ban_window p) Second \<longrightarrow> time_sub t t0 \<le> dur_mul (tp_ban_window p) Second"
  shows "count_failure p t b = (False, b\<lparr>bk_failCount := int (Suc j), bk_lastSeen := t\<rparr>)"
  using assms by (auto simp: count_failure_def Let_def is_zero_def zero_time_def int64_def add.commute)

lemma count_failure_trips:
  assumes "bk_windowStart b = t0" "t0 \<noteq> 0" "bk_failCount b = int j" "tp_ban_threshold p \<le> int j + 1"
    and "int j + 1 < 2 ^ 63"
    and "0 < dur_mul (tp_ban_window p) Second \<longrightarrow> time_sub t t0 \<le> dur_mul (tp_ban_window p) Second"
  shows "fst (count_failure p t b)"
  using assms by (auto simp: count_failure_def Let_def is_zero_def zero_time_def int64_def)

lemma count_failure_first:
  assumes "bk_windowStart b = 0"
  shows "count_failure p t b =
    (if tp_ban_threshold p \<le> 1
     then (True, b\<lparr>bk_failCount := 0, bk_windowStart := zero_time, bk_lastSeen := t\<rparr>)
     else (False, b\<lparr>bk_failCount := 1, bk_windowStart := t, bk_lastSeen := t\<rparr>))"
  using assms by (auto simp: count_failure_def Let_def is_zero_def zero_time_def int64_def)

definition ban_policy :: "throttle_policy \<Rightarrow> bool" where
  "ban_policy p \<longleftrightarrow> tp_ban_enabled p \<and> 0 < tp_ban_threshold p"

lemma RecordFailure_counts:
  assumes "policies lm (bk_tier b) = Some p" "ban_policy p" "bucketFor t ip lm = b" "count_failure p t b = (False, b')"
  shows "RecordFailure L hs t ip (lm, d) = (put_bucket ip b' lm, d)"
  using assms by (simp add: RecordFailure_def Let_def policyFor_def ban_policy_def)

lemma RecordFailure_bans:
  assumes "policies lm (bk_tier b) = Some p" "ban_policy p" "bucketFor t ip lm = b" "fst (count_failure p t b)"
  shows "banned (fst (RecordFailure L hs t ip (lm, d))) ip =
    Some (if 0 < tp_ban_duration p then time_add t (dur_mul (tp_ban_duration p) Second) else zero_time)"
  using assms
  by (cases "count_failure p t b") (simp add: RecordFailure_def Let_def policyFor_def ban_policy_def Ban_def ban_set_def)

lemma fail_run_counts:
  assumes "policies lm (bk_tier b) = Some p" "ban_policy p" "ipBuckets lm ip = Some b"
    and "bk_windowStart b = t0" "t0 \<noteq> 0" "bk_failCount b = int j" "int j + int (length ts) < tp_ban_threshold p"
    and "int j + int (length ts) < 2 ^ 63"
    and "\<forall>t \<in> set ts. 0 < dur_mul (tp_ban_window p) Second \<longrightarrow> time_sub t t0 \<le> dur_mul (tp_ban_window p) Second"
  shows "\<exists>b' lm'. fail_run L hs ip ts (lm, d) = (lm', d) \<and> ipBuckets lm' ip = Some b' \<and> bk_tier b' = bk_tier b \<and>
    policies lm' = policies lm \<and> banned lm' = banned lm \<and>
    bk_windowStart b' = t0 \<and> bk_failCount b' = int (j + length ts)"
  using assms
proof (induction ts arbitrary: lm b j)
  case (Cons t ts)
  let ?b = "b\<lparr>bk_failCount := int (Suc j), bk_lastSeen := t\<rparr>"
  have "count_failure p t b = (False, ?b)"
    using Cons.prems by (intro count_failure_below [of b t0]) auto
  then have step: "RecordFailure L hs t ip (lm, d) = (put_bucket ip ?b lm, d)"
    using Cons.prems(1-3) by (intro RecordFailure_counts) (simp_all add: bucketFor_def)
  show ?case
    using Cons.IH [of "put_bucket ip ?b lm" ?b "Suc j"] Cons.prems step by (simp add: fail_run_def)
qed (simp add: fail_run_def)

text \<open>
  C30: the auto-ban trips at the threshold and not before. Of the failures of a new address that
  fall within one window of the first, fewer than the threshold leave it unbanned, and the
  one that reaches the threshold bans it.
\<close>

theorem RecordFailure_threshold:
  assumes "policies lm TierAnonymous = Some p" and "tp_ban_enabled p" and "tp_ban_threshold p = int k"
    and "0 < k" and "k < 2 ^ 62" and "0 \<le> tp_ban_window p" and "tp_ban_window p \<le> 9223372036"
    and "tp_ban_duration p \<le> 9223372036" and "ipBuckets lm ip = None" and "banned lm ip = None"
    and "0 < t0" and "\<forall>t \<in> set ts. t0 \<le> t \<and> t - t0 \<le> tp_ban_window p * Second"
    and "length (t0 # ts) \<le> k"
  shows "fst (IsBanned (last (t0 # ts)) ip (fst (fail_run L hs ip (t0 # ts) (lm, d)))) \<longleftrightarrow> length (t0 # ts) = k"
proof -
  have bp: "ban_policy p" using assms(2-4) by (simp add: ban_policy_def)
  have fresh: "bucketFor t0 ip lm = new_bucket t0" using assms(9) by (simp add: bucketFor_def)
  have win: "dur_mul (tp_ban_window p) Second = tp_ban_window p * Second"
    using assms(6,7) by (intro dur_mul_exact) (simp add: int64_def Second_def)
  have inside: "\<forall>t \<in> set ts. 0 < dur_mul (tp_ban_window p) Second \<longrightarrow> time_sub t t0 \<le> dur_mul (tp_ban_window p) Second"
    using assms(7,12) unfolding win by (fastforce simp: time_sub_def Second_def)
  have live: "fst (IsBanned t ip lm')" if "banned lm' ip = Some (if 0 < tp_ban_duration p
      then time_add t (dur_mul (tp_ban_duration p) Second) else zero_time)" for t lm'
  proof (cases "0 < tp_ban_duration p")
    case True
    then have "dur_mul (tp_ban_duration p) Second = tp_ban_duration p * Second"
      using assms(8) by (intro dur_mul_exact) (simp add: int64_def Second_def)
    with True that show ?thesis by (simp add: IsBanned_def ban_has_def time_add_def Second_def)
  qed (use that in \<open>simp add: IsBanned_def ban_has_def is_zero_def\<close>)
  have tier: "bk_tier (new_bucket t0) = TierAnonymous" "bk_windowStart (new_bucket t0) = 0"
    by (simp_all add: new_bucket_def zero_time_def)
  show ?thesis
  proof (cases "k = 1")
    case True
    then have "fst (count_failure p t0 (new_bucket t0))"
      using assms(3) tier by (simp add: count_failure_first)
    from RecordFailure_bans [OF _ bp fresh this] assms(1,13) tier True show ?thesis
      by (simp add: fail_run_def live)
  next
    case False
    let ?b = "(new_bucket t0)\<lparr>bk_failCount := 1, bk_windowStart := t0, bk_lastSeen := t0\<rparr>"
    let ?lm = "put_bucket ip ?b lm"
    have first: "RecordFailure L hs t0 ip (lm, d) = (?lm, d)"
      using False assms(1,3,4) tier by (intro RecordFailure_counts [OF _ bp fresh]) (simp_all add: count_failure_first)
    have pol: "policies ?lm (bk_tier ?b) = Some p" using assms(1) tier by simp
    have below: "\<exists>b' lm'. fail_run L hs ip us (?lm, d) = (lm', d) \<and> ipBuckets lm' ip = Some b' \<and> bk_tier b' = bk_tier ?b \<and>
        policies lm' = policies ?lm \<and> banned lm' = banned ?lm \<and> bk_windowStart b' = t0 \<and> bk_failCount b' = int (1 + length us)"
      if "set us \<subseteq> set ts" "Suc (length us) < k" for us
      using that assms(3-5,11) inside by (intro fail_run_counts [OF pol bp]) auto
    show ?thesis
    proof (cases "length (t0 # ts) = k")
      case False
      with assms(13) below [of ts] first assms(10) show ?thesis
        by (auto simp: fail_run_def IsBanned_def ban_has_def)
    next
      case True
      with False obtain us u where ts: "ts = us @ [u]" by (cases ts rule: rev_cases) auto
      with below [of us] True obtain b' lm' where run: "fail_run L hs ip us (?lm, d) = (lm', d)"
        "ipBuckets lm' ip = Some b'" "bk_tier b' = TierAnonymous" "policies lm' = policies lm"
        "bk_windowStart b' = t0" "bk_failCount b' = int (Suc (length us))" using tier by auto
      have "fst (count_failure p u b')"
        using run assms(3,5,11) True ts inside by (intro count_failure_trips [of b' t0 "Suc (length us)"]) auto
      from RecordFailure_bans [OF _ bp _ this, of lm' ip] run assms(1) have
        "fst (IsBanned u ip (fst (RecordFailure L hs u ip (lm', d))))" by (intro live) (simp add: bucketFor_def)
      with True first run(1) ts show ?thesis by (simp add: fail_run_def)
    qed
  qed
qed

theorem RecordFailure_threshold_witness:
  "\<not> fst (IsBanned 2 ''lan'' (fst (fail_run plain_lib True ''lan'' [1, 2] (throttled, empty_db)))) \<and>
   fst (IsBanned 3 ''lan'' (fst (fail_run plain_lib True ''lan'' [1, 2, 3] (throttled, empty_db))))"
  using RecordFailure_threshold [of throttled one_per_second 3 "''lan''" 1 "[2]" plain_lib True empty_db]
    RecordFailure_threshold [of throttled one_per_second 3 "''lan''" 1 "[2, 3]" plain_lib True empty_db]
  by (simp add: throttled_def limiter0_def Second_def)

section \<open>How long a ban holds\<close>

lemma banned_Ban: "banned (fst (Ban L hs now ip reason tier dur (lm, d))) =
    (banned lm)(ip \<mapsto> (if 0 < dur then time_add now (dur_mul dur Second) else zero_time))"
  by (simp add: Ban_def ban_set_def Let_def)

lemma IsBanned_live: "fst (IsBanned now ip lm) \<longleftrightarrow> (\<exists>e. banned lm ip = Some e \<and> ban_live now e)"
  by (auto simp: IsBanned_def ban_has_def ban_live_def split: option.splits)

text \<open>
  A ban of \<open>n\<close> seconds holds up to its expiry and ends right after it; a ban of no duration
  holds until it is lifted, and lifting it is immediate.
\<close>

lemma Ban_duration:
  assumes "n \<le> 9223372036" and "0 < now" and "now \<le> t"
  shows "(fst (IsBanned t ip (fst (BanIP L hs now ip n s))) \<longleftrightarrow> n \<le> 0 \<or> t \<le> now + n * Second) \<and>
    \<not> fst (IsBanned t ip (fst (UnbanIP L hs ip (BanIP L hs now ip n s))))"
proof -
  obtain lm d where s: "s = (lm, d)" by (cases s)
  have "0 < n \<Longrightarrow> dur_mul n Second = n * Second"
    using assms(1) by (intro dur_mul_exact) (simp add: int64_def Second_def)
  moreover have "0 < n \<Longrightarrow> 0 < now + n * Second" using assms(2) by (simp add: Second_def)
  ultimately show ?thesis
    by (auto simp: s BanIP_def banned_Ban IsBanned_live ban_live_def time_add_def is_zero_def zero_time_def
        UnbanIP_def Unban_def ban_del_def split: prod.splits)
qed

lemma Ban_duration_witness:
  "fst (IsBanned (61 * Second) ''lan'' (fst (BanIP plain_lib True Second ''lan'' 60 (throttled, empty_db)))) \<and>
   \<not> fst (IsBanned (62 * Second) ''lan'' (fst (BanIP plain_lib True Second ''lan'' 60 (throttled, empty_db))))"
  using Ban_duration [of 60 Second "61 * Second" "''lan''" plain_lib True "(throttled, empty_db)"]
    Ban_duration [of 60 Second "62 * Second" "''lan''" plain_lib True "(throttled, empty_db)"]
  by (simp add: Second_def)

text \<open>
  Beyond what a 64-bit duration holds the expiry wraps into the past. A ban requested for
  9223372037 seconds (292 years) bans nobody, at no time from now on. (The clock bound is the year
  585.)
\<close>

lemma Ban_duration_overflow:
  assumes "2 ^ 64 < now" and "now \<le> t"
  shows "\<not> fst (IsBanned t ip (fst (BanIP L hs now ip 9223372037 s)))"
proof -
  obtain lm d where s: "s = (lm, d)" by (cases s)
  have "dur_mul 9223372037 Second = - 9223372036709551616"
    by (simp add: dur_mul_def Second_def wrap64_def)
  with assms show ?thesis
    by (simp add: s BanIP_def banned_Ban IsBanned_live ban_live_def time_add_def is_zero_def zero_time_def)
qed

lemma Ban_duration_overflow_witness:
  "\<not> fst (IsBanned 63000000000000000000 ''lan'' (fst (BanIP plain_lib True 63000000000000000000 ''lan'' 9223372037 (throttled, empty_db))))"
  by (rule Ban_duration_overflow) simp_all

text \<open>
  The failure window is not a sliding one. It restarts at the first failure after it ends, so
  failures that straddle its end are split over two counts: with a threshold of 3 in 10
  seconds, failures at seconds 1, 10, 12 and 13 leave the address unbanned although the last three are
  3 seconds apart.
\<close>

lemma RecordFailure_tumbling:
  "\<not> fst (IsBanned (13 * Second) ''lan'' (fst (fail_run plain_lib True ''lan''
      [Second, 10 * Second, 12 * Second, 13 * Second] (throttled, empty_db))))"
proof -
  have "dur_mul 10 Second = 10 * Second" by (intro dur_mul_exact) (simp add: int64_def Second_def)
  then show ?thesis
    by (simp add: fail_run_def RecordFailure_def Let_def count_failure_def bucketFor_def new_bucket_def
        throttled_def limiter0_def policyFor_def put_bucket_def time_defs int64_def IsBanned_live)
qed

section \<open>The ban set mirrors the table\<close>

interpretation bans: mirrored_store banned ban_set ban_del fst snd ban_lookup put_ban del_ban ban_ip "\<lambda>b. b"
    expiry_of "\<lambda>b. (ban_ip b, expiry_of b)"
  by unfold_locales (simp_all add: ban_set_def ban_del_def)

interpretation ban_index: keyed_store "\<lambda>m. m" "\<lambda>b m. m(ban_ip b \<mapsto> expiry_of b)" "\<lambda>k m. m(k := None)"
    ban_ip expiry_of
  by unfold_locales simp_all

definition stored_bans :: "db \<Rightarrow> string \<Rightarrow> time option" where
  "stored_bans d ip = map_option expiry_of (ban_lookup d ip)"

definition mirrored :: "time \<Rightarrow> limiter \<Rightarrow> db \<Rightarrow> bool" where
  "mirrored now lm d \<longleftrightarrow> agree (ban_live now) (banned lm) (stored_bans d)"

lemma mirrored_later: "mirrored now lm d \<Longrightarrow> now \<le> now' \<Longrightarrow> mirrored now' lm d"
  unfolding mirrored_def by (erule agree_weaken) (auto simp: ban_live_def)

lemma Ban_mirrored:
  assumes "mirrored t lm d" and "\<not> db_fault L ''InsertBan''" and "Ban L True now ip reason tier n (lm, d) = (lm', d')"
  shows "mirrored t lm' d'"
proof -
  let ?e = "if 0 < n then Some (time_add now (dur_mul n Second)) else None"
  let ?b = "\<lparr>ban_ip = ip, ban_reason = reason, ban_tier = tier, ban_created = sql_now now, ban_expires = ?e\<rparr>"
  have "lm' = ban_set (ban_ip ?b, expiry_of ?b) lm" "d' = put_ban ?b d"
    using assms(2,3) by (auto simp: Ban_def Let_def InsertBan_def expiry_of_def)
  with bans.put_agree [of "ban_live t" lm d ?b] assms(1) show ?thesis
    by (simp add: mirrored_def stored_bans_def [abs_def])
qed

lemma Unban_mirrored:
  assumes "mirrored t lm d" and "\<not> db_fault L ''DeleteBan''" and "Unban L True ip (lm, d) = (lm', d')"
  shows "mirrored t lm' d'"
  using assms bans.del_agree [of "ban_live t" lm d ip]
  by (auto simp: mirrored_def stored_bans_def [abs_def] Unban_def DeleteBan_def)

lemma IsBanned_mirrored: "mirrored now lm d \<Longrightarrow> mirrored now (snd (IsBanned now ip lm)) d"
  using bans.drop_agree [of "ban_live now" lm "stored_bans d" ip]
  by (auto simp: mirrored_def IsBanned_def ban_has_def ban_live_def split: option.splits)

lemma RecordFailure_mirrored:
  assumes "mirrored t lm d" and "\<not> db_fault L ''InsertBan''" and "RecordFailure L True now ip (lm, d) = (lm', d')"
  shows "mirrored t lm' d'"
proof -
  have m: "mirrored t (put_bucket ip b lm) d" for b using assms(1) by (simp add: mirrored_def)
  show ?thesis
    using assms(3) m Ban_mirrored [OF m assms(2)]
    by (auto simp: RecordFailure_def Let_def split: option.splits if_splits prod.splits)
qed

lemma bucket_ops_banned [simp]:
  "banned (SetTier now ip tier lm) = banned lm" "banned (sweepBuckets now lm) = banned lm"
  "banned (snd (Allow now ip lm)) = banned lm"
  by (simp_all add: SetTier_def sweepBuckets_def Let_def frame_simps)

text \<open>
  The driver stores a \<^verbatim>\<open>time.Time\<close> as the text of its local wall clock (\<^verbatim>\<open>2006-01-02 15:04:05.9 -0700 MST\<close>) and
  \<^verbatim>\<open>datetime('now')\<close> is the text of UTC up to the second, so the comparison of the two texts compares the local
  second of the expiry with the second of the present in UTC, and an equal second counts as later, its text
  being the longer one. \<open>off\<close> is the zone's offset, positive in the east.
\<close>

definition text_clock :: "time \<Rightarrow> lib \<Rightarrow> bool" where
  "text_clock off L \<longleftrightarrow> (\<forall>e now. after_now L e now \<longleftrightarrow> now div Second \<le> (e + off) div Second)"

lemma text_clock_east: "text_clock off L \<Longrightarrow> 0 \<le> off \<Longrightarrow> now \<le> e \<Longrightarrow> after_now L e now"
  by (simp add: text_clock_def Second_def zdiv_mono1)

definition dated :: "db \<Rightarrow> bool" where
  \<comment> \<open>no stored expiry is Go's zero time\<close>
  "dated d \<longleftrightarrow> (\<forall>b \<in> set (ban_rows d). ban_expires b \<noteq> Some zero_time)"

lemma live_in_force:
  "text_clock off L \<Longrightarrow> 0 \<le> off \<Longrightarrow> dated d \<Longrightarrow> b \<in> set (ban_rows d) \<Longrightarrow> ban_live now (expiry_of b) \<Longrightarrow> ban_in_force L now b"
  by (fastforce simp: text_clock_east dated_def ban_live_def expiry_of_def ban_in_force_def is_zero_def
      split: option.splits)

lemma reload_mirrored:
  assumes "text_clock off L" "0 \<le> off" "dated d" "db_ok d" "\<not> db_fault L ''GetActiveBans''"
  shows "mirrored now (reloadThrottle L True now d lm) d"
proof -
  obtain bs where bs: "ThrottleStore.GetActiveBans L now d = Inr bs"
    using assms(5) by (simp add: ThrottleStore.GetActiveBans_def)
  note active = active_ban_lookup [OF bs assms(4)]
  have "banned (reloadThrottle L True now d lm) ip =
      (case List.find (\<lambda>b. ban_ip b = ip) (rev bs) of Some b \<Rightarrow> Some (expiry_of b) | None \<Rightarrow> None)" for ip
    by (simp add: reloadThrottle_def Let_def bs ban_replace_def ban_index.lookup_fold_put)
  moreover have "(case List.find (\<lambda>b. ban_ip b = ip) (rev bs) of Some b \<Rightarrow> Some (expiry_of b) | None \<Rightarrow> None) = Some e
      \<longleftrightarrow> stored_bans d ip = Some e" if "ban_live now e" for ip e
  proof (cases "List.find (\<lambda>b. ban_ip b = ip) (rev bs)")
    case (Some b)
    then have "b \<in> set bs" "ban_ip b = ip" by (auto dest: find_in_set)
    with active have "ban_lookup d ip = Some b" by auto
    with Some show ?thesis by (simp add: stored_bans_def)
  next
    case None
    then have out: "\<forall>b \<in> set bs. ban_ip b \<noteq> ip" by (simp add: find_none)
    have "stored_bans d ip \<noteq> Some e"
    proof
      assume "stored_bans d ip = Some e"
      then obtain b where b: "ban_lookup d ip = Some b" "e = expiry_of b" by (auto simp: stored_bans_def)
      then have "b \<in> set (ban_rows d)" "ban_ip b = ip" by (auto simp: ban_lookup_def dest: find_in_set)
      with live_in_force [OF assms(1-3)] that b have "b \<in> set bs" by (simp add: active)
      with out \<open>ban_ip b = ip\<close> show False by blast
    qed
    with None show ?thesis by simp
  qed
  ultimately show ?thesis by (simp add: mirrored_def agree_def)
qed

lemma cleanup_lookup:
  assumes "db_ok d"
  shows "ban_lookup (CleanupExpiredBans L now d) ip =
    (if db_fault L ''CleanupExpiredBans'' then ban_lookup d ip
     else case ban_lookup d ip of Some b \<Rightarrow> if ban_in_force L now b then Some b else None | None \<Rightarrow> None)"
proof -
  have "List.find (\<lambda>b. ban_ip b = ip) (delete_where P rows) =
    (case List.find (\<lambda>b. ban_ip b = ip) rows of Some b \<Rightarrow> if P b then None else Some b | None \<Rightarrow> None)"
    if "distinct (map ban_ip rows)" for P rows
    using that
  proof (induction rows)
    case (Cons b rows)
    then have "ip = ban_ip b \<Longrightarrow> List.find (\<lambda>b. ban_ip b = ip) rows = None"
      by (auto simp: find_none image_iff)
    with Cons show ?case by (auto simp: delete_where_def split: option.splits)
  qed (simp add: delete_where_def)
  from this [of "ban_rows d"] assms show ?thesis
    by (auto simp: CleanupExpiredBans_def ban_lookup_def db_ok_def throttle_ok_def split: option.splits)
qed

lemma ban_lookup_row: "ban_lookup d ip = Some b \<Longrightarrow> b \<in> set (ban_rows d)"
  by (auto simp: ban_lookup_def dest: find_in_set)

lemma cleanup_mirrored:
  assumes "mirrored now lm d" "text_clock off L" "0 \<le> off" "dated d" "db_ok d"
  shows "mirrored now lm (CleanupExpiredBans L now d)"
proof -
  have "stored_bans (CleanupExpiredBans L now d) ip = Some e \<longleftrightarrow> stored_bans d ip = Some e" if "ban_live now e" for ip e
    using that live_in_force [OF assms(2-4)]
    by (auto simp: stored_bans_def cleanup_lookup [OF assms(5)] dest: ban_lookup_row split: option.splits)
  with assms(1) show ?thesis unfolding mirrored_def by (rule agree_right)
qed

section \<open>Every interleaving of the limiter's operations\<close>

text \<open>
  One step of the running throttle: time passes, a handler or the admin API runs one operation, the
  ticker reloads, sweeps or cleans up, or the process restarts (an empty limiter that reloads).
\<close>

inductive throttle_step :: "lib \<Rightarrow> time \<times> limiter \<times> db \<Rightarrow> time \<times> limiter \<times> db \<Rightarrow> bool" for L where
  tick: "now \<le> now' \<Longrightarrow> throttle_step L (now, lm, d) (now', lm, d)"
| check: "IsBanned now ip lm = (b, lm') \<Longrightarrow> throttle_step L (now, lm, d) (now, lm', d)"
| allow: "Allow now ip lm = (r, lm') \<Longrightarrow> throttle_step L (now, lm, d) (now, lm', d)"
| tier: "throttle_step L (now, lm, d) (now, SetTier now ip (ResolveTier lm gs) lm, d)"
| fail: "RecordFailure L True now ip (lm, d) = (lm', d') \<Longrightarrow> throttle_step L (now, lm, d) (now, lm', d')"
| ban: "BanIP L True now ip n (lm, d) = (lm', d') \<Longrightarrow> throttle_step L (now, lm, d) (now, lm', d')"
| unban: "UnbanIP L True ip (lm, d) = (lm', d') \<Longrightarrow> throttle_step L (now, lm, d) (now, lm', d')"
| sweep: "throttle_step L (now, lm, d) (now, sweepBuckets now lm, d)"
| reload: "throttle_step L (now, lm, d) (now, reloadThrottle L True now d lm, d)"
| cleanup: "throttle_step L (now, lm, d) (now, lm, CleanupExpiredBans L now d)"
| restart: "throttle_step L (now, lm, d) (now, reloadThrottle L True now d limiter0, d)"

definition throttle_base :: "time \<times> limiter \<times> db \<Rightarrow> bool" where
  "throttle_base = (\<lambda>(now, lm, d). 2 ^ 64 < now \<and> db_ok d \<and> dated d)"

definition throttle_inv :: "time \<times> limiter \<times> db \<Rightarrow> bool" where
  "throttle_inv = (\<lambda>(now, lm, d). throttle_base (now, lm, d) \<and> mirrored now lm d)"

lemma wrap64_bounds: "- (2 ^ 63) \<le> wrap64 x" "wrap64 x < 2 ^ 63"
  using int64_wrap64 [of x] by (auto simp: int64_def simp del: int64_wrap64)

lemma Ban_db:
  assumes "db_ok d" "dated d" "2 ^ 64 < now" "Ban L hs now ip reason tier n (lm, d) = (lm', d')"
  shows "db_ok d' \<and> dated d'"
proof -
  have "0 < time_add now (dur_mul n Second)"
    using assms(3) wrap64_bounds [of "n * Second"] by (simp add: dur_mul_def time_add_def)
  moreover have "b \<in> set (ban_rows (put_ban x d)) \<Longrightarrow> b \<in> set (ban_rows d) \<or> ban_expires b = ban_expires x" for b x
    by (auto simp: put_ban_def upsert_def sql_simps merge_ban_def split: if_splits)
  ultimately show ?thesis
    using assms InsertBan_ok [OF assms(1)]
    by (auto simp: Ban_def Let_def InsertBan_def dated_def put_ban_ok zero_time_def split: if_splits; fastforce)
qed

lemma RecordFailure_db:
  assumes "db_ok d" "dated d" "2 ^ 64 < now" "RecordFailure L hs now ip (lm, d) = (lm', d')"
  shows "db_ok d' \<and> dated d'"
  using assms(1,2,4) Ban_db [OF assms(1-3)]
  by (auto simp: RecordFailure_def Let_def split: option.splits if_splits prod.splits)

lemma deleted_db:
  "dated d \<Longrightarrow> dated (fst (DeleteBan L d ip))" "dated d \<Longrightarrow> dated (CleanupExpiredBans L now d)"
  by (auto simp: dated_def DeleteBan_def del_ban_def CleanupExpiredBans_def sql_simps)

lemma throttle_step_base:
  assumes "throttle_step L s s'" "throttle_base s"
  shows "throttle_base s'"
  using assms
proof (induction rule: throttle_step.induct)
  case (fail now ip lm d lm' d')
  with RecordFailure_db [of d now L True ip lm lm' d'] show ?case by (simp add: throttle_base_def)
next
  case (ban now ip n lm d lm' d')
  with Ban_db [of d now L True ip "''manual''" "''manual''" n lm lm' d'] show ?case by (simp add: throttle_base_def BanIP_def)
next
  case (unban ip lm d lm' d' now)
  then have "d' = fst (DeleteBan L d ip)" by (auto simp: UnbanIP_def Unban_def)
  with unban DeleteBan_ok [of d L ip] deleted_db(1) [of d L ip] show ?case by (simp add: throttle_base_def)
qed (simp_all add: throttle_base_def CleanupExpiredBans_ok deleted_db)

lemma throttle_step_mirrored:
  assumes "throttle_step L s s'" "throttle_inv s" "text_clock off L" "0 \<le> off" "\<forall>q. \<not> db_fault L q"
  shows "case s' of (now, lm, d) \<Rightarrow> mirrored now lm d"
  using assms
proof (induction rule: throttle_step.induct)
  case (tick now now' lm d)
  then show ?case by (auto simp: throttle_inv_def intro: mirrored_later)
next
  case (check now ip lm b lm' d)
  with IsBanned_mirrored [of now lm d ip] show ?case by (simp add: throttle_inv_def)
next
  case (allow now ip lm r lm' d)
  with bucket_ops_banned(3) [of now ip lm] show ?case by (simp add: throttle_inv_def mirrored_def)
next
  case (fail now ip lm d lm' d')
  with RecordFailure_mirrored [of now lm d L now ip lm' d'] show ?case by (simp add: throttle_inv_def)
next
  case (ban now ip n lm d lm' d')
  with Ban_mirrored [of now lm d L now ip "''manual''" "''manual''" n lm' d'] show ?case by (simp add: throttle_inv_def BanIP_def)
next
  case (unban ip lm d lm' d' now)
  with Unban_mirrored [of now lm d L ip lm' d'] show ?case by (auto simp: UnbanIP_def throttle_inv_def)
qed (simp_all add: throttle_inv_def throttle_base_def mirrored_def [of _ "SetTier now ip tier lm" for now ip tier lm]
    mirrored_def [of _ "sweepBuckets now lm" for now lm] mirrored_def [symmetric] reload_mirrored cleanup_mirrored)

lemma throttle_step_inv:
  assumes "throttle_step L s s'" "throttle_inv s" "text_clock off L" "0 \<le> off" "\<forall>q. \<not> db_fault L q"
  shows "throttle_inv s'"
proof -
  obtain now lm d where s: "s = (now, lm, d)" by (rule prod_cases3)
  obtain now' lm' d' where s': "s' = (now', lm', d')" by (rule prod_cases3)
  show ?thesis
    using throttle_step_base [OF assms(1)] throttle_step_mirrored [OF assms] assms(2) by (simp add: throttle_inv_def s s')
qed

lemma banned_after_reload:
  assumes "text_clock off L" "dated d" "db_ok d" "\<not> db_fault L ''GetActiveBans''"
  shows "fst (IsBanned now ip (reloadThrottle L True now d lm)) \<longleftrightarrow>
    (\<exists>b \<in> set (ban_rows d). ban_ip b = ip \<and> (case ban_expires b of None \<Rightarrow> True
      | Some e \<Rightarrow> now \<le> e \<and> now div Second \<le> (e + off) div Second))"
proof -
  obtain bs where bs: "ThrottleStore.GetActiveBans L now d = Inr bs"
    using assms(4) by (simp add: ThrottleStore.GetActiveBans_def)
  note active = active_ban_lookup [OF bs assms(3)]
  let ?hit = "List.find (\<lambda>b. ban_ip b = ip) (rev bs)"
  have "banned (reloadThrottle L True now d lm) ip = (case ?hit of Some b \<Rightarrow> Some (expiry_of b) | None \<Rightarrow> None)"
    by (simp add: reloadThrottle_def Let_def bs ban_replace_def ban_index.lookup_fold_put)
  then have "fst (IsBanned now ip (reloadThrottle L True now d lm)) \<longleftrightarrow> (\<exists>b. ?hit = Some b \<and> ban_live now (expiry_of b))"
    by (auto simp: IsBanned_live split: option.splits)
  also have "\<dots> \<longleftrightarrow> (\<exists>b \<in> set (ban_rows d). ban_ip b = ip \<and> ban_in_force L now b \<and> ban_live now (expiry_of b))"
  proof
    assume "\<exists>b. ?hit = Some b \<and> ban_live now (expiry_of b)"
    then obtain b where b: "b \<in> set bs" "ban_ip b = ip" "ban_live now (expiry_of b)" by (auto dest: find_in_set)
    then show "\<exists>b \<in> set (ban_rows d). ban_ip b = ip \<and> ban_in_force L now b \<and> ban_live now (expiry_of b)"
      using active by (auto simp: ban_lookup_def dest: find_in_set)
  next
    assume "\<exists>b \<in> set (ban_rows d). ban_ip b = ip \<and> ban_in_force L now b \<and> ban_live now (expiry_of b)"
    then obtain b where b: "b \<in> set (ban_rows d)" "ban_ip b = ip" "ban_in_force L now b" "ban_live now (expiry_of b)" by blast
    have "ban_lookup d ip = Some b"
      unfolding ban_lookup_def using assms(3) b(1,2) by (intro find_unique) (simp_all add: db_ok_def throttle_ok_def)
    with b have in_bs: "b \<in> set bs" by (simp add: active)
    obtain b' where b': "?hit = Some b'" using in_bs b(2) by (cases ?hit) (auto simp: find_none)
    then have "b' \<in> set bs" "ban_ip b' = ip" by (auto dest: find_in_set)
    with active \<open>ban_lookup d ip = Some b\<close> have "b' = b" by auto
    with b b' show "\<exists>b. ?hit = Some b \<and> ban_live now (expiry_of b)" by blast
  qed
  also have "\<dots> \<longleftrightarrow> (\<exists>b \<in> set (ban_rows d). ban_ip b = ip \<and> (case ban_expires b of None \<Rightarrow> True
      | Some e \<Rightarrow> now \<le> e \<and> now div Second \<le> (e + off) div Second))"
    using assms(1,2)
    by (fastforce simp: text_clock_def dated_def ban_live_def expiry_of_def ban_in_force_def is_zero_def split: option.splits)
  finally show ?thesis .
qed


text \<open>
  A ban of one minute under the clock of a zone. East of UTC it is in the table and holds; five hours west, the
  reload of the same instant forgets it.
\<close>

definition zone_lib :: "time \<Rightarrow> lib" where
  "zone_lib off = plain_lib\<lparr>after_now := \<lambda>e now. now div Second \<le> (e + off) div Second\<rparr>"

lemma zone_clock: "text_clock off (zone_lib off)" "\<forall>q. \<not> db_fault (zone_lib off) q"
  by (simp_all add: text_clock_def zone_lib_def plain_lib_def)

lemma minute_ban:
  fixes off :: time
  defines "t \<equiv> 63000000000000000000 :: time"
  obtains lm d where "(throttle_step (zone_lib off))\<^sup>*\<^sup>* (t, reloadThrottle (zone_lib off) True t empty_db limiter0, empty_db) (t, lm, d)"
    "ban_rows d = [\<lparr>ban_ip = ''lan'', ban_reason = ''manual'', ban_tier = ''manual'', ban_created = sql_now t,
      ban_expires = Some (t + 60 * Second)\<rparr>]"
proof -
  obtain lm d where b: "BanIP (zone_lib off) True t ''lan'' 60 (reloadThrottle (zone_lib off) True t empty_db limiter0, empty_db) = (lm, d)"
    by force
  then have r: "(throttle_step (zone_lib off))\<^sup>*\<^sup>* (t, reloadThrottle (zone_lib off) True t empty_db limiter0, empty_db) (t, lm, d)"
    by (intro r_into_rtranclp) (rule throttle_step.ban)
  have "d = put_ban \<lparr>ban_ip = ''lan'', ban_reason = ''manual'', ban_tier = ''manual'', ban_created = sql_now t,
      ban_expires = Some (t + 60 * Second)\<rparr> empty_db"
    using b zone_clock(2) [of off]
    by (auto simp: BanIP_def Ban_def InsertBan_def Let_def time_add_def dur_mul_def int64_def Second_def)
  then have "ban_rows d = [\<lparr>ban_ip = ''lan'', ban_reason = ''manual'', ban_tier = ''manual'', ban_created = sql_now t,
      ban_expires = Some (t + 60 * Second)\<rparr>]"
    by (simp add: put_ban_def upsert_def empty_db_def)
  with r show thesis by (rule that)
qed


end
