(* ===== verification/Access.thy ===== *)
theory Access
  imports Http Limiter
begin

text \<open>
  proxy/auth.go: the access gate. \<open>world\<close> is the state the proxy's request path shares: the database,
  the limiter, the event metrics and the gate's own globals. \<open>auth_decide\<close> is the chain of checks
  of \<open>withAuthForKey\<close> after the route is found, \<open>withAuthForKey\<close> the whole wrapper.
\<close>

section \<open>Cached routes\<close>

record cachedRoute =
  cr_route :: route
  cr_groupSet :: "string list"
  cr_groupIDs :: "int list"
  cr_addrs :: "ip list"
  cr_nets :: "ipnet list"

definition ip_entries :: "string \<Rightarrow> string list" where
  "ip_entries s = filter (\<lambda>e. e \<noteq> []) (map trim_space (split_on (CHR '','') s))"

definition parseCachedRoute :: "route \<Rightarrow> cachedRoute" where
  "parseCachedRoute r =
     (let ps = (if rt_groups r = [] then [] else allowed_entries (rt_groups r));
          es = ip_entries (rt_ips r)
      in \<lparr>cr_route = r, cr_groupSet = ps, cr_groupIDs = List.map_filter atoi ps,
          cr_addrs = List.map_filter parse_ip (filter (\<lambda>e. CHR ''/'' \<notin> set e) es),
          cr_nets = List.map_filter parse_cidr (filter (\<lambda>e. CHR ''/'' \<in> set e) es)\<rparr>)"

definition isTCP :: "string \<Rightarrow> bool" where "isTCP t \<longleftrightarrow> t = ''tcp'' \<or> t = ''tcp+udp''"
definition isUDP :: "string \<Rightarrow> bool" where "isUDP t \<longleftrightarrow> t = ''udp'' \<or> t = ''tcp+udp''"
definition isRaw :: "string \<Rightarrow> bool" where "isRaw t \<longleftrightarrow> isTCP t \<or> isUDP t"

definition groupsAllow :: "string list \<Rightarrow> int list \<Rightarrow> bool" where
  "groupsAllow groupSet groupIDs \<longleftrightarrow> (\<exists>i \<in> set groupIDs. itoa i \<in> set groupSet)"

definition ipAllows :: "cachedRoute \<Rightarrow> string \<Rightarrow> bool" where
  "ipAllows cr clientIP =
     (case parse_ip clientIP of
        None \<Rightarrow> False
      | Some addr \<Rightarrow> (\<exists>p \<in> set (cr_addrs cr). ip_equal p addr) \<or> (\<exists>n \<in> set (cr_nets cr). net_contains n addr))"

section \<open>State\<close>

record logEntry =
  le_ip :: string
  le_user :: string
  le_route :: string

record world =
  dbase :: db
  thr :: limiter
  met :: metrics
  authStore :: bool
  authCache :: "(string \<Rightarrow> cachedRoute option) option"
  globalSettings :: settings
  logChan :: "logEntry list"

definition world0 :: "db \<Rightarrow> world" where
  "world0 d = \<lparr>dbase = d, thr = limiter0, met = metrics0, authStore = False, authCache = None,
     globalSettings = \<lparr>st_hours = 0, st_renew = False\<rparr>, logChan = []\<rparr>"

definition record_event :: "time \<Rightarrow> string \<Rightarrow> string \<Rightarrow> string \<Rightarrow> world \<Rightarrow> world" where
  "record_event now ip route outcome w = w\<lparr>met := RecordEvent now ip route outcome (met w)\<rparr>"

definition record_failure :: "lib \<Rightarrow> time \<Rightarrow> string \<Rightarrow> world \<Rightarrow> world" where
  "record_failure L now ip w =
     (let (lm, d) = RecordFailure L (authStore w) now ip (thr w, dbase w) in w\<lparr>thr := lm, dbase := d\<rparr>)"

definition set_tier :: "time \<Rightarrow> string \<Rightarrow> string \<Rightarrow> world \<Rightarrow> world" where
  "set_tier now ip tier w = w\<lparr>thr := SetTier now ip tier (thr w)\<rparr>"

definition check_banned :: "time \<Rightarrow> string \<Rightarrow> world \<Rightarrow> bool \<times> world" where
  "check_banned now ip w = (let (b, lm) = IsBanned now ip (thr w) in (b, w\<lparr>thr := lm\<rparr>))"

text \<open>\<^verbatim>\<open>logAccess\<close>: a full queue (512 entries) drops the entry.\<close>

definition logAccess :: "string \<Rightarrow> string \<Rightarrow> string \<Rightarrow> world \<Rightarrow> world" where
  "logAccess ip username route w =
     (if length (logChan w) < 512
      then w\<lparr>logChan := logChan w @ [\<lparr>le_ip = ip, le_user = username, le_route = route\<rparr>]\<rparr> else w)"

definition denyAuth :: "lib \<Rightarrow> time \<Rightarrow> string \<Rightarrow> string \<Rightarrow> world \<Rightarrow> world" where
  "denyAuth L now clientIP rk w =
     record_failure L now clientIP
       (record_event now clientIP rk OutcomeDenied (logAccess clientIP ''Unauthorized User'' rk w))"

definition extend_by_ip :: "lib \<Rightarrow> time \<Rightarrow> int \<Rightarrow> string \<Rightarrow> world \<Rightarrow> world" where
  "extend_by_ip L now uid ip w =
     (if st_renew (globalSettings w)
      then w\<lparr>dbase := ExtendUserSessionsByIP L now (dbase w) uid ip (SessionDur (globalSettings w))\<rparr> else w)"

definition extend_by_token :: "lib \<Rightarrow> time \<Rightarrow> string \<Rightarrow> world \<Rightarrow> world" where
  "extend_by_token L now tok w =
     (if st_renew (globalSettings w)
      then w\<lparr>dbase := ExtendSession L now (dbase w) tok (SessionDur (globalSettings w))\<rparr> else w)"

section \<open>Raw flows\<close>

text \<open>\<open>None\<close>: the type assertion on an unset cache panics.\<close>

definition authorizeIP :: "lib \<Rightarrow> time \<Rightarrow> string \<Rightarrow> string \<Rightarrow> world \<Rightarrow> (bool \<times> string) option \<times> world" where
  "authorizeIP L now routeUrl clientIP w =
     (case authCache w of
        None \<Rightarrow> (None, w)
      | Some m \<Rightarrow>
          (case m routeUrl of
             None \<Rightarrow> (Some (True, []), w)
           | Some cr \<Rightarrow>
               (let r = cr_route cr;
                    listed = (if rt_ips r \<noteq> [] \<and> ipAllows cr clientIP then (Some (True, []), w) else (Some (False, []), w))
                in if \<not> rt_ip_auth r \<and> rt_groups r = [] \<and> rt_ips r = [] then (Some (True, []), w)
                   else if (rt_ip_auth r \<or> rt_groups r \<noteq> []) \<and> authStore w then
                     (case ValidateSessionByIPInGroups L now (dbase w) clientIP (cr_groupIDs cr) of
                        Inr sg \<Rightarrow> (Some (True, sn_name sg), extend_by_ip L now (sn_user sg) clientIP w)
                      | Inl e \<Rightarrow> listed)
                   else listed)))"

section \<open>HTTP requests\<close>

datatype decision =
    AllowPublic
  | AllowByIP session_groups
  | AllowListed
  | AllowByCookie string session_groups
  | Deny nat

definition public_route :: "route \<Rightarrow> bool" where
  "public_route r \<longleftrightarrow> \<not> rt_ip_auth r \<and> rt_groups r = [] \<and> rt_ips r = [] \<and> \<not> rt_require_login r"

definition auth_decide ::
  "(string \<Rightarrow> int list \<Rightarrow> err + session_groups) \<Rightarrow> (string \<Rightarrow> err + session_groups) \<Rightarrow>
   cachedRoute \<Rightarrow> string \<Rightarrow> string option \<Rightarrow> decision" where
  "auth_decide by_ip by_cookie cr clientIP ck =
     (let r = cr_route cr
      in if public_route r then AllowPublic
         else case (if rt_ip_auth r then by_ip clientIP (cr_groupIDs cr) else Inl (Msg [])) of
           Inr sg \<Rightarrow> AllowByIP sg
         | Inl e \<Rightarrow>
             if rt_ips r \<noteq> [] \<and> ipAllows cr clientIP then AllowListed
             else if \<not> rt_persistent r then Deny StatusProxyAuthRequired
             else if cr_groupSet cr = [] \<and> \<not> rt_require_login r then Deny StatusProxyAuthRequired
             else (case ck of
                 None \<Rightarrow> Deny StatusProxyAuthRequired
               | Some tok \<Rightarrow>
                   (case by_cookie tok of
                      Inl e \<Rightarrow> Deny StatusProxyAuthRequired
                    | Inr sg \<Rightarrow>
                        if \<not> rt_require_login r \<and> \<not> groupsAllow (cr_groupSet cr) (sn_groups sg)
                        then Deny StatusForbidden
                        else AllowByCookie tok sg)))"

text \<open>What the gate does to the shared state before it calls the next handler, and on a denial.\<close>

definition serve_as :: "lib \<Rightarrow> time \<Rightarrow> string \<Rightarrow> string \<Rightarrow> string \<Rightarrow> world \<Rightarrow> world" where
  "serve_as L now clientIP username rk w =
     record_event now clientIP rk OutcomeServed (logAccess clientIP username rk w)"

fun apply_decision :: "lib \<Rightarrow> time \<Rightarrow> string \<Rightarrow> string \<Rightarrow> decision \<Rightarrow> world \<Rightarrow> response option \<times> world" where
  "apply_decision L now clientIP rk AllowPublic w = (None, serve_as L now clientIP [] rk w)"
| "apply_decision L now clientIP rk AllowListed w = (None, serve_as L now clientIP [] rk w)"
| "apply_decision L now clientIP rk (AllowByIP sg) w =
     (let w1 = serve_as L now clientIP (sn_name sg) rk (extend_by_ip L now (sn_user sg) clientIP w)
      in (None, set_tier now clientIP (ResolveTier (thr w1) (sn_groups sg)) w1))"
| "apply_decision L now clientIP rk (AllowByCookie tok sg) w =
     (let w1 = serve_as L now clientIP (sn_name sg) rk (extend_by_token L now tok w)
      in (None, set_tier now clientIP (ResolveTier (thr w1) (sn_groups sg)) w1))"
| "apply_decision L now clientIP rk (Deny code) w =
     (Some (http_error code (if code = StatusForbidden then ''Forbidden'' else ''Proxy Authentication Required'')),
      denyAuth L now clientIP rk w)"

text \<open>\<open>Pass\<close>: the wrapped handler is called.\<close>

datatype verdict = Pass | Stop response | Panic

definition withAuthForKey :: "lib \<Rightarrow> time \<Rightarrow> string \<Rightarrow> request \<Rightarrow> world \<Rightarrow> verdict \<times> world" where
  "withAuthForKey L now rk r w =
     (if \<not> authStore w then (Pass, w)
      else let clientIP = extractClientIP r; (b, w1) = check_banned now clientIP w
        in if b then (Stop (http_error StatusForbidden ''Forbidden''),
                      record_event now clientIP rk OutcomeBanned w1)
           else let ((allowed, retry), lm) = Allow now clientIP (thr w1); w2 = w1\<lparr>thr := lm\<rparr>
             in if \<not> allowed then
                  (Stop ((http_error StatusTooManyRequests ''Too Many Requests'')\<lparr>rs_retry := Some retry\<rparr>),
                   record_failure L now clientIP (record_event now clientIP rk OutcomeRateLimited w2))
                else case authCache w2 of
                    None \<Rightarrow> (Panic, w2)
                  | Some m \<Rightarrow>
                      (case m rk of
                         None \<Rightarrow> (Stop (http_error StatusProxyAuthRequired ''Proxy Authentication Required''),
                                  denyAuth L now clientIP rk w2)
                       | Some cr \<Rightarrow>
                           (let dec = auth_decide (ValidateSessionByIPInGroups L now (dbase w2))
                                  (ValidateSessionAndGroups L now (dbase w2)) cr clientIP (rq_cookie r);
                                (res, w3) = apply_decision L now clientIP rk dec w2
                            in (case res of None \<Rightarrow> Pass | Some rs \<Rightarrow> Stop rs, w3))))"

section \<open>Refresh, ticker, log drain\<close>

definition refreshCache :: "lib \<Rightarrow> time \<Rightarrow> world \<Rightarrow> world" where
  "refreshCache L now w =
     (case GetAllRoutes L (dbase w) of
        Inl e \<Rightarrow> w
      | Inr rs \<Rightarrow>
          w\<lparr>authCache := Some (fold (\<lambda>r m. m(rt_url r \<mapsto> parseCachedRoute r)) rs Map.empty),
            globalSettings := GetSettings L (dbase w),
            thr := reloadThrottle L (authStore w) now (dbase w) (thr w)\<rparr>)"

definition RefreshCache :: "lib \<Rightarrow> time \<Rightarrow> world \<Rightarrow> world" where
  "RefreshCache L now w = refreshCache L now w"

definition InitAuth :: "lib \<Rightarrow> time \<Rightarrow> world \<Rightarrow> world" where
  "InitAuth L now w =
     (let w1 = refreshCache L now (w\<lparr>authStore := True, globalSettings := \<lparr>st_hours = 168, st_renew = True\<rparr>\<rparr>)
      in w1\<lparr>thr := reloadThrottle L (authStore w1) now (dbase w1) (thr w1)\<rparr>)"

text \<open>One tick of the five-minute ticker, and one step of the goroutine that drains the log queue.\<close>

definition auth_tick :: "lib \<Rightarrow> time \<Rightarrow> world \<Rightarrow> world" where
  "auth_tick L now w =
     (let w1 = refreshCache L now w;
          d = CleanupExpiredBans L now (CleanupOldAccessLog L
                (CleanupExpiredInvites L now (CleanupExpiredSessions L now (dbase w1))))
      in w1\<lparr>dbase := d, thr := sweepBuckets now (thr w1)\<rparr>)"

definition drain_log :: "lib \<Rightarrow> time \<Rightarrow> world \<Rightarrow> world" where
  "drain_log L now w =
     (case logChan w of
        [] \<Rightarrow> w
      | e # es \<Rightarrow> w\<lparr>logChan := es, dbase := LogAccess L now (dbase w) (le_ip e) (le_user e) (le_route e)\<rparr>)"

text \<open>The stop function closes the queue and waits until it is drained.\<close>

definition stop_auth :: "lib \<Rightarrow> time \<Rightarrow> world \<Rightarrow> world" where
  "stop_auth L now w = fold (\<lambda>_ w'. drain_log L now w') (logChan w) w"

section \<open>The invariant of the shared state\<close>

definition world_ok :: "world \<Rightarrow> bool" where
  "world_ok w \<longleftrightarrow> db_ok (dbase w) \<and> ring_ok (met w) \<and> length (logChan w) \<le> 512"

lemma Ban_db_ok: "db_ok d \<Longrightarrow> db_ok (snd (Ban L hs now ip r t n (lm, d)))"
  by (simp add: Ban_def Let_def InsertBan_ok)

lemma RecordFailure_db_ok: "db_ok d \<Longrightarrow> db_ok (snd (RecordFailure L hs now ip (lm, d)))"
  by (simp add: RecordFailure_def Let_def Ban_db_ok split: option.splits prod.splits)

lemma record_event_ok [wf_intros]: "world_ok w \<Longrightarrow> world_ok (record_event now ip r out w)"
  by (simp add: world_ok_def record_event_def RecordEvent_ok)

lemma record_failure_ok [wf_intros]: "world_ok w \<Longrightarrow> world_ok (record_failure L now ip w)"
  using RecordFailure_db_ok [of "dbase w" L "authStore w" now ip "thr w"]
  by (auto simp: world_ok_def record_failure_def split: prod.splits)

lemma set_tier_ok [wf_intros]: "world_ok w \<Longrightarrow> world_ok (set_tier now ip t w)"
  by (simp add: world_ok_def set_tier_def)

lemma check_banned_ok [wf_intros]: "world_ok w \<Longrightarrow> world_ok (snd (check_banned now ip w))"
  by (simp add: world_ok_def check_banned_def split: prod.splits)

lemma logAccess_ok [wf_intros]: "world_ok w \<Longrightarrow> world_ok (logAccess ip u r w)"
  by (simp add: world_ok_def logAccess_def)

lemma denyAuth_ok [wf_intros]: "world_ok w \<Longrightarrow> world_ok (denyAuth L now ip rk w)"
  by (simp add: denyAuth_def record_failure_ok record_event_ok logAccess_ok)

lemma extend_ok [wf_intros]:
  "world_ok w \<Longrightarrow> world_ok (extend_by_ip L now u ip w)" "world_ok w \<Longrightarrow> world_ok (extend_by_token L now tok w)"
  by (simp_all add: world_ok_def extend_by_ip_def extend_by_token_def ExtendUserSessionsByIP_ok ExtendSession_ok)

lemma serve_as_ok [wf_intros]: "world_ok w \<Longrightarrow> world_ok (serve_as L now ip u rk w)"
  by (simp add: serve_as_def record_event_ok logAccess_ok)

lemma apply_decision_ok [wf_intros]: "world_ok w \<Longrightarrow> world_ok (snd (apply_decision L now ip rk dec w))"
  by (cases dec) (simp_all add: Let_def wf_intros)

lemma authorizeIP_ok [wf_intros]: "world_ok w \<Longrightarrow> world_ok (snd (authorizeIP L now u ip w))"
  by (simp add: authorizeIP_def Let_def extend_ok split: option.splits sum.splits)

lemma set_lim_ok: "world_ok (w\<lparr>thr := lm\<rparr>) = world_ok w"
  by (simp add: world_ok_def)

lemma withAuthForKey_ok [wf_intros]:
  assumes "world_ok w"
  shows "world_ok (snd (withAuthForKey L now rk r w))"
proof -
  obtain b w1 where b: "check_banned now (extractClientIP r) w = (b, w1)" by (cases "check_banned now (extractClientIP r) w")
  obtain al rt lm where a: "Allow now (extractClientIP r) (thr w1) = ((al, rt), lm)"
    by (metis prod.collapse)
  have w1: "world_ok w1" using check_banned_ok [OF assms] b by (metis snd_conv)
  define w2 where "w2 = w1\<lparr>thr := lm\<rparr>"
  have w2: "world_ok w2" using w1 by (simp add: w2_def set_lim_ok)
  have ap: "apply_decision L now (extractClientIP r) rk dec w2 = (res, w3) \<Longrightarrow> world_ok w3" for dec res w3
    using apply_decision_ok [OF w2, of L now "extractClientIP r" rk dec] by simp
  show ?thesis
    using assms w1 w2
    by (auto simp: withAuthForKey_def b a Let_def w2_def [symmetric] wf_intros
        split: option.splits prod.splits dest!: ap)
qed

lemma refreshCache_ok [wf_intros]: "world_ok w \<Longrightarrow> world_ok (refreshCache L now w)"
  by (simp add: refreshCache_def world_ok_def split: sum.splits)

lemma InitAuth_ok [wf_intros]: "world_ok w \<Longrightarrow> world_ok (InitAuth L now w)"
  by (simp add: InitAuth_def Let_def set_lim_ok) (rule refreshCache_ok, simp add: world_ok_def)

lemma auth_tick_ok [wf_intros]: "world_ok w \<Longrightarrow> world_ok (auth_tick L now w)"
  using refreshCache_ok [of w L now]
  by (simp add: auth_tick_def Let_def world_ok_def CleanupExpiredBans_ok CleanupOldAccessLog_ok
      CleanupExpiredInvites_ok CleanupExpiredSessions_ok)

lemma drain_log_ok [wf_intros]: "world_ok w \<Longrightarrow> world_ok (drain_log L now w)"
  by (auto simp: drain_log_def world_ok_def LogAccess_ok split: list.splits)

section \<open>The contract of session authentication\<close>

text \<open>
  What the gate needs of the session store. \<open>ip_ok\<close> and \<open>holder\<close> say what a lookup stands for: an
  authorised session on the address, and a session with the token whose user has these groups. The laws
  hold when the store is \<open>ready\<close>.
\<close>

locale authenticator =
  fixes by_ip :: "string \<Rightarrow> int list \<Rightarrow> err + session_groups"
    and by_cookie :: "string \<Rightarrow> err + session_groups"
    and ip_ok :: "string \<Rightarrow> int list \<Rightarrow> bool"
    and holder :: "string \<Rightarrow> int list \<Rightarrow> bool"
    and ready :: bool
  assumes by_ip_law: "ready \<Longrightarrow> (\<exists>sg. by_ip ip gs = Inr sg) \<longleftrightarrow> ip_ok ip gs"
    and by_cookie_sound: "by_cookie tok = Inr sg \<Longrightarrow> holder tok (sn_groups sg)"
    and by_cookie_complete: "ready \<Longrightarrow> holder tok gs \<Longrightarrow> \<exists>sg. by_cookie tok = Inr sg \<and> sn_groups sg = gs"
begin

lemma by_ip_refuses: "ready \<Longrightarrow> by_ip ip gs = Inl e \<Longrightarrow> \<not> ip_ok ip gs"
  using by_ip_law [of ip gs] by auto

lemma by_ip_accepts: "ready \<Longrightarrow> by_ip ip gs = Inr sg \<Longrightarrow> ip_ok ip gs"
  using by_ip_law [of ip gs] by auto

lemma by_cookie_refuses: "ready \<Longrightarrow> by_cookie tok = Inl e \<Longrightarrow> \<not> holder tok gs"
  using by_cookie_complete [of tok gs] by auto

lemma holder_unique: "ready \<Longrightarrow> by_cookie tok = Inr sg \<Longrightarrow> holder tok gs \<Longrightarrow> gs = sn_groups sg"
  using by_cookie_complete [of tok gs] by auto

text \<open>The decision is exactly: public, or an authorised session on the address, or a listed address, or a cookie.\<close>

lemma decide_exact:
  assumes "ready"
  shows "(\<exists>c. auth_decide by_ip by_cookie cr ip ck = Deny c) \<longleftrightarrow>
    \<not> (public_route (cr_route cr) \<or>
       (rt_ip_auth (cr_route cr) \<and> ip_ok ip (cr_groupIDs cr)) \<or>
       (rt_ips (cr_route cr) \<noteq> [] \<and> ipAllows cr ip) \<or>
       (rt_persistent (cr_route cr) \<and> (\<exists>tok gs. ck = Some tok \<and> holder tok gs \<and>
          (rt_require_login (cr_route cr) \<or> groupsAllow (cr_groupSet cr) gs))))"
proof (cases "rt_ip_auth (cr_route cr) \<and> ip_ok ip (cr_groupIDs cr)")
  case True
  then obtain sg where "by_ip ip (cr_groupIDs cr) = Inr sg" using by_ip_law [OF assms] by blast
  with True show ?thesis by (simp add: auth_decide_def Let_def)
next
  case False
  then obtain e where e: "(if rt_ip_auth (cr_route cr) then by_ip ip (cr_groupIDs cr) else Inl (Msg [])) = Inl e"
    using by_ip_law [OF assms, of ip "cr_groupIDs cr"]
    by (cases "rt_ip_auth (cr_route cr)"; cases "by_ip ip (cr_groupIDs cr)") auto
  show ?thesis
  proof (cases ck)
    case None
    with False e show ?thesis by (simp add: auth_decide_def Let_def)
  next
    case (Some tok)
    show ?thesis
    proof (cases "by_cookie tok")
      case (Inl e')
      with False e Some by_cookie_refuses [OF assms Inl] show ?thesis by (simp add: auth_decide_def Let_def)
    next
      case (Inr sg)
      have "(\<exists>gs. holder tok gs \<and> (rt_require_login (cr_route cr) \<or> groupsAllow (cr_groupSet cr) gs)) \<longleftrightarrow>
          rt_require_login (cr_route cr) \<or> groupsAllow (cr_groupSet cr) (sn_groups sg)"
        using by_cookie_sound [OF Inr] holder_unique [OF assms Inr] by blast
      moreover have "\<not> (cr_groupSet cr = [] \<and> groupsAllow (cr_groupSet cr) (sn_groups sg))"
        by (simp add: groupsAllow_def)
      ultimately show ?thesis
        using False e Some Inr by (simp add: auth_decide_def Let_def)
    qed
  qed
qed

end

text \<open>The session store provides it, for every state of the database.\<close>

definition store_ready :: "lib \<Rightarrow> db \<Rightarrow> bool" where
  "store_ready L d \<longleftrightarrow> db_ok d \<and> \<not> db_fault L ''ValidateSessionByIPInGroups'' \<and> \<not> db_fault L ''ValidateSessionAndGroups''"

definition token_holder :: "lib \<Rightarrow> time \<Rightarrow> db \<Rightarrow> string \<Rightarrow> int list \<Rightarrow> bool" where
  "token_holder L now d tok gs \<longleftrightarrow> (\<exists>s. live_session now d s \<and> ses_hash s = sha256hex L tok \<and>
     gs = parseGroupIDs (group_concat (groups_of_user d (ses_user s))))"

lemma ValidateSessionAndGroups_live:
  assumes "store_ready L d" "live_session now d s" "ses_hash s = sha256hex L tok"
  shows "\<exists>sg. ValidateSessionAndGroups L now d tok = Inr sg \<and>
    sn_groups sg = parseGroupIDs (group_concat (groups_of_user d (ses_user s)))"
proof -
  obtain u where "(s, u) \<in> set (session_users d)"
    using assms(2) by (auto simp: live_session_def set_session_users image_iff)
  then have "List.find (\<lambda>(s, u). ses_hash s = sha256hex L tok \<and> now < ses_exp s) (session_users d) \<noteq> None"
    using assms(2,3) unfolding find_none live_session_def by blast
  then obtain sg where sg: "ValidateSessionAndGroups L now d tok = Inr sg"
    using assms(1) by (auto simp: ValidateSessionAndGroups_def Let_def store_ready_def)
  from ValidateSessionAndGroups_sound [OF sg] obtain s' where s': "live_session now d s'"
    "ses_hash s' = sha256hex L tok" "sn_groups sg = parseGroupIDs (group_concat (groups_of_user d (ses_user s')))"
    by blast
  then have "s' = s" using assms by (auto simp: live_session_def store_ready_def db_ok_def sessions_ok_def dest: distinct_key_eq)
  with sg s' show ?thesis by blast
qed

interpretation gate: authenticator "ValidateSessionByIPInGroups L now d" "ValidateSessionAndGroups L now d"
    "\<lambda>ip gs. \<exists>s. authorised_ip now d ip gs s" "token_holder L now d" "store_ready L d" for L now d
proof unfold_locales
  fix ip gs
  assume "store_ready L d"
  then have "distinct (map ses_id (sessions d))" "\<not> db_fault L ''ValidateSessionByIPInGroups''"
    by (simp_all add: store_ready_def db_ok_def sessions_ok_def auto_key_def)
  then show "(\<exists>sg. ValidateSessionByIPInGroups L now d ip gs = Inr sg) \<longleftrightarrow> (\<exists>s. authorised_ip now d ip gs s)"
    using ip_lookup_sound ip_lookup_complete by blast
next
  fix tok sg assume "ValidateSessionAndGroups L now d tok = Inr sg"
  from ValidateSessionAndGroups_sound [OF this] show "token_holder L now d tok (sn_groups sg)"
    by (auto simp: token_holder_def)
next
  fix tok gs assume "store_ready L d" "token_holder L now d tok gs"
  then show "\<exists>sg. ValidateSessionAndGroups L now d tok = Inr sg \<and> sn_groups sg = gs"
    using ValidateSessionAndGroups_live by (auto simp: token_holder_def)
qed

section \<open>Who gets through\<close>

text \<open>The abstract policy: what makes a request or a raw flow legitimate for a route.\<close>

definition granted :: "lib \<Rightarrow> time \<Rightarrow> db \<Rightarrow> cachedRoute \<Rightarrow> string \<Rightarrow> string option \<Rightarrow> bool" where
  "granted L now d cr ip ck \<longleftrightarrow>
     public_route (cr_route cr) \<or>
     (rt_ip_auth (cr_route cr) \<and> (\<exists>s. authorised_ip now d ip (cr_groupIDs cr) s)) \<or>
     (rt_ips (cr_route cr) \<noteq> [] \<and> ipAllows cr ip) \<or>
     (rt_persistent (cr_route cr) \<and> (\<exists>tok gs. ck = Some tok \<and> token_holder L now d tok gs \<and>
        (rt_require_login (cr_route cr) \<or> groupsAllow (cr_groupSet cr) gs)))"

definition raw_granted :: "time \<Rightarrow> db \<Rightarrow> cachedRoute \<Rightarrow> string \<Rightarrow> bool" where
  "raw_granted now d cr ip \<longleftrightarrow>
     (\<not> rt_ip_auth (cr_route cr) \<and> rt_groups (cr_route cr) = [] \<and> rt_ips (cr_route cr) = []) \<or>
     ((rt_ip_auth (cr_route cr) \<or> rt_groups (cr_route cr) \<noteq> []) \<and> (\<exists>s. authorised_ip now d ip (cr_groupIDs cr) s)) \<or>
     (rt_ips (cr_route cr) \<noteq> [] \<and> ipAllows cr ip)"

lemma decide_granted:
  assumes "store_ready L d"
  shows "(\<exists>c. auth_decide (ValidateSessionByIPInGroups L now d) (ValidateSessionAndGroups L now d) cr ip ck = Deny c)
    \<longleftrightarrow> \<not> granted L now d cr ip ck"
  unfolding granted_def using gate.decide_exact [OF assms] by simp

lemma apply_decision_allows: "fst (apply_decision L now ip rk dec w) = None \<longleftrightarrow> \<not> (\<exists>c. dec = Deny c)"
  by (cases dec) (simp_all add: Let_def)

lemma check_banned_sel:
  "fst (check_banned now ip w) = fst (IsBanned now ip (thr w))"
  "dbase (snd (check_banned now ip w)) = dbase w" "authCache (snd (check_banned now ip w)) = authCache w"
  "thr (snd (check_banned now ip w)) = snd (IsBanned now ip (thr w))"
  by (simp_all add: check_banned_def split: prod.splits)

lemma IsBanned_frame [frame_simps]:
  "ipBuckets (snd (IsBanned now ip lm)) = ipBuckets lm" "policies (snd (IsBanned now ip lm)) = policies lm"
  by (simp_all add: IsBanned_def ban_has_def split: option.splits)

lemma Allow_ignores_bans: "fst (Allow now ip (snd (IsBanned now ip' lm))) = fst (Allow now ip lm)"
  by (simp add: Allow_def Let_def bucketFor_def policyFor_def frame_simps)

lemma withAuthForKey_found:
  assumes "authStore w" "authCache w = Some m" "m rk = Some cr"
    and "\<not> fst (IsBanned now (extractClientIP r) (thr w))" and "fst (fst (Allow now (extractClientIP r) (thr w)))"
  shows "fst (withAuthForKey L now rk r w) = Pass \<longleftrightarrow>
    \<not> (\<exists>c. auth_decide (ValidateSessionByIPInGroups L now (dbase w)) (ValidateSessionAndGroups L now (dbase w)) cr
      (extractClientIP r) (rq_cookie r) = Deny c)"
proof -
  let ?ip = "extractClientIP r"
  obtain w1 where w1: "check_banned now ?ip w = (False, w1)" "dbase w1 = dbase w" "authCache w1 = Some m"
    "thr w1 = snd (IsBanned now ?ip (thr w))"
    using check_banned_sel [of now ?ip w] assms(2,4) by (metis prod.collapse)
  then have "fst (fst (Allow now ?ip (thr w1)))" using assms(5) by (simp add: Allow_ignores_bans)
  then obtain rt lm where a: "Allow now ?ip (thr w1) = ((True, rt), lm)" by (metis prod.collapse)
  let ?dec = "auth_decide (ValidateSessionByIPInGroups L now (dbase w)) (ValidateSessionAndGroups L now (dbase w)) cr
      ?ip (rq_cookie r)"
  obtain res w3 where ap: "apply_decision L now ?ip rk ?dec (w1\<lparr>thr := lm\<rparr>) = (res, w3)"
    by (cases "apply_decision L now ?ip rk ?dec (w1\<lparr>thr := lm\<rparr>)")
  have "fst (withAuthForKey L now rk r w) = (case res of None \<Rightarrow> Pass | Some rs \<Rightarrow> Stop rs)"
    using assms(1,3) w1(1-3) ap by (simp add: withAuthForKey_def a Let_def)
  moreover have "res = None \<longleftrightarrow> \<not> (\<exists>c. ?dec = Deny c)"
    using apply_decision_allows [of L now ?ip rk ?dec "w1\<lparr>thr := lm\<rparr>"] by (simp add: ap)
  ultimately show ?thesis by (simp split: option.splits)
qed

text \<open>
  C7: the gate is exact. A client that is neither banned nor rate-limited reaches the route's
  handler if and only if the route's policy grants it: a public route, an authorised session on
  its address where IP auth is on, a listed address, or, where cookie login is on, the token of
  a live session whose user is in an allowed group (any live session when login alone is
  required).
\<close>

theorem withAuthForKey_exact:
  assumes "authStore w" and "authCache w = Some m" and "m rk = Some cr" and "store_ready L (dbase w)"
    and "\<not> fst (IsBanned now (extractClientIP r) (thr w))" and "fst (fst (Allow now (extractClientIP r) (thr w)))"
  shows "fst (withAuthForKey L now rk r w) = Pass \<longleftrightarrow>
    granted L now (dbase w) cr (extractClientIP r) (rq_cookie r)"
  using withAuthForKey_found [OF assms(1-3,5,6), of L] decide_granted [OF assms(4)] by simp

definition sample_route :: route where
  "sample_route = (new_route 1 0 ''a.b:80'' ''app'' ''proxy'' False [] [] ''ui'' [])
     \<lparr>rt_groups := group_concat [7], rt_ip_auth := True\<rparr>"

definition sample_world :: world where
  "sample_world = (world0 sample_db)\<lparr>authStore := True,
     authCache := Some [''a.b:80'' \<mapsto> parseCachedRoute sample_route]\<rparr>"

definition lan_request :: request where
  "lan_request = get_request ''a.b'' ''/'' ''lan''"

lemma sample_facts:
  "authStore sample_world" "authCache sample_world = Some [''a.b:80'' \<mapsto> parseCachedRoute sample_route]"
  "dbase sample_world = sample_db" "store_ready plain_lib sample_db"
  "extractClientIP lan_request = ''lan''" "rq_cookie lan_request = None"
  "\<not> fst (IsBanned now ip (thr sample_world))" "fst (fst (Allow now ip (thr sample_world)))"
proof -
  have "split_host_port ''lan'' = None" by (simp add: split_host_port_def)
  then show "extractClientIP lan_request = ''lan''" by (simp add: extractClientIP_def lan_request_def get_request_def)
qed (simp_all add: sample_world_def world0_def store_ready_def sample_db_ok lan_request_def get_request_def
    IsBanned_live limiter0_def Allow_def Let_def limited_def policyFor_def)

lemma sample_session: "authorised_ip 50 sample_db ''lan'' gs (hd (sessions sample_db))"
  if "gs = [] \<or> 7 \<in> set gs"
proof -
  have "normalizeIP ''lan'' = ''lan''"
    by (simp add: normalizeIP_def parse_ip_def trim_space_def is_space_def)
  with that show ?thesis
    by (auto simp: authorised_ip_def live_session_def in_some_group_def sample_db_def empty_db_def)
qed

lemma sample_ip_auth [simp]: "rt_ip_auth sample_route"
  by (simp add: sample_route_def)

lemma sample_cached: "cr_groupIDs (parseCachedRoute sample_route) = [7]" "cr_route (parseCachedRoute sample_route) = sample_route"
proof -
  have "atoi (itoa 7) = Some 7" by (rule atoi_itoa) (simp add: int64_def)
  moreover have "split_on (CHR '','') (itoa 7) = [itoa 7]"
    using itoa_plain(1) [of _ 7] by (intro split_on_no_sep) blast
  ultimately show "cr_groupIDs (parseCachedRoute sample_route) = [7]"
    by (simp add: parseCachedRoute_def Let_def sample_route_def group_concat_def allowed_entries_def List.map_filter_def)
qed (simp add: parseCachedRoute_def Let_def)

theorem withAuthForKey_exact_witness:
  "fst (withAuthForKey plain_lib 50 ''a.b:80'' lan_request sample_world) = Pass"
proof -
  have "granted plain_lib 50 sample_db (parseCachedRoute sample_route) ''lan'' None"
    using sample_session [of "[7]"] by (auto simp: granted_def sample_cached)
  then show ?thesis
    by (subst withAuthForKey_exact [OF sample_facts(1,2), of _ "parseCachedRoute sample_route"])
      (simp_all add: sample_facts)
qed

text \<open>
  C8: bans and rate limits come first. For a banned client the gate answers 403, and for a
  client without a token 429 with its \<open>Retry-After\<close>, whatever session or listed address it has, and
  no session is looked up or renewed: the sessions table is untouched.
\<close>

theorem withAuthForKey_stops:
  assumes "authStore w"
    and "fst (IsBanned now (extractClientIP r) (thr w)) \<or> \<not> fst (fst (Allow now (extractClientIP r) (thr w)))"
  shows "\<exists>rs. fst (withAuthForKey L now rk r w) = Stop rs \<and>
    rs_status rs = (if fst (IsBanned now (extractClientIP r) (thr w)) then StatusForbidden else StatusTooManyRequests) \<and>
    (\<not> fst (IsBanned now (extractClientIP r) (thr w)) \<longrightarrow>
       rs_retry rs = Some (snd (fst (Allow now (extractClientIP r) (thr w))))) \<and>
    sessions (dbase (snd (withAuthForKey L now rk r w))) = sessions (dbase w)"
proof -
  let ?ip = "extractClientIP r"
  obtain b w1 where w1: "check_banned now ?ip w = (b, w1)" "b = fst (IsBanned now ?ip (thr w))"
    "dbase w1 = dbase w" "thr w1 = snd (IsBanned now ?ip (thr w))"
    using check_banned_sel [of now ?ip w] by (metis prod.collapse)
  obtain al rt lm where a: "Allow now ?ip (thr w1) = ((al, rt), lm)" by (metis prod.collapse)
  then have al: "fst (Allow now ?ip (thr w)) = (al, rt)" using w1(4) Allow_ignores_bans by (metis fst_conv)
  have Ban_sessions: "sessions (snd (Ban L hs now ip rs t n (lm, d))) = sessions d" for hs ip rs t n lm d
    by (simp add: Ban_def Let_def InsertBan_def put_ban_def)
  have sess: "sessions (snd (RecordFailure L hs now ip (lm, d))) = sessions d" for hs ip lm d
    by (simp add: RecordFailure_def Let_def Ban_sessions split: option.splits prod.splits)
  have "sessions (dbase (record_failure L now ip w')) = sessions (dbase w')" for ip w'
    using sess [of "authStore w'" ip "thr w'" "dbase w'"] by (simp add: record_failure_def split: prod.splits) (metis snd_conv)
  then show ?thesis
    using assms w1 al a [unfolded w1(4)]
    by (cases b) (simp_all add: withAuthForKey_def Let_def record_event_def http_error_def)
qed

definition banned_world :: world where
  "banned_world = sample_world\<lparr>thr := ban_set (''lan'', zero_time) limiter0\<rparr>"

theorem withAuthForKey_stops_witness:
  "\<exists>rs. fst (withAuthForKey plain_lib 50 ''a.b:80'' lan_request banned_world) = Stop rs \<and> rs_status rs = 403"
proof -
  have "authStore banned_world" "fst (IsBanned 50 (extractClientIP lan_request) (thr banned_world))"
    by (simp_all add: banned_world_def sample_facts IsBanned_live ban_set_def ban_live_def is_zero_def)
  with withAuthForKey_stops [of banned_world 50 lan_request plain_lib "''a.b:80''"] show ?thesis
    by (auto simp: status_defs)
qed

text \<open>
  Raw TCP and UDP flows are authorised exactly by address: an open route, an authorised session on the
  address whenever IP auth or any allowed group is set, or a listed address.
\<close>

lemma authorizeIP_granted:
  assumes "authStore w" and "authCache w = Some m" and "m url = Some cr" and "store_ready L (dbase w)"
  shows "(\<exists>u. fst (authorizeIP L now url ip w) = Some (True, u)) \<longleftrightarrow> raw_granted now (dbase w) cr ip"
proof (cases "ValidateSessionByIPInGroups L now (dbase w) ip (cr_groupIDs cr)")
  case (Inl e)
  with gate.by_ip_refuses [OF assms(4) Inl] assms(1-3) show ?thesis
    by (auto simp: authorizeIP_def raw_granted_def Let_def)
next
  case (Inr sg)
  with gate.by_ip_accepts [OF assms(4) Inr] assms(1-3) show ?thesis
    by (auto simp: authorizeIP_def raw_granted_def Let_def)
qed

section \<open>Group-restricted routes\<close>

lemma cached_groups:
  assumes "rt_groups r = group_concat gs" and "\<forall>g \<in> set gs. int64 g" and "gs \<noteq> []"
  shows "cr_groupIDs (parseCachedRoute r) = gs" and "set (cr_groupSet (parseCachedRoute r)) = itoa ` set gs"
    and "cr_route (parseCachedRoute r) = r"
proof -
  have "split_on (CHR '','') (group_concat gs) = map itoa gs"
    using assms(3) itoa_plain(1) unfolding group_concat_def by (intro split_join) fastforce+
  then have en: "allowed_entries (group_concat gs) = map itoa gs"
    by (simp add: allowed_entries_def comp_def filter_id_conv)
  have ne: "rt_groups r \<noteq> []" using assms(1,3) group_concat_nonempty by simp
  have "List.map_filter atoi (map itoa gs) = map id gs"
    using assms(2) by (simp add: List.map_filter_def atoi_itoa o_def filter_id_conv cong: map_cong)
  with en ne assms(1) show "cr_groupIDs (parseCachedRoute r) = gs"
    and "set (cr_groupSet (parseCachedRoute r)) = itoa ` set gs"
    and "cr_route (parseCachedRoute r) = r"
    by (simp_all add: parseCachedRoute_def Let_def)
qed

definition ids64 :: "db \<Rightarrow> bool" where
  "ids64 d \<longleftrightarrow> (\<forall>(u, g) \<in> set (user_groups d). int64 g)"

lemma holder_groups:
  assumes "ids64 d" and "gs = parseGroupIDs (group_concat (groups_of_user d uid))"
  shows "set gs = {g. (uid, g) \<in> set (user_groups d)}"
proof -
  have "\<forall>g \<in> set (groups_of_user d uid). int64 g"
    using assms(1) by (auto simp: ids64_def set_groups_of_user)
  from parse_group_concat [OF this] show ?thesis using assms(2) by (auto simp: set_groups_of_user)
qed

text \<open>
  A route restricted to groups serves their members only. When the allowed groups are
  stored as the admin panel stores them and neither an address list nor login-only access is
  configured, whoever gets through owns a live session of a user who is in one of the groups.
\<close>

lemma group_route_members_only:
  assumes "authStore w" and "authCache w = Some m" and "m rk = Some (parseCachedRoute r)"
    and "store_ready L (dbase w)" and "ids64 (dbase w)"
    and "rt_groups r = group_concat gs" and "gs \<noteq> []" and "\<forall>g \<in> set gs. int64 g"
    and "rt_ips r = []" and "\<not> rt_require_login r"
    and "fst (withAuthForKey L now rk rq w) = Pass"
  shows "\<exists>s. live_session now (dbase w) s \<and> in_some_group (dbase w) (ses_user s) gs \<and>
    (cast_text (ses_ip s) = normalizeIP (extractClientIP rq) \<or>
     (\<exists>tok. rq_cookie rq = Some tok \<and> ses_hash s = sha256hex L tok))"
proof -
  note cg = cached_groups [OF assms(6,8,7)]
  have free: "\<not> fst (IsBanned now (extractClientIP rq) (thr w))" "fst (fst (Allow now (extractClientIP rq) (thr w)))"
  proof -
    have "\<not> fst (IsBanned now (extractClientIP rq) (thr w)) \<and> fst (fst (Allow now (extractClientIP rq) (thr w)))"
      if "fst (withAuthForKey L now rk rq w) = Pass"
    proof (rule ccontr)
      let ?ip = "extractClientIP rq"
      assume no: "\<not> (\<not> fst (IsBanned now ?ip (thr w)) \<and> fst (fst (Allow now ?ip (thr w))))"
      obtain b w1 where w1: "check_banned now ?ip w = (b, w1)" "b = fst (IsBanned now ?ip (thr w))"
        "thr w1 = snd (IsBanned now ?ip (thr w))" using check_banned_sel [of now ?ip w] by (metis prod.collapse)
      obtain al rt lm where a: "Allow now ?ip (thr w1) = ((al, rt), lm)" by (metis prod.collapse)
      then have "al = fst (fst (Allow now ?ip (thr w)))" using w1(3) Allow_ignores_bans by (metis fst_conv)
      with no w1(2) have "b \<or> \<not> al" by blast
      with that assms(1) show False by (cases b) (simp_all add: withAuthForKey_def w1(1) a Let_def)
    qed
    with assms(11) show "\<not> fst (IsBanned now (extractClientIP rq) (thr w))" "fst (fst (Allow now (extractClientIP rq) (thr w)))"
      by auto
  qed
  have "granted L now (dbase w) (parseCachedRoute r) (extractClientIP rq) (rq_cookie rq)"
    using withAuthForKey_found [OF assms(1-3) free, of L] assms(11)
      decide_granted [OF assms(4), of now "parseCachedRoute r" "extractClientIP rq" "rq_cookie rq"] by auto
  moreover have "rt_groups r \<noteq> []"
    using assms(6,7) group_concat_nonempty by simp
  ultimately consider
      s where "authorised_ip now (dbase w) (extractClientIP rq) gs s"
    | tok s ids where "rq_cookie rq = Some tok" "live_session now (dbase w) s" "ses_hash s = sha256hex L tok"
        "ids = parseGroupIDs (group_concat (groups_of_user (dbase w) (ses_user s)))"
        "groupsAllow (cr_groupSet (parseCachedRoute r)) ids"
    using assms(9,10) by (auto simp: granted_def cg public_route_def token_holder_def)
  then show ?thesis
  proof cases
    case 1
    with assms(7) show ?thesis by (auto simp: authorised_ip_def)
  next
    case 2
    from 2(5) obtain i g where i: "i \<in> set ids" "g \<in> set gs" "itoa i = itoa g" by (auto simp: groupsAllow_def cg)
    with holder_groups [OF assms(5) 2(4)] assms(5,8) have "(ses_user s, g) \<in> set (user_groups (dbase w))"
      by (auto simp: ids64_def itoa_inj)
    with i 2 show ?thesis by (auto simp: in_some_group_def)
  qed
qed

lemma group_route_members_only_witness:
  "\<exists>s. live_session 50 sample_db s \<and> in_some_group sample_db (ses_user s) [7]"
proof -
  have "fst (withAuthForKey plain_lib 50 ''a.b:80'' lan_request sample_world) = Pass"
  proof -
    have "granted plain_lib 50 sample_db (parseCachedRoute sample_route) ''lan'' None"
      using sample_session [of "[7]"] by (auto simp: granted_def sample_cached)
    with withAuthForKey_found [OF sample_facts(1,2), of "''a.b:80''" "parseCachedRoute sample_route" 50 lan_request plain_lib]
      decide_granted [OF sample_facts(4), of 50 "parseCachedRoute sample_route" "''lan''" None]
    show ?thesis by (simp add: sample_facts)
  qed
  moreover have "ids64 sample_db" "rt_groups sample_route = group_concat [7]" "rt_ips sample_route = []"
    "\<not> rt_require_login sample_route"
    by (simp_all add: ids64_def int64_def sample_route_def new_route_def sample_db_def)
  ultimately show ?thesis
    using group_route_members_only [OF sample_facts(1,2), of "''a.b:80''" sample_route plain_lib "[7]" 50 lan_request]
    by (auto simp: sample_facts int64_def)
qed

text \<open>
  A group list without a numeric id fails open for address authentication. The list makes the
  route restricted, yet every live session on the address is admitted, whatever its user's groups.
\<close>

lemma authorizeIP_unparsed_groups:
  assumes "authStore w" and "authCache w = Some m" and "m url = Some (parseCachedRoute r)" and "store_ready L (dbase w)"
    and "\<forall>e \<in> set (allowed_entries (rt_groups r)). atoi e = None" and "rt_groups r \<noteq> []"
    and "live_session now (dbase w) s" and "cast_text (ses_ip s) = normalizeIP ip"
  shows "\<exists>u. fst (authorizeIP L now url ip w) = Some (True, u)"
proof -
  have "cr_groupIDs (parseCachedRoute r) = []"
    using assms(5) by (simp add: parseCachedRoute_def Let_def List.map_filter_def filter_empty_conv)
  moreover have "authorised_ip now (dbase w) ip [] s" using assms(7,8) by (simp add: authorised_ip_def)
  then obtain sg where "ValidateSessionByIPInGroups L now (dbase w) ip [] = Inr sg"
    using gate.by_ip_law [OF assms(4), of now ip "[]"] by blast
  moreover have "cr_route (parseCachedRoute r) = r" by (simp add: parseCachedRoute_def Let_def)
  ultimately show ?thesis using assms(1-3,6) by (simp add: authorizeIP_def Let_def)
qed

definition named_route :: route where
  "named_route = (new_route 1 0 ''a.b:22'' ''app'' ''tcp'' False [] [] ''ui'' [])\<lparr>rt_groups := ''admins''\<rparr>"

lemma authorizeIP_unparsed_groups_witness:
  "\<exists>u. fst (authorizeIP plain_lib 150 ''a.b:22'' ''lan''
     (sample_world\<lparr>authCache := Some [''a.b:22'' \<mapsto> parseCachedRoute named_route]\<rparr>)) = Some (True, u)"
proof -
  let ?s = "last (sessions sample_db)"
  have n: "normalizeIP ''lan'' = ''lan''"
    by (simp add: normalizeIP_def parse_ip_def trim_space_def is_space_def)
  have live: "live_session 150 sample_db ?s" "cast_text (ses_ip ?s) = ''lan''"
    by (simp_all add: live_session_def sample_db_def empty_db_def)
  have "allowed_entries ''admins'' = [''admins'']"
    by (simp add: allowed_entries_def trim_space_def is_space_def)
  moreover have "atoi ''admins'' = None" by (simp add: atoi_def atoi_nat_def digit_val_def)
  ultimately have "\<forall>e \<in> set (allowed_entries (rt_groups named_route)). atoi e = None"
    by (simp add: named_route_def)
  then show ?thesis
    using live by (intro authorizeIP_unparsed_groups [where s = ?s and r = named_route and m = "[''a.b:22'' \<mapsto> parseCachedRoute named_route]"])
      (simp_all add: sample_facts n, simp_all add: named_route_def)
qed

section \<open>The cache and the log\<close>

interpretation route_index: keyed_store "\<lambda>m. m" "\<lambda>r m. m(rt_url r \<mapsto> parseCachedRoute r)" "\<lambda>k m. m(k := None)"
    rt_url parseCachedRoute
  by unfold_locales simp_all

lemma refresh_cache_map:
  assumes "db_ok (dbase w)" and "\<not> db_fault L ''GetAllRoutes''"
  shows "authCache (refreshCache L now w) = Some (\<lambda>url.
    case route_lookup (dbase w) url of None \<Rightarrow> None | Some r \<Rightarrow> if rt_enabled r then Some (parseCachedRoute r) else None)"
proof -
  let ?rs = "sort_key rt_url (filter rt_enabled (routes (dbase w)))"
  have d: "distinct (map rt_url (routes (dbase w)))" using assms(1) by (simp add: db_ok_def routes_ok_def)
  have "(fold (\<lambda>r m. m(rt_url r \<mapsto> parseCachedRoute r)) ?rs Map.empty) url =
    (case route_lookup (dbase w) url of None \<Rightarrow> None | Some r \<Rightarrow> if rt_enabled r then Some (parseCachedRoute r) else None)" for url
  proof (cases "List.find (\<lambda>r. rt_url r = url) (rev ?rs)")
    case None
    then have "\<forall>r \<in> set (routes (dbase w)). rt_enabled r \<longrightarrow> rt_url r \<noteq> url" by (auto simp: find_none)
    then show ?thesis
      using None by (auto simp: route_index.lookup_fold_put route_lookup_def dest: find_in_set split: option.splits)
  next
    case (Some r)
    from find_in_set [OF Some] have r: "r \<in> set (routes (dbase w))" "rt_enabled r" "rt_url r = url" by auto
    with find_unique [OF d, of r url] Some show ?thesis
      by (simp add: route_index.lookup_fold_put route_lookup_def)
  qed
  with assms(2) show ?thesis by (simp add: refreshCache_def GetAllRoutes_def fun_eq_iff)
qed

text \<open>
  C28: a refresh makes the cache the table: a URL is found exactly when its row is enabled, and
  then with that row's current settings.
\<close>

theorem refreshCache_reflects:
  assumes "db_ok (dbase w)" and "\<not> db_fault L ''GetAllRoutes''"
  shows "authCache (refreshCache L now w) = Some (\<lambda>url.
    case route_lookup (dbase w) url of None \<Rightarrow> None | Some r \<Rightarrow> if rt_enabled r then Some (parseCachedRoute r) else None)"
  using assms by (rule refresh_cache_map)

theorem refreshCache_reflects_witness:
  "authCache (refreshCache plain_lib 0 (world0 route_db)) \<noteq> None \<and>
   the (authCache (refreshCache plain_lib 0 (world0 route_db))) ''a.b:80'' =
     Some (parseCachedRoute (hd (routes route_db)))"
  using refreshCache_reflects [of "world0 route_db" plain_lib 0] route_db_ok
  by (simp add: world0_def) (simp add: route_lookup_def route_db_def new_route_def)

definition logged :: "access_row \<Rightarrow> logEntry" where
  "logged a = \<lparr>le_ip = al_ip a, le_user = al_user a, le_route = al_route a\<rparr>"

lemma drain_step:
  assumes "\<not> db_fault L ''LogAccess''"
  shows "map logged (accesses (dbase (drain_log L now w))) @ logChan (drain_log L now w) =
      map logged (accesses (dbase w)) @ logChan w"
    and "logChan (drain_log L now w) = tl (logChan w)"
  using assms by (simp_all add: drain_log_def LogAccess_def logged_def split: list.splits)

lemma drain_all:
  assumes "\<not> db_fault L ''LogAccess''"
  shows "length xs = length (logChan w) \<Longrightarrow>
    map logged (accesses (dbase (fold (\<lambda>_. drain_log L now) xs w))) = map logged (accesses (dbase w)) @ logChan w \<and>
    logChan (fold (\<lambda>_. drain_log L now) xs w) = []"
proof (induction xs arbitrary: w)
  case (Cons x xs)
  then have "length xs = length (logChan (drain_log L now w))" using drain_step(2) [OF assms, of now w] by simp
  from Cons.IH [OF this] drain_step(1) [OF assms, of now w] show ?case by simp
qed simp

text \<open>
  No queued access entry is lost at shutdown: the stop function leaves an empty queue and the
  table holds every entry that was queued, in order, after the rows it had.
\<close>

lemma stop_auth_flushes:
  assumes "\<not> db_fault L ''LogAccess''"
  shows "logChan (stop_auth L now w) = [] \<and>
    map logged (accesses (dbase (stop_auth L now w))) = map logged (accesses (dbase w)) @ logChan w"
  using drain_all [OF assms, of "logChan w" w now] by (simp add: stop_auth_def)

lemma stop_auth_flushes_witness:
  "map logged (accesses (dbase (stop_auth plain_lib 9 (logAccess ''lan'' ''ann'' ''a.b:80'' sample_world)))) =
   [\<lparr>le_ip = ''lan'', le_user = ''ann'', le_route = ''a.b:80''\<rparr>]"
  using stop_auth_flushes [of plain_lib 9 "logAccess ''lan'' ''ann'' ''a.b:80'' sample_world"]
  by (simp add: logAccess_def sample_world_def world0_def sample_db_def empty_db_def)

end
