(* ===== verification/Registry.thy ===== *)
theory Registry
  imports Schema "HOL-Library.AList"
begin

text \<open>
  api/api.go: the registry of named API handlers, an association list (a Go map that is only
  inserted into and looked up). A handler function is a constructor of \<open>api_handler\<close>.
\<close>

datatype api_handler =
    HandleConfig | HandleLogin | HandleLogout | HandleRegister | HandleMe | HandleUserRoutes
  | HandleAdminUsers | HandleAdminUserGroups | HandleAdminGroups | HandleAdminInvites | HandleAdminRoutes
  | HandleAdminSettings | HandleAdminMetrics | HandleAdminThrottle | HandleUserSessions | HandleExtendSession
  | HandleExample | HandleHealth

type_synonym registry = "(string \<times> api_handler) list"

definition register :: "string \<Rightarrow> api_handler \<Rightarrow> registry \<Rightarrow> err + registry" where
  "register name handler reg =
     (if map_of reg name \<noteq> None then Inl (Msg (''api handler already registered: '' @ name))
      else Inr (AList.update name handler reg))"

fun register_all :: "(string \<times> api_handler) list \<Rightarrow> registry \<Rightarrow> err + registry" where
  "register_all [] reg = Inr reg"
| "register_all ((name, h) # es) reg =
     (case register name h reg of Inl e \<Rightarrow> Inl e | Inr reg' \<Rightarrow> register_all es reg')"

definition builtin_handlers :: "(string \<times> api_handler) list" where
  "builtin_handlers =
     [(''config'', HandleConfig), (''auth/login'', HandleLogin), (''auth/logout'', HandleLogout),
      (''auth/register'', HandleRegister), (''auth/me'', HandleMe), (''auth/routes'', HandleUserRoutes),
      (''admin/users'', HandleAdminUsers), (''admin/users/groups'', HandleAdminUserGroups),
      (''admin/groups'', HandleAdminGroups), (''admin/invites'', HandleAdminInvites),
      (''admin/routes'', HandleAdminRoutes), (''admin/settings'', HandleAdminSettings),
      (''admin/metrics'', HandleAdminMetrics), (''admin/throttle'', HandleAdminThrottle),
      (''auth/sessions'', HandleUserSessions), (''auth/extend'', HandleExtendSession)]"

definition InitBuiltin :: "registry \<Rightarrow> err + registry" where
  "InitBuiltin reg = register_all builtin_handlers reg"

definition InitApi :: "registry \<Rightarrow> err + registry" where
  "InitApi reg = register_all [(''example'', HandleExample), (''health'', HandleHealth)] reg"

definition Get :: "registry \<Rightarrow> string \<Rightarrow> err + api_handler" where
  "Get reg name =
     (case map_of reg name of None \<Rightarrow> Inl (Msg (''api handler not found: '' @ name)) | Some h \<Rightarrow> Inr h)"

text \<open>Registering names that are new and distinct succeeds and makes exactly these available.\<close>

lemma register_all_fresh:
  "distinct (map fst es) \<Longrightarrow> fst ` set es \<inter> dom (map_of reg) = {} \<Longrightarrow>
   \<exists>reg'. register_all es reg = Inr reg' \<and> map_of reg' = map_of reg ++ map_of es"
proof (induction es arbitrary: reg)
  case (Cons e es)
  obtain name h where e: "e = (name, h)" by (cases e)
  have "map_of reg name = None" using Cons.prems(2) by (auto simp: e)
  then have r: "register name h reg = Inr (AList.update name h reg)" by (simp add: register_def)
  have "fst ` set es \<inter> dom (map_of (AList.update name h reg)) = {}"
    using Cons.prems by (auto simp: e update_conv' dom_def split: if_splits)
  moreover have "distinct (map fst es)" using Cons.prems(1) by simp
  ultimately obtain reg' where reg': "register_all es (AList.update name h reg) = Inr reg'"
    "map_of reg' = map_of (AList.update name h reg) ++ map_of es" using Cons.IH by blast
  have "map_of (AList.update name h reg) ++ map_of es = map_of reg ++ map_of (e # es)"
  proof (rule ext)
    fix n
    have "map_of es name = None" using Cons.prems(1) by (simp add: e map_of_eq_None_iff)
    then show "(map_of (AList.update name h reg) ++ map_of es) n = (map_of reg ++ map_of (e # es)) n"
      by (simp add: e update_conv' map_add_def split: option.splits)
  qed
  then have "map_of reg' = map_of reg ++ map_of (e # es)" using reg'(2) by (rule trans [rotated])
  moreover have "register_all (e # es) reg = Inr reg'" using reg'(1) by (simp add: e r)
  ultimately show ?case by blast
qed simp

definition initialised :: "registry \<Rightarrow> bool" where
  "initialised reg \<longleftrightarrow> (\<exists>r. InitBuiltin [] = Inr r \<and> InitApi r = Inr reg)"

lemma registry_available:
  "\<exists>reg. initialised reg \<and> map_of reg =
     map_of (builtin_handlers @ [(''example'', HandleExample), (''health'', HandleHealth)])"
proof -
  obtain r where r: "InitBuiltin [] = Inr r" "map_of r = map_of builtin_handlers"
    using register_all_fresh [of builtin_handlers "[]"]
    by (auto simp: InitBuiltin_def builtin_handlers_def)
  have "fst ` set [(''example'', HandleExample), (''health'', HandleHealth)] \<inter> dom (map_of r) = {}"
    by (simp add: r(2) builtin_handlers_def)
  with register_all_fresh [of "[(''example'', HandleExample), (''health'', HandleHealth)]" r]
  obtain reg where reg: "InitApi r = Inr reg"
    "map_of reg = map_of r ++ map_of [(''example'', HandleExample), (''health'', HandleHealth)]"
    by (auto simp: InitApi_def)
  have "map_of builtin_handlers ++ map_of [(''example'', HandleExample), (''health'', HandleHealth)] =
    map_of (builtin_handlers @ [(''example'', HandleExample), (''health'', HandleHealth)])"
    by (simp add: builtin_handlers_def fun_eq_iff map_add_def)
  with r reg show ?thesis by (auto simp: initialised_def)
qed

end
