(* ===== verification/TlsSetup.thy ===== *)
theory TlsSetup
  imports Schema
begin

text \<open>
  proxy/tls.go, and the transport of proxy/reverseProxy.go. Whether \<^verbatim>\<open>crypto/tls\<close> loads the key pair is a field
  of \<open>lib\<close>; the certificate as \<^verbatim>\<open>crypto/x509\<close> parses it is an argument, its time of expiry.
\<close>

section \<open>The server side\<close>

datatype tls_version = TLS12 | TLS13

datatype curve = X25519 | CurveP256 | X25519MLKEM768

datatype key_auth = ECDSA | RSA
datatype aead = AES_256_GCM_SHA384 | CHACHA20_POLY1305 | AES_128_GCM_SHA256

text \<open>A suite of \<^verbatim>\<open>TLS 1.2\<close>: every one in the list exchanges its key by ECDHE.\<close>

datatype suite = ECDHE key_auth aead

record tls_config =
  tc_cert :: "string \<times> string"
  tc_curves :: "curve list"
  tc_min :: tls_version
  tc_suites :: "suite list"

definition createTLSConfig :: "lib \<Rightarrow> string \<Rightarrow> string \<Rightarrow> err + tls_config" where
  "createTLSConfig L certPath keyPath =
     (if \<not> tls_loads L certPath keyPath then Inl (Msg ''load TLS certificate'')
      else Inr \<lparr>tc_cert = (certPath, keyPath), tc_curves = [X25519, CurveP256, X25519MLKEM768], tc_min = TLS12,
                tc_suites = [ECDHE ECDSA AES_256_GCM_SHA384, ECDHE RSA AES_256_GCM_SHA384,
                  ECDHE ECDSA CHACHA20_POLY1305, ECDHE RSA CHACHA20_POLY1305,
                  ECDHE ECDSA AES_128_GCM_SHA256, ECDHE RSA AES_128_GCM_SHA256]\<rparr>)"

text \<open>\<^verbatim>\<open>Duration.Hours\<close>, and what the load of a certificate writes to the log.\<close>

definition hours :: "duration \<Rightarrow> rat" where
  "hours d =
     (let h = sgn d * (\<bar>d\<bar> div Hour); n = sgn d * (\<bar>d\<bar> mod Hour)
      in fl (fl (of_int h) + fl (fl (of_int n) / of_int Hour)))"

datatype cert_log = NoCertLog | ExpiresSoon int time | CertLoaded int time

definition days_until_expiry :: "time \<Rightarrow> time \<Rightarrow> rat" where
  "days_until_expiry now notAfter = fl (hours (time_sub notAfter now) / 24)"

definition cert_notice :: "time \<Rightarrow> time option \<Rightarrow> cert_log" where
  \<comment> \<open>the leaf's \<^verbatim>\<open>NotAfter\<close>, when there is a leaf and it parses\<close>
  "cert_notice now leaf =
     (case leaf of
        None \<Rightarrow> NoCertLog
      | Some notAfter \<Rightarrow>
          let d = days_until_expiry now notAfter
          in if d < 7 then ExpiresSoon (float_to_int d) notAfter else CertLoaded (float_to_int d) notAfter)"

section \<open>The backend side\<close>

record transport =
  bt_max_idle :: int
  bt_max_idle_host :: int
  bt_idle_timeout :: duration
  bt_no_keepalive :: bool
  bt_tls :: "(string \<times> tls_version) option"

text \<open>\<^verbatim>\<open>URL.Hostname\<close>: the host without a port, and without the brackets of an IPv6 address.\<close>

definition url_hostname :: "string \<Rightarrow> string" where
  "url_hostname host =
     (let h = (case rev (split_on (CHR '':'') host) of
                 p # q # qs \<Rightarrow> if list_all (\<lambda>c. c \<in> set ''0123456789'') p then join_with '':'' (rev (q # qs)) else host
               | _ \<Rightarrow> host)
      in if has_prefix h ''['' \<and> has_suffix h '']'' then butlast (drop 1 h) else h)"

definition backend_transport :: "string \<Rightarrow> string \<Rightarrow> transport" where
  "backend_transport targetAddr host =
     \<lparr>bt_max_idle = 100, bt_max_idle_host = 10, bt_idle_timeout = 90 * Second, bt_no_keepalive = False,
      bt_tls = (if has_prefix targetAddr ''https://'' then Some (url_hostname host, TLS12) else None)\<rparr>"

section \<open>What holds\<close>

lemma createTLSConfig_result:
  "createTLSConfig L c k = (if tls_loads L c k then Inr (projr (createTLSConfig L c k)) else Inl (Msg ''load TLS certificate''))"
  by (simp add: createTLSConfig_def)

lemma createTLSConfig_fails [simp]: "isl (createTLSConfig L c k) \<longleftrightarrow> \<not> tls_loads L c k"
  by (simp add: createTLSConfig_def)

text \<open>
  The notice is exact: whatever the roundings, a certificate with less than seven days left is announced as
  expiring, an expired one included, and no other.
\<close>

lemma fl_nonpos: "x \<le> 0 \<Longrightarrow> fl x \<le> 0"
proof -
  assume x: "x \<le> 0"
  define e where "e = ulp_exp \<bar>x\<bar>"
  have "x / 2 powi e \<le> of_int 0" using x by (simp add: divide_nonpos_pos)
  then have "round_even (x / 2 powi e) \<le> 0" using round_even_mono round_even_int by metis
  then have "(of_int (round_even (x / 2 powi e)) :: rat) * 2 powi e \<le> 0" by (intro mult_nonpos_nonneg) simp_all
  then show ?thesis by (simp add: fl_def Let_def flip: e_def)
qed

lemma week_left:
  assumes "168 * Hour \<le> d"
  shows "7 \<le> fl (hours d / 24)"
proof -
  have d: "0 < d" using assms by (simp add: time_defs)
  have "168 \<le> d div Hour" using assms by (simp add: time_defs)
  then have "fl (of_int 168) \<le> fl (of_int (d div Hour))" by (intro fl_mono) simp_all
  then have "168 \<le> fl (of_int (d div Hour))" using fl_int [of 168] by simp
  moreover have "0 \<le> fl (fl (of_int (d mod Hour)) / of_int Hour)"
    by (intro fl_nonneg divide_nonneg_pos) (simp_all add: time_defs)
  ultimately have "fl (of_int 168) \<le> hours d" unfolding hours_def Let_def using d by (simp add: fl_mono)
  then have "fl (of_int 7) \<le> fl (hours d / 24)" using fl_int [of 168] by (intro fl_mono) simp_all
  then show ?thesis using fl_int [of 7] by simp
qed

lemma less_than_week_left:
  assumes "d < 168 * Hour"
  shows "fl (hours d / 24) < 7"
proof (cases "0 < d")
  case False
  then have "hours d \<le> 0"
    unfolding hours_def Let_def by (intro fl_nonpos add_nonpos_nonpos divide_nonpos_pos) (auto simp: sgn_if time_defs)
  then have "fl (hours d / 24) \<le> 0" by (intro fl_nonpos) simp
  then show ?thesis by simp
next
  case True
  let ?q = "fl (3599999999999 / 3600000000000)"
  have h: "d div Hour \<le> 167" "0 \<le> d div Hour" using assms True by (simp_all add: time_defs)
  have n: "0 \<le> d mod Hour" "d mod Hour \<le> 3599999999999" by (simp_all add: time_defs)
  have "fl (of_int (d mod Hour)) = of_int (d mod Hour)" using n by (intro fl_int) simp_all
  moreover have "fl (of_int (d div Hour)) = of_int (d div Hour)" using h by (intro fl_int) simp_all
  ultimately have hd: "hours d = fl (of_int (d div Hour) + fl (of_int (d mod Hour) / of_int Hour))"
    using True by (simp add: hours_def)
  have "(of_int (d mod Hour) :: rat) \<le> of_int 3599999999999" using n by (simp only: of_int_le_iff)
  then have "fl (of_int (d mod Hour) / of_int Hour) \<le> ?q"
    using n by (intro fl_mono) (simp_all add: time_defs divide_right_mono)
  moreover have "(of_int (d div Hour) :: rat) \<le> of_int 167" using h by (simp only: of_int_le_iff)
  moreover have "0 \<le> fl (of_int (d mod Hour) / of_int Hour)" using n by (intro fl_nonneg) (simp add: time_defs)
  ultimately have "hours d \<le> fl (167 + ?q)" "0 \<le> hours d"
    unfolding hd using h by (auto intro!: fl_mono fl_nonneg)
  then have "fl (hours d / 24) \<le> fl (fl (167 + ?q) / 24)" by (intro fl_mono) simp_all
  also have "\<dots> < 7" by code_simp
  finally show ?thesis .
qed

lemma cert_notice_exact:
  "(\<exists>d. cert_notice now (Some notAfter) = ExpiresSoon d notAfter) \<longleftrightarrow> notAfter - now < 168 * Hour"
proof -
  have "notAfter - now < 168 * Hour \<longleftrightarrow> time_sub notAfter now < 168 * Hour" by (auto simp: time_sub_def time_defs)
  moreover have "fl (hours d / 24) < 7 \<longleftrightarrow> d < 168 * Hour" for d
    using week_left [of d] less_than_week_left [of d] by (cases "d < 168 * Hour") auto
  ultimately show ?thesis by (auto simp: cert_notice_def days_until_expiry_def Let_def)
qed

end
