(* ===== verification/RouteTable.thy ===== *)
theory RouteTable
  imports Access Registry TlsSetup
begin

text \<open>
  proxy/proxy.go with proxy/static.go, proxy/api.go, proxy/reverseProxy.go and the listener start of
  proxy/listeners.go: the live route table. Go maps that are iterated or copied are association
  lists; \<^verbatim>\<open>tcpCancels\<close> and \<^verbatim>\<open>udpCancels\<close> hold, for each port, the target and URL of the relay that the
  cancel function stops. A handler is a value of \<open>handler\<close>, built as the code nests its closures.
\<close>

record ProxyRoute =
  pr_url :: string
  pr_target :: string
  pr_type :: string
  pr_tls :: bool
  pr_cert :: string
  pr_key :: string
  pr_inject :: bool

datatype handler =
    FolderHandler string
  | FileHandler string string
  | ApiHandler api_handler
  | BackendHandler string string
  | OtelHandler handler
  | AuthHandler string handler
  | InjectHandler handler

record listenServer =
  ls_port :: string
  ls_tls :: bool
  ls_cert :: string
  ls_key :: string
  ls_routes :: "(string \<times> ProxyRoute) list"
  ls_handlers :: "(string \<times> handler) list"

record proxy =
  px_routes :: "ProxyRoute list"
  px_servers :: "(string \<times> listenServer) list"
  px_tcp :: "(string \<times> (string \<times> string)) list"
  px_udp :: "(string \<times> (string \<times> string)) list"
  px_live :: "string list"
  px_started :: bool
  px_otel :: bool
  px_errs :: "err list"

definition parseHostPort :: "string \<Rightarrow> err + string \<times> string" where
  "parseHostPort rawURL =
     (case last_index (CHR '':'') rawURL of
        None \<Rightarrow> Inl (Msg ''parse url: no port defined'')
      | Some i \<Rightarrow> Inr (take i rawURL, drop (Suc i) rawURL))"

section \<open>Creating handlers\<close>

text \<open>\<^verbatim>\<open>filepath.Clean\<close>, \<^verbatim>\<open>Dir\<close> and \<^verbatim>\<open>Base\<close> on a slash-separated system.\<close>

definition clean_step :: "bool \<Rightarrow> string \<Rightarrow> string list \<Rightarrow> string list" where
  "clean_step rooted e out =
     (if e = [] \<or> e = ''.'' then out
      else if e = ''..'' then
        (if out \<noteq> [] \<and> last out \<noteq> ''..'' then butlast out else if rooted then out else out @ [e])
      else out @ [e])"

definition path_clean :: "string \<Rightarrow> string" where
  "path_clean p =
     (let rooted = has_prefix p ''/''; out = fold (clean_step rooted) (split_on (CHR ''/'') p) [];
          s = (if rooted then ''/'' else []) @ join_with ''/'' out
      in if s = [] then ''.'' else s)"

definition path_dir :: "string \<Rightarrow> string" where
  "path_dir p = path_clean (case last_index (CHR ''/'') p of None \<Rightarrow> [] | Some i \<Rightarrow> take (Suc i) p)"

definition path_base :: "string \<Rightarrow> string" where
  "path_base p =
     (if p = [] then ''.''
      else let t = rev (dropWhile (\<lambda>c. c = CHR ''/'') (rev p));
               b = (case last_index (CHR ''/'') t of None \<Rightarrow> t | Some i \<Rightarrow> drop (Suc i) t)
        in if b = [] then ''/'' else b)"

definition fileHandler :: "lib \<Rightarrow> ProxyRoute \<Rightarrow> err + handler" where
  "fileHandler L r =
     (let dir = path_dir (pr_target r); filename = path_base (pr_target r)
      in if \<not> os_open_root L dir then Inl (Msg (''open root '' @ dir)) else Inr (FileHandler dir filename))"

definition folderHandler :: "lib \<Rightarrow> ProxyRoute \<Rightarrow> err + handler" where
  "folderHandler L r =
     (if \<not> os_open_root L (pr_target r) then Inl (Msg (''open root '' @ pr_target r))
      else Inr (FolderHandler (pr_target r)))"

definition createStaticHandler :: "lib \<Rightarrow> ProxyRoute \<Rightarrow> err + handler" where
  "createStaticHandler L r =
     (case os_stat L (pr_target r) of
        None \<Rightarrow> Inl (Msg (''cant open static path '' @ pr_target r))
      | Some IsDir \<Rightarrow> folderHandler L r
      | Some IsRegular \<Rightarrow> fileHandler L r
      | Some IsOther \<Rightarrow> Inl (Msg (''unsupported file type: '' @ pr_target r)))"

definition createAPIHandler :: "registry \<Rightarrow> ProxyRoute \<Rightarrow> err + handler" where
  "createAPIHandler reg r =
     (case Get reg (pr_target r) of
        Inl e \<Rightarrow> Inl (Msg (''api function '' @ pr_target r)) | Inr h \<Rightarrow> Inr (ApiHandler h))"

definition createReverseProxy :: "lib \<Rightarrow> ProxyRoute \<Rightarrow> err + handler" where
  "createReverseProxy L r =
     (let targetAddr = (if \<not> has_prefix (pr_target r) ''http://'' \<and> \<not> has_prefix (pr_target r) ''https://''
                        then ''http://'' @ pr_target r else pr_target r)
      in case url_parse L targetAddr of
           None \<Rightarrow> Inl (Msg (''invalid target URL '' @ targetAddr))
         | Some host \<Rightarrow> Inr (BackendHandler targetAddr host))"

definition createHandlerForRoute :: "lib \<Rightarrow> registry \<Rightarrow> ProxyRoute \<Rightarrow> bool \<Rightarrow> err + handler" where
  "createHandlerForRoute L reg r otel =
     (case (if pr_type r = ''static'' then createStaticHandler L r
            else if pr_type r = ''api'' then createAPIHandler reg r
            else if pr_type r = ''proxy'' \<or> pr_type r = [] then createReverseProxy L r
            else Inl (Msg (''unknown handler type: '' @ pr_type r))) of
        Inl e \<Rightarrow> Inl e
      | Inr h \<Rightarrow> Inr (if otel then OtelHandler h else h))"

definition wrapRouteHandler :: "ProxyRoute \<Rightarrow> handler \<Rightarrow> handler" where
  "wrapRouteHandler r raw =
     (let h = AuthHandler (pr_url r) raw in if pr_inject r then InjectHandler h else h)"

section \<open>Start-up\<close>

record parse_state =
  ps_urls :: "string list"
  ps_tcp :: "string list"
  ps_udp :: "string list"
  ps_servers :: "(string \<times> listenServer) list"

definition raw_step :: "string \<Rightarrow> ProxyRoute \<Rightarrow> parse_state \<Rightarrow> err + parse_state" where
  "raw_step port r st =
     (if isTCP (pr_type r) \<and> port \<in> set (ps_tcp st) then Inl (Msg (''duplicate TCP port '' @ port))
      else if isTCP (pr_type r) \<and> map_of (ps_servers st) port \<noteq> None
        then Inl (Msg (''port '' @ port @ '' used by both HTTP and TCP routes''))
      else let st1 = (if isTCP (pr_type r) then st\<lparr>ps_tcp := port # ps_tcp st\<rparr> else st)
        in if isUDP (pr_type r) \<and> port \<in> set (ps_udp st1) then Inl (Msg (''duplicate UDP port '' @ port))
           else Inr (if isUDP (pr_type r) then st1\<lparr>ps_udp := port # ps_udp st1\<rparr> else st1))"

definition http_step :: "lib \<Rightarrow> string \<Rightarrow> string \<Rightarrow> ProxyRoute \<Rightarrow> parse_state \<Rightarrow> err + parse_state" where
  "http_step L host port r st =
     (if port \<in> set (ps_tcp st) then Inl (Msg (''port '' @ port @ '' used by both TCP and HTTP routes''))
      else if pr_tls r \<and> (pr_cert r = [] \<or> pr_key r = [])
        then Inl (Msg (''route '' @ pr_url r @ '' has TLS enabled but missing cert/key paths''))
      else if pr_tls r \<and> os_stat L (pr_cert r) = None then Inl (Msg (''cert file not found: '' @ pr_cert r))
      else if pr_tls r \<and> os_stat L (pr_key r) = None then Inl (Msg (''key file not found: '' @ pr_key r))
      else case map_of (ps_servers st) port of
          Some ls \<Rightarrow>
            if ls_tls ls \<noteq> pr_tls r then Inl (Msg ''tls configuration: cant have port listen on tls true and false'')
            else Inr (st\<lparr>ps_servers := AList.update port
                  (ls\<lparr>ls_routes := AList.update host r (ls_routes ls)\<rparr>) (ps_servers st)\<rparr>)
        | None \<Rightarrow>
            Inr (st\<lparr>ps_servers := AList.update port
                  \<lparr>ls_port = port, ls_tls = pr_tls r, ls_cert = pr_cert r, ls_key = pr_key r,
                   ls_routes = [(host, r)], ls_handlers = []\<rparr> (ps_servers st)\<rparr>))"

definition parse_step :: "lib \<Rightarrow> ProxyRoute \<Rightarrow> parse_state \<Rightarrow> err + parse_state" where
  "parse_step L r st =
     (case parseHostPort (pr_url r) of
        Inl e \<Rightarrow> Inl (Msg (''parse route '' @ pr_url r))
      | Inr (host, port) \<Rightarrow>
          if pr_url r \<in> set (ps_urls st) then Inl (Msg (''duplicate URL configuration: '' @ host))
          else let st1 = st\<lparr>ps_urls := pr_url r # ps_urls st\<rparr>
            in if isRaw (pr_type r) then raw_step port r st1 else http_step L host port r st1)"

fun parse_loop :: "lib \<Rightarrow> ProxyRoute list \<Rightarrow> parse_state \<Rightarrow> err + parse_state" where
  "parse_loop L [] st = Inr st"
| "parse_loop L (r # rs) st = (case parse_step L r st of Inl e \<Rightarrow> Inl e | Inr st' \<Rightarrow> parse_loop L rs st')"

definition parse0 :: parse_state where
  "parse0 = \<lparr>ps_urls = [], ps_tcp = [], ps_udp = [], ps_servers = []\<rparr>"

definition parseProxies :: "lib \<Rightarrow> ProxyRoute list \<Rightarrow> err + (string \<times> listenServer) list" where
  "parseProxies L rs = (case parse_loop L rs parse0 of Inl e \<Rightarrow> Inl e | Inr st \<Rightarrow> Inr (ps_servers st))"

fun handlers_for :: "lib \<Rightarrow> registry \<Rightarrow> bool \<Rightarrow> (string \<times> ProxyRoute) list \<Rightarrow> err + (string \<times> handler) list" where
  "handlers_for L reg otel [] = Inr []"
| "handlers_for L reg otel ((host, r) # rs) =
     (case createHandlerForRoute L reg r otel of
        Inl e \<Rightarrow> Inl (Msg (''create handler for '' @ pr_url r))
      | Inr raw \<Rightarrow>
          (case handlers_for L reg otel rs of
             Inl e \<Rightarrow> Inl e | Inr hs \<Rightarrow> Inr ((host, wrapRouteHandler r raw) # hs)))"

fun initProxies ::
  "lib \<Rightarrow> registry \<Rightarrow> bool \<Rightarrow> (string \<times> listenServer) list \<Rightarrow> err + (string \<times> listenServer) list" where
  "initProxies L reg otel [] = Inr []"
| "initProxies L reg otel ((port, ls) # servers) =
     (case handlers_for L reg otel (ls_routes ls) of
        Inl e \<Rightarrow> Inl e
      | Inr hs \<Rightarrow>
          (case initProxies L reg otel servers of
             Inl e \<Rightarrow> Inl e | Inr servers' \<Rightarrow> Inr ((port, ls\<lparr>ls_handlers := hs\<rparr>) # servers')))"

text \<open>\<^verbatim>\<open>startListener\<close>: only the TLS configuration can fail; the serving goroutine binds later.\<close>

definition startListener :: "lib \<Rightarrow> listenServer \<Rightarrow> proxy \<Rightarrow> proxy \<times> (err + unit)" where
  "startListener L ls px =
     (let serving = (px\<lparr>px_live := px_live px @ [ls_port ls]\<rparr>, Inr ())
      in if ls_tls ls then
           (case createTLSConfig L (ls_cert ls) (ls_key ls) of
              Inl e \<Rightarrow> (px, Inl (Msg (''TLS config for port '' @ ls_port ls)))
            | Inr cfg \<Rightarrow> serving)
         else serving)"

lemma startListener_eq:
  "startListener L ls px =
     (if ls_tls ls \<and> \<not> tls_loads L (ls_cert ls) (ls_key ls)
      then (px, Inl (Msg (''TLS config for port '' @ ls_port ls)))
      else (px\<lparr>px_live := px_live px @ [ls_port ls]\<rparr>, Inr ()))"
  by (simp add: startListener_def Let_def createTLSConfig_def)

fun startListeners :: "lib \<Rightarrow> (string \<times> listenServer) list \<Rightarrow> proxy \<Rightarrow> proxy" where
  "startListeners L [] px = px"
| "startListeners L ((port, ls) # servers) px =
     (case startListener L ls px of
        (px', Inr u) \<Rightarrow> startListeners L servers px'
      | (px', Inl e) \<Rightarrow> px'\<lparr>px_errs := px_errs px' @ [e]\<rparr>)"

definition startTCPProxy :: "string \<Rightarrow> string \<Rightarrow> string \<Rightarrow> proxy \<Rightarrow> proxy" where
  "startTCPProxy port target routeUrl px =
     (if \<not> px_started px then px else px\<lparr>px_tcp := AList.update port (target, routeUrl) (px_tcp px)\<rparr>)"

definition startUDPProxy :: "string \<Rightarrow> string \<Rightarrow> string \<Rightarrow> proxy \<Rightarrow> proxy" where
  "startUDPProxy port target routeUrl px =
     (if \<not> px_started px then px else px\<lparr>px_udp := AList.update port (target, routeUrl) (px_udp px)\<rparr>)"

definition stopTCPProxy :: "string \<Rightarrow> proxy \<Rightarrow> proxy" where
  "stopTCPProxy port px = px\<lparr>px_tcp := AList.delete port (px_tcp px)\<rparr>"

definition stopUDPProxy :: "string \<Rightarrow> proxy \<Rightarrow> proxy" where
  "stopUDPProxy port px = px\<lparr>px_udp := AList.delete port (px_udp px)\<rparr>"

definition start_raw :: "ProxyRoute \<Rightarrow> proxy \<Rightarrow> proxy" where
  \<comment> \<open>the error of \<^verbatim>\<open>parseHostPort\<close> is dropped, leaving the port empty\<close>
  "start_raw r px =
     (let port = (case parseHostPort (pr_url r) of Inl e \<Rightarrow> [] | Inr (h, p) \<Rightarrow> p);
          px1 = (if isTCP (pr_type r) then startTCPProxy port (pr_target r) (pr_url r) px else px)
      in if isUDP (pr_type r) then startUDPProxy port (pr_target r) (pr_url r) px1 else px1)"

definition StartProxy :: "lib \<Rightarrow> registry \<Rightarrow> bool \<Rightarrow> ProxyRoute list \<Rightarrow> err + proxy" where
  "StartProxy L reg otel rs =
     (case parseProxies L rs of
        Inl e \<Rightarrow> Inl (Msg ''parse proxies'')
      | Inr servers0 \<Rightarrow>
          (case initProxies L reg otel servers0 of
             Inl e \<Rightarrow> Inl (Msg ''init proxies'')
           | Inr servers \<Rightarrow>
               Inr (fold start_raw rs (startListeners L servers
                 \<lparr>px_routes = rs, px_servers = servers, px_tcp = [], px_udp = [], px_live = [],
                  px_started = True, px_otel = otel, px_errs = []\<rparr>))))"

section \<open>Changes at run time\<close>

definition ValidateRoute :: "proxy \<Rightarrow> string \<Rightarrow> string \<Rightarrow> err + unit" where
  "ValidateRoute px url routeType =
     (case parseHostPort url of
        Inl e \<Rightarrow> Inl (Msg (''invalid url: expected host:port''))
      | Inr (host, port) \<Rightarrow>
          if routeType \<notin> {''proxy'', ''tcp'', ''udp'', ''tcp+udp'', ''static'', ''api'', []}
          then Inl (Msg (''unknown route type''))
          else let hasTCP = (map_of (px_tcp px) port \<noteq> None); hasUDP = (map_of (px_udp px) port \<noteq> None);
                   hasHTTP = (map_of (px_servers px) port \<noteq> None);
                   needsTCP = isTCP routeType; needsUDP = isUDP routeType; isHTTP = (\<not> isRaw routeType)
            in if (needsTCP \<or> isHTTP) \<and> hasTCP then Inl (Msg (''port '' @ port @ '' is already used by a TCP route''))
               else if needsTCP \<and> hasHTTP then Inl (Msg (''port '' @ port @ '' is already used by an HTTP route''))
               else if needsUDP \<and> hasUDP then Inl (Msg (''port '' @ port @ '' is already used by a UDP route''))
               else Inr ())"

definition install :: "string \<Rightarrow> string \<Rightarrow> ProxyRoute \<Rightarrow> handler \<Rightarrow> listenServer \<Rightarrow> proxy \<Rightarrow> proxy" where
  "install host port r h ls px =
     px\<lparr>px_servers := AList.update port
        (ls\<lparr>ls_routes := AList.update host r (ls_routes ls), ls_handlers := AList.update host h (ls_handlers ls)\<rparr>)
        (px_servers px)\<rparr>"

definition RegisterRoute :: "lib \<Rightarrow> registry \<Rightarrow> ProxyRoute \<Rightarrow> proxy \<Rightarrow> proxy \<times> (err + unit)" where
  "RegisterRoute L reg r px =
     (case parseHostPort (pr_url r) of
        Inl e \<Rightarrow> (px, Inl (Msg ''parse route url''))
      | Inr (host, port) \<Rightarrow>
          if isRaw (pr_type r) then
            (let px1 = (if isTCP (pr_type r) then startTCPProxy port (pr_target r) (pr_url r) px else px)
             in (if isUDP (pr_type r) then startUDPProxy port (pr_target r) (pr_url r) px1 else px1, Inr ()))
          else
            let ready = (case map_of (px_servers px) port of
                  Some ls \<Rightarrow> (px, Inr ls)
                | None \<Rightarrow>
                    if map_of (px_tcp px) port \<noteq> None
                    then (px, Inl (Msg (''port '' @ port @ '' is already used by a TCP route'')))
                    else let ls = \<lparr>ls_port = port, ls_tls = pr_tls r, ls_cert = pr_cert r, ls_key = pr_key r,
                                   ls_routes = [], ls_handlers = []\<rparr>;
                             px1 = px\<lparr>px_servers := AList.update port ls (px_servers px)\<rparr>
                      in case startListener L ls px1 of
                           (px2, Inl e) \<Rightarrow> (px2\<lparr>px_servers := AList.delete port (px_servers px2)\<rparr>,
                                            Inl (Msg (''start listener on port '' @ port)))
                         | (px2, Inr u) \<Rightarrow> (px2, Inr ls))
            in case ready of
                 (px', Inl e) \<Rightarrow> (px', Inl e)
               | (px', Inr ls) \<Rightarrow>
                   (case createHandlerForRoute L reg r (px_otel px') of
                      Inl e \<Rightarrow> (px', Inl (Msg ''create handler''))
                    | Inr raw \<Rightarrow> (install host port r (wrapRouteHandler r raw) ls px', Inr ())))"

definition UnregisterRoute :: "string \<Rightarrow> proxy \<Rightarrow> proxy" where
  "UnregisterRoute url px =
     (case parseHostPort url of
        Inl e \<Rightarrow> px
      | Inr (host, port) \<Rightarrow>
          (case map_of (px_servers px) port of
             Some ls \<Rightarrow> px\<lparr>px_servers := AList.update port
                 (ls\<lparr>ls_routes := AList.delete host (ls_routes ls), ls_handlers := AList.delete host (ls_handlers ls)\<rparr>)
                 (px_servers px)\<rparr>
           | None \<Rightarrow> stopUDPProxy port (stopTCPProxy port px)))"

section \<open>URLs\<close>

lemma parseHostPort_url:
  assumes "parseHostPort u = Inr (h, p)"
  shows "u = h @ CHR '':'' # p" and "CHR '':'' \<notin> set p"
proof -
  obtain i where i: "last_index (CHR '':'') u = Some i" "h = take i u" "p = drop (Suc i) u"
    using assms by (auto simp: parseHostPort_def split: option.splits)
  have "u = take i u @ u ! i # drop (Suc i) u" using last_index_Some [OF i(1)] by (intro id_take_nth_drop) simp
  with last_index_Some [OF i(1)] i(2,3) show "u = h @ CHR '':'' # p" and "CHR '':'' \<notin> set p"
    by simp_all
qed

lemma parseHostPort_join: "CHR '':'' \<notin> set p \<Longrightarrow> parseHostPort (h @ CHR '':'' # p) = Inr (h, p)"
  by (simp add: parseHostPort_def last_index_append)

definition host_of :: "ProxyRoute \<Rightarrow> string" where
  "host_of r = (case parseHostPort (pr_url r) of Inl e \<Rightarrow> [] | Inr (h, p) \<Rightarrow> h)"

definition port_of :: "ProxyRoute \<Rightarrow> string" where
  "port_of r = (case parseHostPort (pr_url r) of Inl e \<Rightarrow> [] | Inr (h, p) \<Rightarrow> p)"

section \<open>Port maps are keyed stores\<close>

interpretation port_map: keyed_store map_of "\<lambda>e m. AList.update (fst e) (snd e) m" AList.delete fst snd
  by unfold_locales (simp_all add: update_conv' delete_conv')

lemma map_of_update [simp]: "map_of (AList.update k v m) k' = (if k' = k then Some v else map_of m k')"
  using port_map.lookup_put [of "(k, v)" m k'] by simp

lemma map_of_delete [simp]: "map_of (AList.delete k m) k' = (if k' = k then None else map_of m k')"
  by (rule port_map.lookup_del)

section \<open>What a successful parse guarantees\<close>

definition parsed_urls :: "ProxyRoute list \<Rightarrow> parse_state \<Rightarrow> bool" where
  "parsed_urls rs st \<longleftrightarrow> (\<forall>r \<in> set rs. \<exists>h p. parseHostPort (pr_url r) = Inr (h, p)) \<and>
     ps_urls st = rev (map pr_url rs) \<and> distinct (map pr_url rs)"

definition parsed_ports :: "ProxyRoute list \<Rightarrow> parse_state \<Rightarrow> bool" where
  "parsed_ports rs st \<longleftrightarrow>
     ps_tcp st = rev (map port_of (filter (\<lambda>r. isTCP (pr_type r)) rs)) \<and>
     distinct (map port_of (filter (\<lambda>r. isTCP (pr_type r)) rs)) \<and>
     ps_udp st = rev (map port_of (filter (\<lambda>r. isUDP (pr_type r)) rs)) \<and>
     distinct (map port_of (filter (\<lambda>r. isUDP (pr_type r)) rs)) \<and>
     (\<forall>p \<in> set (ps_tcp st). map_of (ps_servers st) p = None)"

definition parsed_servers :: "ProxyRoute list \<Rightarrow> parse_state \<Rightarrow> bool" where
  "parsed_servers rs st \<longleftrightarrow>
     (\<forall>r \<in> set rs. \<not> isRaw (pr_type r) \<longrightarrow>
        (\<exists>ls. map_of (ps_servers st) (port_of r) = Some ls \<and> map_of (ls_routes ls) (host_of r) = Some r \<and>
          ls_tls ls = pr_tls r)) \<and>
     (\<forall>p ls. map_of (ps_servers st) p = Some ls \<longrightarrow> ls_port ls = p \<and>
        (\<forall>h r. map_of (ls_routes ls) h = Some r \<longrightarrow> pr_url r = h @ CHR '':'' # p))"

definition parsed :: "ProxyRoute list \<Rightarrow> parse_state \<Rightarrow> bool" where
  "parsed rs st \<longleftrightarrow> parsed_urls rs st \<and> parsed_ports rs st \<and> parsed_servers rs st"

lemma same_host_port:
  assumes "parseHostPort (pr_url r) = Inr (h, p)" "parseHostPort (pr_url r') = Inr (h', p')"
    and "pr_url r \<noteq> pr_url r'"
  shows "port_of r \<noteq> port_of r' \<or> host_of r \<noteq> host_of r'"
  using parseHostPort_url(1) [OF assms(1)] parseHostPort_url(1) [OF assms(2)] assms
  by (auto simp: host_of_def port_of_def)

lemma raw_step_result:
  assumes "raw_step p r st = Inr st'"
  shows "st' = st\<lparr>ps_tcp := (if isTCP (pr_type r) then p # ps_tcp st else ps_tcp st),
      ps_udp := (if isUDP (pr_type r) then p # ps_udp st else ps_udp st)\<rparr>"
    and "isTCP (pr_type r) \<Longrightarrow> p \<notin> set (ps_tcp st) \<and> map_of (ps_servers st) p = None"
    and "isUDP (pr_type r) \<Longrightarrow> p \<notin> set (ps_udp st)"
  using assms by (simp_all add: raw_step_def Let_def split: if_split_asm)

lemma raw_step_parsed:
  assumes "parsed rs st" "parseHostPort (pr_url r) = Inr (h, p)" "pr_url r \<notin> set (ps_urls st)" "isRaw (pr_type r)"
    and "raw_step p r (st\<lparr>ps_urls := pr_url r # ps_urls st\<rparr>) = Inr st'"
  shows "parsed (rs @ [r]) st'"
proof -
  have port: "port_of r = p" using assms(2) by (simp add: port_of_def)
  note res = raw_step_result [OF assms(5)]
  have "parsed_urls (rs @ [r]) st'"
    using assms(1-3) by (simp add: parsed_def parsed_urls_def res(1))
  moreover have "parsed_ports (rs @ [r]) st'"
    using assms(1) res(2,3) port unfolding parsed_def parsed_ports_def res(1) by simp
  moreover have "parsed_servers (rs @ [r]) st'"
    using assms(1,4) by (simp add: parsed_def parsed_servers_def res(1))
  ultimately show ?thesis by (simp add: parsed_def)
qed

definition fresh_server :: "string \<Rightarrow> ProxyRoute \<Rightarrow> (string \<times> ProxyRoute) list \<Rightarrow> listenServer" where
  "fresh_server p r hosts = \<lparr>ls_port = p, ls_tls = pr_tls r, ls_cert = pr_cert r, ls_key = pr_key r,
     ls_routes = hosts, ls_handlers = []\<rparr>"

lemma http_step_result:
  assumes "http_step L h p r st = Inr st'"
  shows "p \<notin> set (ps_tcp st) \<and> (\<exists>ls. st' = st\<lparr>ps_servers := AList.update p ls (ps_servers st)\<rparr> \<and>
    ls_tls ls = pr_tls r \<and>
    (case map_of (ps_servers st) p of
       None \<Rightarrow> ls = fresh_server p r [(h, r)]
     | Some ls0 \<Rightarrow> ls_tls ls0 = pr_tls r \<and> ls = ls0\<lparr>ls_routes := AList.update h r (ls_routes ls0)\<rparr>))"
  using assms by (simp add: http_step_def fresh_server_def split: if_split_asm option.split_asm)

lemma http_step_parsed:
  assumes "parsed rs st" "parseHostPort (pr_url r) = Inr (h, p)" "pr_url r \<notin> set (ps_urls st)" "\<not> isRaw (pr_type r)"
    and "http_step L h p r (st\<lparr>ps_urls := pr_url r # ps_urls st\<rparr>) = Inr st'"
  shows "parsed (rs @ [r]) st'"
proof -
  have hp: "port_of r = p" "host_of r = h" using assms(2) by (simp_all add: port_of_def host_of_def)
  have raw: "\<not> isTCP (pr_type r)" "\<not> isUDP (pr_type r)" using assms(4) by (simp_all add: isRaw_def)
  have url: "pr_url r = h @ CHR '':'' # p" by (rule parseHostPort_url(1) [OF assms(2)])
  from http_step_result [OF assms(5)] obtain ls where
    tcp: "p \<notin> set (ps_tcp st)" and tls: "ls_tls ls = pr_tls r" and
    st': "st' = st\<lparr>ps_urls := pr_url r # ps_urls st, ps_servers := AList.update p ls (ps_servers st)\<rparr>" and
    ls: "case map_of (ps_servers st) p of None \<Rightarrow> ls = fresh_server p r [(h, r)]
      | Some ls0 \<Rightarrow> ls_tls ls0 = pr_tls r \<and> ls = ls0\<lparr>ls_routes := AList.update h r (ls_routes ls0)\<rparr>"
    by auto
  have route: "map_of (ls_routes ls) h' = (if h' = h then Some r
      else case map_of (ps_servers st) p of None \<Rightarrow> None | Some ls0 \<Rightarrow> map_of (ls_routes ls0) h')" for h'
    using ls by (auto simp: fresh_server_def split: option.splits)
  have port: "ls_port ls = p"
    using ls assms(1) by (auto simp: fresh_server_def parsed_def parsed_servers_def split: option.splits)
  have other: "port_of r' \<noteq> p \<or> host_of r' \<noteq> h" if r': "r' \<in> set rs" for r'
  proof -
    from r' obtain h' p' where "parseHostPort (pr_url r') = Inr (h', p')"
      using assms(1) by (auto simp: parsed_def parsed_urls_def)
    moreover have "pr_url r \<notin> pr_url ` set rs" using assms(1,3) by (simp add: parsed_def parsed_urls_def)
    then have "pr_url r' \<noteq> pr_url r" using r' by (metis imageI)
    ultimately show ?thesis using same_host_port [OF _ assms(2)] by (simp add: hp)
  qed
  have "parsed_urls (rs @ [r]) st'"
    using assms(1-3) by (simp add: parsed_def parsed_urls_def st')
  moreover have "parsed_ports (rs @ [r]) st'"
    using assms(1) raw tcp by (auto simp: parsed_def parsed_ports_def st')
  moreover have "\<exists>ls'. map_of (ps_servers st') (port_of r') = Some ls' \<and> map_of (ls_routes ls') (host_of r') = Some r' \<and>
      ls_tls ls' = pr_tls r'" if "r' \<in> set (rs @ [r])" "\<not> isRaw (pr_type r')" for r'
  proof (cases "r' \<in> set rs")
    case True
    with assms(1) that(2) obtain ls' where ls': "map_of (ps_servers st) (port_of r') = Some ls'"
      "map_of (ls_routes ls') (host_of r') = Some r'" "ls_tls ls' = pr_tls r'"
      by (auto simp: parsed_def parsed_servers_def)
    show ?thesis
    proof (cases "port_of r' = p")
      case True
      then have "host_of r' \<noteq> h" using other \<open>r' \<in> set rs\<close> by blast
      then show ?thesis using ls' ls tls True by (simp add: st' route)
    qed (use ls' in \<open>simp add: st'\<close>)
  next
    case False
    with that(1) have "r' = r" by simp
    then show ?thesis by (simp add: st' hp route tls)
  qed
  moreover have "map_of (ps_servers st') q = Some ls' \<Longrightarrow> ls_port ls' = q \<and>
      (\<forall>h' r'. map_of (ls_routes ls') h' = Some r' \<longrightarrow> pr_url r' = h' @ CHR '':'' # q)" for q ls'
    using assms(1) port url route
    by (cases "q = p") (auto simp: st' parsed_def parsed_servers_def split: if_splits option.splits)
  ultimately show ?thesis by (simp add: parsed_def parsed_servers_def)
qed

lemma parse_loop_parsed:
  "parsed rs0 st \<Longrightarrow> parse_loop L rs st = Inr st' \<Longrightarrow> parsed (rs0 @ rs) st'"
proof (induction rs arbitrary: rs0 st)
  case (Cons r rs)
  obtain st1 where st1: "parse_step L r st = Inr st1" "parse_loop L rs st1 = Inr st'"
    using Cons.prems(2) by (auto split: sum.splits)
  then have "parsed (rs0 @ [r]) st1"
    using Cons.prems(1) raw_step_parsed http_step_parsed
    by (auto simp: parse_step_def Let_def split: sum.splits if_splits)
  from Cons.IH [OF this st1(2)] show ?case by simp
qed simp

text \<open>A concrete table: one HTTP backend on port 8080, one TCP relay on 9000.\<close>

definition plain_route :: "string \<Rightarrow> string \<Rightarrow> ProxyRoute" where
  "plain_route url ty = \<lparr>pr_url = url, pr_target = ''10.0.0.1:80'', pr_type = ty, pr_tls = False, pr_cert = [],
     pr_key = [], pr_inject = False\<rparr>"

definition two_routes :: "ProxyRoute list" where
  "two_routes = [plain_route ''a:8080'' ''proxy'', plain_route ''b:9000'' ''tcp'']"

text \<open>
  A start-up that parses its routes has a consistent listener plan. URLs are distinct; every HTTP
  route is the entry of its host on its port, whose TLS mode is its own; no two TCP routes and no two
  UDP routes share a port; and no TCP route's port has an HTTP listener.
\<close>

lemma parseProxies_exclusive:
  assumes "parseProxies L rs = Inr servers"
  shows "distinct (map pr_url rs) \<and>
    (\<forall>r \<in> set rs. \<not> isRaw (pr_type r) \<longrightarrow>
       (\<exists>ls. map_of servers (port_of r) = Some ls \<and> map_of (ls_routes ls) (host_of r) = Some r \<and> ls_tls ls = pr_tls r)) \<and>
    distinct (map port_of (filter (\<lambda>r. isTCP (pr_type r)) rs)) \<and>
    distinct (map port_of (filter (\<lambda>r. isUDP (pr_type r)) rs)) \<and>
    (\<forall>r \<in> set rs. isTCP (pr_type r) \<longrightarrow> map_of servers (port_of r) = None)"
proof -
  obtain st where st: "parse_loop L rs parse0 = Inr st" "servers = ps_servers st"
    using assms by (auto simp: parseProxies_def split: sum.splits)
  have "parsed [] parse0" by (simp add: parsed_def parsed_urls_def parsed_ports_def parsed_servers_def parse0_def)
  from parse_loop_parsed [OF this st(1)] st(2) show ?thesis
    by (auto simp: parsed_def parsed_urls_def parsed_ports_def parsed_servers_def)
qed

lemma parseProxies_exclusive_witness:
  "\<exists>servers. parseProxies plain_lib two_routes = Inr servers \<and> map_of servers ''9000'' = None"
proof -
  have "\<not> isl (parseProxies plain_lib two_routes)" by code_simp
  then obtain servers where sv: "parseProxies plain_lib two_routes = Inr servers"
    by (cases "parseProxies plain_lib two_routes") auto
  have "plain_route ''b:9000'' ''tcp'' \<in> set two_routes" "isTCP (pr_type (plain_route ''b:9000'' ''tcp''))"
    "port_of (plain_route ''b:9000'' ''tcp'') = ''9000''" by code_simp+
  with parseProxies_exclusive [OF sv] have "map_of servers ''9000'' = None" by metis
  with sv show ?thesis by blast
qed

end
