(* ===== verification/RouteLife.thy ===== *)
theory RouteLife
  imports RouteTable
begin

text \<open>
  What holds of the live route table over its whole life: which guard every handler carries, that an
  HTTP listener and a TCP relay never share a port, what registering and unregistering a route change,
  and two ways a change to one route reaches another.
\<close>

section \<open>Looking up handlers\<close>

definition handler_at :: "proxy \<Rightarrow> string \<Rightarrow> string \<Rightarrow> handler option" where
  "handler_at px port host =
     (case map_of (px_servers px) port of None \<Rightarrow> None | Some ls \<Rightarrow> map_of (ls_handlers ls) host)"

text \<open>The route key under which a request must be authorised before the rest of the handler runs.\<close>

fun guard_key :: "handler \<Rightarrow> string option" where
  "guard_key (InjectHandler h) = guard_key h"
| "guard_key (AuthHandler k h) = Some k"
| "guard_key (OtelHandler h) = None"
| "guard_key (FolderHandler d) = None"
| "guard_key (FileHandler d f) = None"
| "guard_key (ApiHandler a) = None"
| "guard_key (BackendHandler t u) = None"

lemma guard_key_wrap [simp]: "guard_key (wrapRouteHandler r h) = Some (pr_url r)"
  by (simp add: wrapRouteHandler_def Let_def)

definition guarded :: "proxy \<Rightarrow> bool" where
  "guarded px \<longleftrightarrow> (\<forall>port host h. handler_at px port host = Some h \<longrightarrow> guard_key h = Some (host @ CHR '':'' # port))"

definition ports_apart :: "proxy \<Rightarrow> bool" where
  "ports_apart px \<longleftrightarrow> (\<forall>p. map_of (px_tcp px) p \<noteq> None \<longrightarrow> map_of (px_servers px) p = None)"

text \<open>The operations on relays leave the HTTP side alone, and the other way round.\<close>

lemma raw_frame [frame_simps]:
  "px_servers (startTCPProxy p t u px) = px_servers px" "px_servers (startUDPProxy p t u px) = px_servers px"
  "px_servers (stopTCPProxy p px) = px_servers px" "px_servers (stopUDPProxy p px) = px_servers px"
  "px_started (startTCPProxy p t u px) = px_started px" "px_started (startUDPProxy p t u px) = px_started px"
  "px_started (stopTCPProxy p px) = px_started px" "px_started (stopUDPProxy p px) = px_started px"
  "px_udp (startTCPProxy p t u px) = px_udp px" "px_tcp (startUDPProxy p t u px) = px_tcp px"
  "px_udp (stopTCPProxy p px) = px_udp px" "px_tcp (stopUDPProxy p px) = px_tcp px"
  "px_servers (start_raw r px) = px_servers px" "px_started (start_raw r px) = px_started px"
  by (simp_all add: startTCPProxy_def startUDPProxy_def stopTCPProxy_def stopUDPProxy_def start_raw_def Let_def)

lemma startTCPProxy_lookup:
  "map_of (px_tcp (startTCPProxy p t u px)) q = (if px_started px \<and> q = p then Some (t, u) else map_of (px_tcp px) q)"
  by (simp add: startTCPProxy_def)

lemma startUDPProxy_lookup:
  "map_of (px_udp (startUDPProxy p t u px)) q = (if px_started px \<and> q = p then Some (t, u) else map_of (px_udp px) q)"
  by (simp add: startUDPProxy_def)

lemma stop_lookup:
  "map_of (px_tcp (stopTCPProxy p px)) q = (if q = p then None else map_of (px_tcp px) q)"
  "map_of (px_udp (stopUDPProxy p px)) q = (if q = p then None else map_of (px_udp px) q)"
  by (simp_all add: stopTCPProxy_def stopUDPProxy_def)

lemma handler_at_cong: "px_servers px' = px_servers px \<Longrightarrow> handler_at px' p h = handler_at px p h"
  by (simp add: handler_at_def)

lemma handler_at_install:
  "handler_at (install host port r g ls px) p h =
     (if p = port then if h = host then Some g else map_of (ls_handlers ls) h else handler_at px p h)"
  by (simp add: handler_at_def install_def)

lemma startListener_frame [frame_simps]:
  "startListener L ls px = (px', res) \<Longrightarrow> px_servers px' = px_servers px \<and> px_tcp px' = px_tcp px \<and>
     px_udp px' = px_udp px \<and> px_started px' = px_started px \<and> px_otel px' = px_otel px"
  by (auto simp: startListener_eq split: if_splits)

section \<open>Registering\<close>

definition new_server :: "string \<Rightarrow> ProxyRoute \<Rightarrow> listenServer" where
  "new_server port r = \<lparr>ls_port = port, ls_tls = pr_tls r, ls_cert = pr_cert r, ls_key = pr_key r,
     ls_routes = [], ls_handlers = []\<rparr>"

definition server_for :: "proxy \<Rightarrow> string \<Rightarrow> ProxyRoute \<Rightarrow> listenServer" where
  "server_for px port r = (case map_of (px_servers px) port of None \<Rightarrow> new_server port r | Some ls \<Rightarrow> ls)"

text \<open>The HTTP side after \<open>RegisterRoute\<close>: unchanged, a new empty listener, or the new handler installed.\<close>

lemma RegisterRoute_http:
  assumes "RegisterRoute L reg r px = (px', res)" "parseHostPort (pr_url r) = Inr (host, port)" "\<not> isRaw (pr_type r)"
  shows "(px_tcp px' = px_tcp px \<and> px_udp px' = px_udp px \<and> px_started px' = px_started px) \<and>
    ((\<exists>raw. createHandlerForRoute L reg r (px_otel px) = Inr raw \<and> res = Inr () \<and>
        (map_of (px_servers px) port = None \<longrightarrow> map_of (px_tcp px) port = None) \<and>
        map_of (px_servers px') = (map_of (px_servers px))(port \<mapsto> (server_for px port r)\<lparr>
          ls_routes := AList.update host r (ls_routes (server_for px port r)),
          ls_handlers := AList.update host (wrapRouteHandler r raw) (ls_handlers (server_for px port r))\<rparr>)) \<or>
     (\<exists>e. res = Inl e \<and> (map_of (px_servers px') = map_of (px_servers px) \<or>
        (map_of (px_servers px) port = None \<and> map_of (px_tcp px) port = None \<and>
         map_of (px_servers px') = (map_of (px_servers px))(port \<mapsto> new_server port r)))))"
proof (cases "map_of (px_servers px) port")
  case (Some ls)
  show ?thesis
  proof (cases "createHandlerForRoute L reg r (px_otel px)")
    case (Inl e)
    with assms Some show ?thesis by (auto simp: RegisterRoute_def Let_def)
  next
    case (Inr raw)
    then have "px' = install host port r (wrapRouteHandler r raw) ls px" "res = Inr ()"
      using assms Some by (simp_all add: RegisterRoute_def Let_def)
    with Inr Some show ?thesis by (simp add: install_def server_for_def fun_eq_iff)
  qed
next
  case None
  show ?thesis
  proof (cases "map_of (px_tcp px) port")
    case (Some c)
    with assms None show ?thesis by (auto simp: RegisterRoute_def Let_def)
  next
    case none: None
    define px1 where "px1 = px\<lparr>px_servers := AList.update port (new_server port r) (px_servers px)\<rparr>"
    obtain px2 lres where s: "startListener L (new_server port r) px1 = (px2, lres)" by force
    note fr = startListener_frame [OF s]
    have reg: "RegisterRoute L reg r px = (case lres of
        Inl e \<Rightarrow> (px2\<lparr>px_servers := AList.delete port (px_servers px2)\<rparr>, Inl (Msg (''start listener on port '' @ port)))
      | Inr u \<Rightarrow> (case createHandlerForRoute L reg r (px_otel px2) of
          Inl e \<Rightarrow> (px2, Inl (Msg ''create handler''))
        | Inr raw \<Rightarrow> (install host port r (wrapRouteHandler r raw) (new_server port r) px2, Inr ())))"
      using s assms(2,3) None none
      by (simp add: RegisterRoute_def Let_def px1_def new_server_def split: sum.splits)
    show ?thesis
    proof (cases lres)
      case (Inl e)
      then show ?thesis using reg assms(1) fr None by (auto simp: px1_def fun_eq_iff)
    next
      case (Inr u)
      show ?thesis
      proof (cases "createHandlerForRoute L reg r (px_otel px)")
        case (Inl e)
        then show ?thesis using reg assms(1) fr None none Inr by (auto simp: px1_def fun_eq_iff)
      next
        case h: (Inr raw)
        then have "px' = install host port r (wrapRouteHandler r raw) (new_server port r) px2" "res = Inr ()"
          using reg assms(1) fr Inr by (simp_all add: px1_def)
        then show ?thesis using fr None none h by (simp add: px1_def install_def server_for_def fun_eq_iff)
      qed
    qed
  qed
qed

lemma RegisterRoute_raw:
  assumes "parseHostPort (pr_url r) = Inr (host, port)" "isRaw (pr_type r)"
  shows "RegisterRoute L reg r px = (start_raw r px, Inr ())"
  using assms by (simp add: RegisterRoute_def start_raw_def Let_def)

lemma guarded_cong: "px_servers px' = px_servers px \<Longrightarrow> guarded px' \<longleftrightarrow> guarded px"
  by (simp add: guarded_def handler_at_def)

lemma guarded_put:
  assumes "guarded px" "map_of (px_servers px') = (map_of (px_servers px))(port \<mapsto> ls)"
    and "\<And>host h. map_of (ls_handlers ls) host = Some h \<Longrightarrow>
      handler_at px port host = Some h \<or> guard_key h = Some (host @ CHR '':'' # port)"
  shows "guarded px'"
  using assms by (force simp: guarded_def handler_at_def)

lemma RegisterRoute_guarded:
  assumes "guarded px"
  shows "guarded (fst (RegisterRoute L reg r px))"
proof (cases "parseHostPort (pr_url r)")
  case (Inl e)
  with assms show ?thesis by (simp add: RegisterRoute_def)
next
  case (Inr hp)
  obtain host port where hp: "parseHostPort (pr_url r) = Inr (host, port)" using Inr by (cases hp) simp
  note url = parseHostPort_url(1) [OF hp]
  show ?thesis
  proof (cases "isRaw (pr_type r)")
    case True
    with assms show ?thesis using guarded_cong [of "start_raw r px" px]
      by (simp add: RegisterRoute_raw [OF hp] frame_simps)
  next
    case False
    obtain px' res where reg: "RegisterRoute L reg r px = (px', res)" by force
    from RegisterRoute_http [OF reg hp False] consider
        (inst) raw where "map_of (px_servers px') = (map_of (px_servers px))(port \<mapsto> (server_for px port r)\<lparr>
          ls_routes := AList.update host r (ls_routes (server_for px port r)),
          ls_handlers := AList.update host (wrapRouteHandler r raw) (ls_handlers (server_for px port r))\<rparr>)"
      | (same) "map_of (px_servers px') = map_of (px_servers px)"
      | (empty) "map_of (px_servers px') = (map_of (px_servers px))(port \<mapsto> new_server port r)" by blast
    then show ?thesis
    proof cases
      case inst
      have "guarded px'"
      proof (rule guarded_put [OF assms inst])
        fix host' h
        assume "map_of (ls_handlers ((server_for px port r)\<lparr>
          ls_routes := AList.update host r (ls_routes (server_for px port r)),
          ls_handlers := AList.update host (wrapRouteHandler r raw) (ls_handlers (server_for px port r))\<rparr>)) host' = Some h"
        then show "handler_at px port host' = Some h \<or> guard_key h = Some (host' @ CHR '':'' # port)"
          by (cases "map_of (px_servers px) port")
            (auto simp: handler_at_def server_for_def new_server_def url split: if_splits)
      qed
      then show ?thesis by (simp add: reg)
    next
      case same
      with assms show ?thesis by (simp add: reg guarded_def handler_at_def)
    next
      case empty
      have "guarded px'" by (rule guarded_put [OF assms empty]) (simp add: new_server_def)
      then show ?thesis by (simp add: reg)
    qed
  qed
qed

lemma RegisterRoute_apart:
  assumes "ports_apart px" "ValidateRoute px (pr_url r) (pr_type r) = Inr ()"
  shows "ports_apart (fst (RegisterRoute L reg r px))"
proof -
  obtain host port where hp: "parseHostPort (pr_url r) = Inr (host, port)"
    using assms(2) by (auto simp: ValidateRoute_def split: sum.splits)
  have v: "isTCP (pr_type r) \<or> \<not> isRaw (pr_type r) \<Longrightarrow> map_of (px_tcp px) port = None"
    "isTCP (pr_type r) \<Longrightarrow> map_of (px_servers px) port = None"
    using assms(2) by (auto simp: ValidateRoute_def hp Let_def simp del: insert_iff not_None_eq split: if_split_asm)
  show ?thesis
  proof (cases "isRaw (pr_type r)")
    case True
    have "map_of (px_tcp (start_raw r px)) p \<noteq> None \<Longrightarrow> map_of (px_tcp px) p \<noteq> None \<or> (p = port \<and> isTCP (pr_type r))" for p
      by (simp add: start_raw_def hp Let_def frame_simps startTCPProxy_lookup split: if_splits)
    with assms(1) v(2) have "ports_apart (start_raw r px)" unfolding ports_apart_def frame_simps by blast
    with True show ?thesis by (simp add: RegisterRoute_raw [OF hp])
  next
    case False
    obtain px' res where reg: "RegisterRoute L reg r px = (px', res)" by force
    from RegisterRoute_http [OF reg hp False] have "px_tcp px' = px_tcp px"
      "\<And>p. p \<noteq> port \<Longrightarrow> map_of (px_servers px') p = map_of (px_servers px) p" by auto
    with assms(1) v(1) False have "ports_apart px'" unfolding ports_apart_def by metis
    then show ?thesis by (simp add: reg)
  qed
qed

section \<open>Unregistering\<close>

lemma UnregisterRoute_http:
  assumes "parseHostPort url = Inr (host, port)" "map_of (px_servers px) port = Some ls"
  shows "handler_at (UnregisterRoute url px) p h =
      (if p = port \<and> h = host then None else handler_at px p h)"
    and "px_tcp (UnregisterRoute url px) = px_tcp px" and "px_udp (UnregisterRoute url px) = px_udp px"
    and "dom (map_of (px_servers (UnregisterRoute url px))) = dom (map_of (px_servers px))"
  using assms by (auto simp: UnregisterRoute_def handler_at_def split: if_splits)

lemma UnregisterRoute_raw:
  assumes "parseHostPort url = Inr (host, port)" "map_of (px_servers px) port = None"
  shows "UnregisterRoute url px = stopUDPProxy port (stopTCPProxy port px)"
  using assms by (simp add: UnregisterRoute_def)

lemma UnregisterRoute_guarded: "guarded px \<Longrightarrow> guarded (UnregisterRoute url px)"
proof (cases "parseHostPort url")
  case (Inr hp)
  assume g: "guarded px"
  obtain host port where hp: "parseHostPort url = Inr (host, port)" using Inr by (cases hp) simp
  show ?thesis
  proof (cases "map_of (px_servers px) port")
    case None
    show ?thesis using g guarded_cong [of "stopUDPProxy port (stopTCPProxy port px)" px]
      by (simp add: UnregisterRoute_raw [OF hp None] frame_simps)
  next
    case (Some ls)
    with g show ?thesis by (simp add: guarded_def UnregisterRoute_http(1) [OF hp Some])
  qed
qed (simp add: UnregisterRoute_def)

lemma UnregisterRoute_apart: "ports_apart px \<Longrightarrow> ports_apart (UnregisterRoute url px)"
proof (cases "parseHostPort url")
  case (Inr hp)
  assume a: "ports_apart px"
  obtain host port where hp: "parseHostPort url = Inr (host, port)" using Inr by (cases hp) simp
  show ?thesis
  proof (cases "map_of (px_servers px) port")
    case None
    with a show ?thesis by (simp add: ports_apart_def UnregisterRoute_raw [OF hp] frame_simps stop_lookup)
  next
    case (Some ls)
    from UnregisterRoute_http(2,4) [OF hp Some] a show ?thesis unfolding ports_apart_def by (metis domIff)
  qed
qed (simp add: UnregisterRoute_def)

section \<open>Starting\<close>

lemma startListeners_frame [frame_simps]:
  "px_servers (startListeners L ss px) = px_servers px" "px_tcp (startListeners L ss px) = px_tcp px"
  "px_udp (startListeners L ss px) = px_udp px" "px_started (startListeners L ss px) = px_started px"
  by (induction ss arbitrary: px) (auto simp: startListener_eq split: prod.splits sum.splits if_splits)

lemma fold_start_raw:
  assumes "px_started px"
  shows "px_servers (fold start_raw rs px) = px_servers px"
    and "map_of (px_tcp (fold start_raw rs px)) p \<noteq> None \<Longrightarrow>
      map_of (px_tcp px) p \<noteq> None \<or> (\<exists>r \<in> set rs. isTCP (pr_type r) \<and> port_of r = p)"
  using assms
proof (induction rs arbitrary: px)
  case (Cons r rs)
  { case 1 with Cons.IH(1) [of "start_raw r px"] show ?case by (simp add: frame_simps)
  next
    case 2
    then have "px_started (start_raw r px)" by (simp add: frame_simps)
    from Cons.IH(2) [OF _ this] 2
    have "map_of (px_tcp (start_raw r px)) p \<noteq> None \<or> (\<exists>r \<in> set rs. isTCP (pr_type r) \<and> port_of r = p)" by simp
    moreover have "map_of (px_tcp (start_raw r px)) p \<noteq> None \<Longrightarrow>
        map_of (px_tcp px) p \<noteq> None \<or> (isTCP (pr_type r) \<and> port_of r = p)"
      by (simp add: start_raw_def Let_def frame_simps startTCPProxy_lookup port_of_def split: if_split_asm)
    ultimately show ?case by auto }
qed simp_all

lemma handlers_for_wrapped:
  "handlers_for L reg otel rs = Inr hs \<Longrightarrow> map_of hs h = Some g \<Longrightarrow>
   \<exists>r raw. map_of rs h = Some r \<and> g = wrapRouteHandler r raw \<and> createHandlerForRoute L reg r otel = Inr raw"
  by (induction rs arbitrary: hs) (auto split: sum.splits if_splits)

lemma initProxies_servers:
  "initProxies L reg otel ss = Inr ss' \<Longrightarrow> map_of ss' p = Some ls' \<Longrightarrow>
   \<exists>ls hs. map_of ss p = Some ls \<and> handlers_for L reg otel (ls_routes ls) = Inr hs \<and> ls' = ls\<lparr>ls_handlers := hs\<rparr>"
  by (induction ss arbitrary: ss') (auto split: sum.splits if_splits)

lemma initProxies_dom: "initProxies L reg otel ss = Inr ss' \<Longrightarrow> (map_of ss' p = None) = (map_of ss p = None)"
  by (induction ss arbitrary: ss') (auto split: sum.splits if_splits)

lemma StartProxy_result:
  assumes "StartProxy L reg otel rs = Inr px"
  obtains st servers where "parse_loop L rs parse0 = Inr st" "parsed rs st"
    "initProxies L reg otel (ps_servers st) = Inr servers" "px_servers px = servers"
    "\<And>p. map_of (px_tcp px) p \<noteq> None \<Longrightarrow> \<exists>r \<in> set rs. isTCP (pr_type r) \<and> port_of r = p"
proof -
  obtain st where st: "parse_loop L rs parse0 = Inr st"
    using assms by (auto simp: StartProxy_def parseProxies_def split: sum.splits)
  obtain servers where sv: "initProxies L reg otel (ps_servers st) = Inr servers"
    using assms st by (auto simp: StartProxy_def parseProxies_def split: sum.splits)
  define px0 where "px0 = startListeners L servers
    \<lparr>px_routes = rs, px_servers = servers, px_tcp = [], px_udp = [], px_live = [],
     px_started = True, px_otel = otel, px_errs = []\<rparr>"
  have px: "px = fold start_raw rs px0" and px0: "px_started px0" "px_servers px0 = servers" "px_tcp px0 = []"
    using assms st sv by (simp_all add: StartProxy_def parseProxies_def px0_def frame_simps)
  have "parsed [] parse0" by (simp add: parsed_def parsed_urls_def parsed_ports_def parsed_servers_def parse0_def)
  from parse_loop_parsed [OF this st] have "parsed rs st" by simp
  moreover have "px_servers px = servers" using fold_start_raw(1) [OF px0(1)] px0(2) by (simp add: px)
  moreover have "\<exists>r \<in> set rs. isTCP (pr_type r) \<and> port_of r = p" if "map_of (px_tcp px) p \<noteq> None" for p
    using fold_start_raw(2) [OF px0(1) that [unfolded px]] px0(3) by simp
  ultimately show thesis using that st sv by blast
qed

lemma StartProxy_guarded:
  assumes "StartProxy L reg otel rs = Inr px"
  shows "guarded px"
proof (rule StartProxy_result [OF assms])
  fix st servers
  assume st: "parsed rs st" "initProxies L reg otel (ps_servers st) = Inr servers" "px_servers px = servers"
  have "guard_key g = Some (h @ CHR '':'' # p)" if at: "handler_at px p h = Some g" for p h g
  proof -
    obtain ls' where ls': "map_of servers p = Some ls'" "map_of (ls_handlers ls') h = Some g"
      using at unfolding handler_at_def st(3) by (cases "map_of servers p") simp_all
    from initProxies_servers [OF st(2) ls'(1)] obtain ls hs where ls: "map_of (ps_servers st) p = Some ls"
      "handlers_for L reg otel (ls_routes ls) = Inr hs" "ls' = ls\<lparr>ls_handlers := hs\<rparr>" by blast
    then have "map_of hs h = Some g" using ls'(2) by simp
    from handlers_for_wrapped [OF ls(2) this] obtain r raw where
      "map_of (ls_routes ls) h = Some r" "g = wrapRouteHandler r raw" by blast
    then show ?thesis using st(1) ls(1) by (auto simp: parsed_def parsed_servers_def)
  qed
  then show ?thesis by (simp add: guarded_def)
qed

lemma StartProxy_apart:
  assumes "StartProxy L reg otel rs = Inr px"
  shows "ports_apart px"
proof (rule StartProxy_result [OF assms])
  fix st servers
  assume st: "parsed rs st" "initProxies L reg otel (ps_servers st) = Inr servers" "px_servers px = servers"
    and tcp: "\<And>p. map_of (px_tcp px) p \<noteq> None \<Longrightarrow> \<exists>r \<in> set rs. isTCP (pr_type r) \<and> port_of r = p"
  show ?thesis
    unfolding ports_apart_def st(3) initProxies_dom [OF st(2)]
    using tcp st(1) by (fastforce simp: parsed_def parsed_ports_def)
qed

section \<open>Sequences of changes\<close>

text \<open>
  What the admin API does to a running table: create a validated route, delete one, and re-register a
  saved route under a new target, which is not validated.
\<close>

datatype route_op = Create ProxyRoute | Delete string | Retarget ProxyRoute

fun run_op :: "lib \<Rightarrow> registry \<Rightarrow> route_op \<Rightarrow> proxy \<Rightarrow> proxy" where
  "run_op L reg (Create r) px =
     (case ValidateRoute px (pr_url r) (pr_type r) of Inl e \<Rightarrow> px | Inr u \<Rightarrow> fst (RegisterRoute L reg r px))"
| "run_op L reg (Delete url) px = UnregisterRoute url px"
| "run_op L reg (Retarget r) px = fst (RegisterRoute L reg r px)"

definition run_ops :: "lib \<Rightarrow> registry \<Rightarrow> route_op list \<Rightarrow> proxy \<Rightarrow> proxy" where
  "run_ops L reg ops px = fold (run_op L reg) ops px"

lemma run_op_guarded: "guarded px \<Longrightarrow> guarded (run_op L reg op px)"
  by (cases op) (simp_all add: RegisterRoute_guarded UnregisterRoute_guarded split: sum.split)

lemma run_ops_guarded: "guarded px \<Longrightarrow> guarded (run_ops L reg ops px)"
  unfolding run_ops_def by (induction ops arbitrary: px) (simp_all add: run_op_guarded)

lemma run_op_apart: "ports_apart px \<Longrightarrow> (\<And>r. op \<noteq> Retarget r) \<Longrightarrow> ports_apart (run_op L reg op px)"
  by (cases op) (auto simp: RegisterRoute_apart UnregisterRoute_apart split: sum.split)

lemma run_ops_apart:
  "ports_apart px \<Longrightarrow> (\<And>r. Retarget r \<notin> set ops) \<Longrightarrow> ports_apart (run_ops L reg ops px)"
proof (induction ops arbitrary: px)
  case (Cons op ops)
  have op: "\<And>r. op \<noteq> Retarget r" and ops: "\<And>r. Retarget r \<notin> set ops" using Cons.prems(2) by auto
  show ?case using Cons.IH [OF run_op_apart [OF Cons.prems(1) op] ops] by (simp add: run_ops_def)
qed (simp add: run_ops_def)

definition demo_proxy :: proxy where
  "demo_proxy = projr (StartProxy plain_lib [] False two_routes)"

lemma demo_started: "StartProxy plain_lib [] False two_routes = Inr demo_proxy"
proof -
  have "\<not> isl (StartProxy plain_lib [] False two_routes)" by code_simp
  then show ?thesis by (cases "StartProxy plain_lib [] False two_routes") (simp_all add: demo_proxy_def)
qed

definition demo_handler :: handler where
  "demo_handler = BackendHandler ''http://10.0.0.1:80'' ''http://10.0.0.1:80''"

text \<open>
  No request reaches a backend, a file or an API route without the check of its own route. However
  the table was started and whatever sequence of creations, deletions and re-registrations ran since, the
  handler found under a host and port is guarded by \<open>withAuthForKey\<close> with the key of exactly that host
  and port.
\<close>

lemma handlers_stay_guarded:
  assumes "StartProxy L reg otel rs = Inr px0" "px = run_ops L reg ops px0" "handler_at px port host = Some g"
  shows "guard_key g = Some (host @ CHR '':'' # port)"
  using run_ops_guarded [OF StartProxy_guarded [OF assms(1)], of L reg ops] assms(2,3) by (simp add: guarded_def)

lemma handlers_stay_guarded_witness:
  "guard_key (AuthHandler ''c:8080'' demo_handler) = Some ''c:8080''"
proof -
  have "handler_at (run_ops plain_lib [] [Create (plain_route ''c:8080'' ''proxy''), Delete ''a:8080''] demo_proxy) ''8080'' ''c'' =
      Some (AuthHandler ''c:8080'' demo_handler)"
    by code_simp
  from handlers_stay_guarded [OF demo_started refl this] show ?thesis by simp
qed

text \<open>
  C33: as long as routes are only created and deleted, an HTTP listener and a TCP relay never claim the
  same port.
\<close>

theorem tcp_http_apart:
  assumes "StartProxy L reg otel rs = Inr px0" "\<And>r. Retarget r \<notin> set ops"
    and "map_of (px_tcp (run_ops L reg ops px0)) port = Some c"
  shows "map_of (px_servers (run_ops L reg ops px0)) port = None"
  using run_ops_apart [OF StartProxy_apart [OF assms(1)] assms(2), of L reg] assms(3) by (simp add: ports_apart_def)

theorem tcp_http_apart_witness:
  "map_of (px_servers (run_ops plain_lib [] [Create (plain_route ''c:9100'' ''tcp''), Delete ''a:8080''] demo_proxy)) ''9100'' = None"
proof -
  have "map_of (px_tcp (run_ops plain_lib [] [Create (plain_route ''c:9100'' ''tcp''), Delete ''a:8080''] demo_proxy)) ''9100'' =
      Some (''10.0.0.1:80'', ''c:9100'')"
    by code_simp
  from tcp_http_apart [OF demo_started _ this] show ?thesis by simp
qed

text \<open>
  Registering an HTTP route makes its handler live under its host and port, behind its own guard, and
  changes no other handler and no relay.
\<close>

lemma RegisterRoute_effect:
  assumes "RegisterRoute L reg r px = (px', Inr ())" "parseHostPort (pr_url r) = Inr (host, port)" "\<not> isRaw (pr_type r)"
  shows "(\<exists>raw. createHandlerForRoute L reg r (px_otel px) = Inr raw \<and>
      handler_at px' port host = Some (wrapRouteHandler r raw)) \<and>
    (\<forall>p h. (p, h) \<noteq> (port, host) \<longrightarrow> handler_at px' p h = handler_at px p h) \<and>
    px_tcp px' = px_tcp px \<and> px_udp px' = px_udp px"
proof -
  define ls where "ls = server_for px port r"
  from RegisterRoute_http [OF assms(1-3)] obtain raw where raw: "createHandlerForRoute L reg r (px_otel px) = Inr raw"
    "map_of (px_servers px') = (map_of (px_servers px))(port \<mapsto> ls\<lparr>ls_routes := AList.update host r (ls_routes ls),
      ls_handlers := AList.update host (wrapRouteHandler r raw) (ls_handlers ls)\<rparr>)"
    and frame: "px_tcp px' = px_tcp px" "px_udp px' = px_udp px"
    unfolding ls_def by auto
  have "map_of (ls_handlers ls) h = handler_at px port h" for h
    by (cases "map_of (px_servers px) port") (simp_all add: ls_def server_for_def new_server_def handler_at_def)
  then have "handler_at px' p h = (if p = port \<and> h = host then Some (wrapRouteHandler r raw) else handler_at px p h)" for p h
    by (simp add: handler_at_def raw(2))
  with raw(1) frame show ?thesis by auto
qed

lemma RegisterRoute_effect_witness:
  "handler_at (fst (RegisterRoute plain_lib [] (plain_route ''c:8080'' ''proxy'') demo_proxy)) ''8080'' ''a'' =
   handler_at demo_proxy ''8080'' ''a''"
proof -
  obtain px' res where px: "RegisterRoute plain_lib [] (plain_route ''c:8080'' ''proxy'') demo_proxy = (px', res)" by force
  moreover have "snd (RegisterRoute plain_lib [] (plain_route ''c:8080'' ''proxy'') demo_proxy) = Inr ()" by code_simp
  ultimately have reg: "RegisterRoute plain_lib [] (plain_route ''c:8080'' ''proxy'') demo_proxy = (px', Inr ())" by simp
  have "parseHostPort (pr_url (plain_route ''c:8080'' ''proxy'')) = Inr (''c'', ''8080'')"
    "\<not> isRaw (pr_type (plain_route ''c:8080'' ''proxy''))" by code_simp+
  from RegisterRoute_effect [OF reg this] have "handler_at px' ''8080'' ''a'' = handler_at demo_proxy ''8080'' ''a''" by simp
  then show ?thesis by (simp add: px)
qed

text \<open>
  Deleting a route whose port has an HTTP listener removes that host's handler and nothing else; in
  particular a UDP relay on the port, even the deleted route's own, goes on. Deleting a route whose port
  has no HTTP listener stops the TCP and the UDP relay of the port, whichever route they belong to.
\<close>

lemma UnregisterRoute_effect:
  assumes "parseHostPort url = Inr (host, port)"
  shows "if map_of (px_servers px) port \<noteq> None
    then (\<forall>p h. handler_at (UnregisterRoute url px) p h = (if (p, h) = (port, host) then None else handler_at px p h)) \<and>
      px_tcp (UnregisterRoute url px) = px_tcp px \<and> px_udp (UnregisterRoute url px) = px_udp px
    else (\<forall>p h. handler_at (UnregisterRoute url px) p h = handler_at px p h) \<and>
      map_of (px_tcp (UnregisterRoute url px)) = (map_of (px_tcp px))(port := None) \<and>
      map_of (px_udp (UnregisterRoute url px)) = (map_of (px_udp px))(port := None)"
proof (cases "map_of (px_servers px) port")
  case None
  have "handler_at (UnregisterRoute url px) p h = handler_at px p h" for p h
    by (rule handler_at_cong) (simp add: UnregisterRoute_raw [OF assms None] frame_simps)
  then show ?thesis
    by (simp add: None UnregisterRoute_raw [OF assms None] stop_lookup frame_simps fun_eq_iff)
next
  case (Some ls)
  then show ?thesis by (simp add: UnregisterRoute_http [OF assms Some])
qed

lemma UnregisterRoute_effect_witness:
  "map_of (px_tcp (UnregisterRoute ''u:9000'' demo_proxy)) ''9000'' = None \<and>
   handler_at (UnregisterRoute ''u:9000'' demo_proxy) ''8080'' ''a'' = handler_at demo_proxy ''8080'' ''a''"
proof -
  have "parseHostPort ''u:9000'' = Inr (''u'', ''9000'')" "map_of (px_servers demo_proxy) ''9000'' = None" by code_simp+
  with UnregisterRoute_effect [of "''u:9000''" "''u''" "''9000''" demo_proxy] show ?thesis by simp
qed

definition collision_ops :: "route_op list" where
  "collision_ops = [Create (plain_route ''u:9000'' ''udp''), Delete ''u:9000'', Create (plain_route ''c:9000'' ''proxy''),
     Retarget (plain_route ''b:9000'' ''tcp'')]"

text \<open>
  Deletion and re-registration together can put a TCP relay on the port of an HTTP listener. A TCP and
  a UDP route share port 9000; deleting the UDP route also stops the TCP relay; an HTTP route then takes the
  port; editing the target of the saved TCP route starts its relay there again.
\<close>

lemma retarget_collides:
  "map_of (px_tcp (run_ops plain_lib [] collision_ops demo_proxy)) ''9000'' = Some (''10.0.0.1:80'', ''b:9000'') \<and>
   handler_at (run_ops plain_lib [] collision_ops demo_proxy) ''9000'' ''c'' = Some (AuthHandler ''c:9000'' demo_handler)"
  by code_simp

section \<open>What a start serves\<close>

lemma handlers_for_all:
  "handlers_for L reg otel rs = Inr hs \<Longrightarrow> map_of rs h = Some r \<Longrightarrow>
   \<exists>raw. createHandlerForRoute L reg r otel = Inr raw \<and> map_of hs h = Some (wrapRouteHandler r raw)"
  by (induction rs arbitrary: hs) (auto split: sum.splits if_splits)

lemma initProxies_all:
  "initProxies L reg otel ss = Inr ss' \<Longrightarrow> map_of ss p = Some ls \<Longrightarrow>
   \<exists>hs. handlers_for L reg otel (ls_routes ls) = Inr hs \<and> map_of ss' p = Some (ls\<lparr>ls_handlers := hs\<rparr>)"
  by (induction ss arbitrary: ss') (auto split: sum.splits if_splits)

lemma http_step_certs:
  "http_step L h p r st = Inr st' \<Longrightarrow> pr_tls r \<Longrightarrow>
   pr_cert r \<noteq> [] \<and> pr_key r \<noteq> [] \<and> os_stat L (pr_cert r) \<noteq> None \<and> os_stat L (pr_key r) \<noteq> None"
  by (simp add: http_step_def split: if_split_asm)

lemma parse_loop_error:
  assumes "r \<in> set rs" "\<And>st. \<exists>e. parse_step L r st = Inl e"
  shows "\<exists>e. parse_loop L rs st = Inl e"
  using assms(1)
proof (induction rs arbitrary: st)
  case (Cons r' rs)
  show ?case
  proof (cases "parse_step L r' st")
    case (Inr st')
    then have "r \<in> set rs" using Cons.prems assms(2) [of st] by auto
    with Cons.IH [of st'] Inr show ?thesis by simp
  qed simp
qed simp

lemma parse_loop_certs:
  assumes "parse_loop L rs st = Inr st'" "r \<in> set rs" "\<not> isRaw (pr_type r)" "pr_tls r"
  shows "pr_cert r \<noteq> [] \<and> pr_key r \<noteq> [] \<and> os_stat L (pr_cert r) \<noteq> None \<and> os_stat L (pr_key r) \<noteq> None"
proof (rule ccontr)
  assume bad: "\<not> ?thesis"
  have "\<exists>e. parse_step L r st0 = Inl e" for st0
  proof (cases "parse_step L r st0")
    case (Inr st1)
    then obtain h p where "http_step L h p r (st0\<lparr>ps_urls := pr_url r # ps_urls st0\<rparr>) = Inr st1"
      using assms(3) by (auto simp: parse_step_def split: sum.splits if_splits)
    from http_step_certs [OF this assms(4)] bad show ?thesis by blast
  qed simp
  from parse_loop_error [OF assms(2) this, of st] assms(1) show False by simp
qed

text \<open>
  A start that succeeds serves every HTTP route of its list, saved ones included: each has a handler,
  live behind its own guard, and each TLS route names an existing certificate and key. So one saved route
  without them stops the whole start.
\<close>

lemma StartProxy_complete:
  assumes "StartProxy L reg otel rs = Inr px" "r \<in> set rs" "\<not> isRaw (pr_type r)"
  shows "(\<exists>raw. createHandlerForRoute L reg r otel = Inr raw \<and>
      handler_at px (port_of r) (host_of r) = Some (wrapRouteHandler r raw)) \<and>
    (pr_tls r \<longrightarrow> pr_cert r \<noteq> [] \<and> pr_key r \<noteq> [] \<and> os_stat L (pr_cert r) \<noteq> None \<and> os_stat L (pr_key r) \<noteq> None)"
proof (rule StartProxy_result [OF assms(1)])
  fix st servers
  assume st: "parse_loop L rs parse0 = Inr st" "parsed rs st" "initProxies L reg otel (ps_servers st) = Inr servers"
    "px_servers px = servers"
  from st(2) assms(2,3) obtain ls where ls: "map_of (ps_servers st) (port_of r) = Some ls"
    "map_of (ls_routes ls) (host_of r) = Some r" by (auto simp: parsed_def parsed_servers_def)
  from initProxies_all [OF st(3) ls(1)] obtain hs where hs: "handlers_for L reg otel (ls_routes ls) = Inr hs"
    "map_of servers (port_of r) = Some (ls\<lparr>ls_handlers := hs\<rparr>)" by blast
  from handlers_for_all [OF hs(1) ls(2)] show ?thesis
    using parse_loop_certs [OF st(1) assms(2,3)] by (simp add: handler_at_def st(4) hs(2))
qed

lemma StartProxy_complete_witness:
  "handler_at demo_proxy ''8080'' ''a'' = Some (AuthHandler ''a:8080'' demo_handler)"
proof -
  have "plain_route ''a:8080'' ''proxy'' \<in> set two_routes" "\<not> isRaw (pr_type (plain_route ''a:8080'' ''proxy''))"
    by code_simp+
  from StartProxy_complete [OF demo_started this]
  obtain raw where raw: "createHandlerForRoute plain_lib [] (plain_route ''a:8080'' ''proxy'') False = Inr raw"
    "handler_at demo_proxy (port_of (plain_route ''a:8080'' ''proxy'')) (host_of (plain_route ''a:8080'' ''proxy'')) =
      Some (wrapRouteHandler (plain_route ''a:8080'' ''proxy'') raw)" by blast
  have "createHandlerForRoute plain_lib [] (plain_route ''a:8080'' ''proxy'') False = Inr demo_handler"
    "port_of (plain_route ''a:8080'' ''proxy'') = ''8080''" "host_of (plain_route ''a:8080'' ''proxy'') = ''a''"
    "wrapRouteHandler (plain_route ''a:8080'' ''proxy'') demo_handler = AuthHandler ''a:8080'' demo_handler"
    by code_simp+
  with raw show ?thesis by simp
qed

text \<open>
  The checks before a route is saved do not cover what a start requires. A TLS route without a
  certificate, which is what the admin API creates when no default certificate is configured, passes
  \<open>ValidateRoute\<close> on every free port, and no list that contains it can be started.
\<close>

lemma accepted_route_blocks_restart:
  assumes "parseHostPort (pr_url r) = Inr (host, port)" "pr_type r = ''proxy''" "pr_tls r" "pr_cert r = []"
  shows "(map_of (px_tcp px) port = None \<longrightarrow> ValidateRoute px (pr_url r) (pr_type r) = Inr ()) \<and>
    (r \<in> set rs \<longrightarrow> (\<exists>e. StartProxy L reg otel rs = Inl e))"
proof (intro conjI impI)
  have ty: "isTCP ''proxy'' = False" "isUDP ''proxy'' = False" by code_simp+
  show "ValidateRoute px (pr_url r) (pr_type r) = Inr ()" if "map_of (px_tcp px) port = None"
    using that by (simp add: ValidateRoute_def assms(1,2) Let_def ty isRaw_def)
  assume r: "r \<in> set rs"
  have "\<exists>e. parse_loop L rs parse0 = Inl e"
  proof (cases "parse_loop L rs parse0")
    case (Inr st)
    from parse_loop_certs [OF Inr r _ assms(3)] assms(4) show ?thesis by (simp add: assms(2) isRaw_def ty)
  qed simp
  then show "\<exists>e. StartProxy L reg otel rs = Inl e" by (auto simp: StartProxy_def parseProxies_def)
qed

definition bare_tls_route :: ProxyRoute where
  "bare_tls_route = (plain_route ''s:8443'' ''proxy'')\<lparr>pr_tls := True\<rparr>"

lemma accepted_route_blocks_restart_witness:
  "ValidateRoute demo_proxy ''s:8443'' ''proxy'' = Inr () \<and>
   (\<exists>e. StartProxy plain_lib [] False (two_routes @ [bare_tls_route]) = Inl e)"
proof -
  have "parseHostPort (pr_url bare_tls_route) = Inr (''s'', ''8443'')" "pr_type bare_tls_route = ''proxy''"
    "pr_tls bare_tls_route" "pr_cert bare_tls_route = []" "map_of (px_tcp demo_proxy) ''8443'' = None"
    "pr_url bare_tls_route = ''s:8443''" "bare_tls_route \<in> set (two_routes @ [bare_tls_route])"
    by code_simp+
  with accepted_route_blocks_restart [of bare_tls_route "''s''" "''8443''" demo_proxy
      "two_routes @ [bare_tls_route]" plain_lib "[]" False] show ?thesis by simp
qed

end
