(* ===== verification/RawRelay.thy ===== *)
theory RawRelay
  imports Access RouteLife
begin

text \<open>
  proxy/tcp.go and proxy/udp.go below the route table: what a relay does with a connection or a
  datagram. \<^verbatim>\<open>net.Dial\<close> is the argument \<open>dial\<close> (whether it succeeded). A UDP relay is the state of
  \<^verbatim>\<open>runUDPProxy\<close>: its sessions by client address and whether its socket is still open; time stamps are
  the \<^verbatim>\<open>UnixNano\<close> values.
\<close>

definition client_ip :: "string \<Rightarrow> string" where
  \<comment> \<open>\<^verbatim>\<open>clientIP, _, _ := net.SplitHostPort(addr)\<close>: empty when it fails\<close>
  "client_ip addr = (case split_host_port addr of None \<Rightarrow> [] | Some (ip, _) \<Rightarrow> ip)"

definition raw_reject :: "lib \<Rightarrow> time \<Rightarrow> string \<Rightarrow> string \<Rightarrow> world \<Rightarrow> world" where
  "raw_reject L now ip url w =
     record_failure L now ip
       (record_event now ip url OutcomeTCPRejected (logAccess ip ''Unauthorized User'' url w))"

definition signed_in :: "time \<Rightarrow> string \<Rightarrow> string \<Rightarrow> world \<Rightarrow> world" where
  "signed_in now ip user w = (if user \<noteq> [] then set_tier now ip TierSignedIn w else w)"

section \<open>TCP\<close>

text \<open>\<open>Relaying\<close>: both directions are copied until one ends or the relay is cancelled.\<close>

datatype tcp_outcome = Refused | DialFailed | Relaying string | TcpPanic

definition handleTCPConn ::
  "lib \<Rightarrow> time \<Rightarrow> string \<Rightarrow> bool \<Rightarrow> string \<Rightarrow> string \<Rightarrow> world \<Rightarrow> tcp_outcome \<times> world" where
  "handleTCPConn L now addr dial targetAddr routeUrl w =
     (let ip = client_ip addr; (banned, w1) = check_banned now ip w
      in if banned then (Refused, record_event now ip routeUrl OutcomeBanned w1)
         else case authorizeIP L now routeUrl ip w1 of
             (None, w2) \<Rightarrow> (TcpPanic, w2)
           | (Some (authorized, accessUser), w2) \<Rightarrow>
               if \<not> authorized then (Refused, raw_reject L now ip routeUrl w2)
               else let w3 = record_event now ip routeUrl OutcomeServed (signed_in now ip accessUser w2);
                        w4 = (if authStore w3 then logAccess ip accessUser routeUrl w3 else w3)
                 in if \<not> dial then (DialFailed, record_event now ip routeUrl OutcomeDialError w4)
                    else (Relaying targetAddr, w4))"

text \<open>
  The accept loop of \<^verbatim>\<open>runTCPProxy\<close>, one connection at a time: the open connections are named by their
  client address. A cancelled relay has a closed listener, and cancelling closes every connection. An error
  of \<^verbatim>\<open>Accept\<close> ends the loop: the listener closes once the open connections have ended.
\<close>

record tcp_relay =
  tr_target :: string
  tr_url :: string
  tr_open :: bool
  tr_conns :: "string list"

datatype tcp_event = Accept time string bool | AcceptError | CopyEnds string | TcpCancel

fun tcp_event_step :: "lib \<Rightarrow> tcp_event \<Rightarrow> tcp_relay \<times> world \<Rightarrow> tcp_relay \<times> world" where
  "tcp_event_step L (Accept now addr dial) (t, w) =
     (if \<not> tr_open t then (t, w)
      else case handleTCPConn L now addr dial (tr_target t) (tr_url t) w of
          (Relaying u, w') \<Rightarrow> (t\<lparr>tr_conns := addr # tr_conns t\<rparr>, w')
        | (res, w') \<Rightarrow> (t, w'))"
| "tcp_event_step L AcceptError (t, w) = (t\<lparr>tr_open := False\<rparr>, w)"
| "tcp_event_step L (CopyEnds addr) (t, w) = (t\<lparr>tr_conns := remove1 addr (tr_conns t)\<rparr>, w)"
| "tcp_event_step L TcpCancel (t, w) = (t\<lparr>tr_open := False, tr_conns := []\<rparr>, w)"

section \<open>UDP\<close>

definition udpSessionTimeout :: duration where "udpSessionTimeout = 120 * Second"

record udpSession =
  us_target :: string
  us_last :: int

record udp_relay =
  ur_target :: string
  ur_url :: string
  ur_open :: bool
  ur_sessions :: "(string \<times> udpSession) list"

datatype udp_outcome = Dropped | Forwarded string | UdpPanic | NotListening

definition touch :: "string \<Rightarrow> time \<Rightarrow> udpSession \<Rightarrow> udp_relay \<Rightarrow> udp_relay" where
  "touch key now s u = u\<lparr>ur_sessions := AList.update key (s\<lparr>us_last := now\<rparr>) (ur_sessions u)\<rparr>"

definition udp_packet ::
  "lib \<Rightarrow> time \<Rightarrow> string \<Rightarrow> bool \<Rightarrow> udp_relay \<times> world \<Rightarrow> udp_outcome \<times> (udp_relay \<times> world)" where
  "udp_packet L now key dial uw =
     (let (u, w) = uw; ip = client_ip key
      in if \<not> ur_open u then (NotListening, uw)
         else case map_of (ur_sessions u) key of
             Some s \<Rightarrow> (Forwarded (us_target s), (touch key now s u, w))
           | None \<Rightarrow>
               let (banned, w1) = check_banned now ip w
               in if banned then (Dropped, (u, record_event now ip (ur_url u) OutcomeBanned w1))
                  else case authorizeIP L now (ur_url u) ip w1 of
                      (None, w2) \<Rightarrow> (UdpPanic, (u, w2))
                    | (Some (authorized, accessUser), w2) \<Rightarrow>
                        if \<not> authorized then (Dropped, (u, raw_reject L now ip (ur_url u) w2))
                        else if \<not> dial then (Dropped, (u, record_event now ip (ur_url u) OutcomeDialError w2))
                        else (Forwarded (ur_target u),
                              (touch key now \<lparr>us_target = ur_target u, us_last = now\<rparr> u,
                               logAccess ip accessUser (ur_url u)
                                 (record_event now ip (ur_url u) OutcomeServed (signed_in now ip accessUser w2)))))"

text \<open>One datagram from the target back to the client; the reply pump ending; one tick of the reaper; the cancel.\<close>

definition udp_reply :: "time \<Rightarrow> string \<Rightarrow> udp_relay \<Rightarrow> udp_relay" where
  "udp_reply now key u = (case map_of (ur_sessions u) key of None \<Rightarrow> u | Some s \<Rightarrow> touch key now s u)"

definition udp_pump_ends :: "string \<Rightarrow> udp_relay \<Rightarrow> udp_relay" where
  "udp_pump_ends key u = u\<lparr>ur_sessions := AList.delete key (ur_sessions u)\<rparr>"

definition reapUDPSessions :: "time \<Rightarrow> udp_relay \<Rightarrow> udp_relay" where
  "reapUDPSessions now u =
     u\<lparr>ur_sessions := filter (\<lambda>(k, s). \<not> us_last s < now - udpSessionTimeout) (ur_sessions u)\<rparr>"

definition udp_cancel :: "udp_relay \<Rightarrow> udp_relay" where
  "udp_cancel u = u\<lparr>ur_open := False, ur_sessions := []\<rparr>"

text \<open>
  An error of \<^verbatim>\<open>ReadFrom\<close> ends the loop, which closes the target sockets as a cancel does; nobody reads the
  socket any more. \<open>Outside\<close>: anything else that happens to the shared state: requests, bans, edits, refreshes.
\<close>

datatype udp_event =
    Packet time string bool
  | Reply time string
  | PumpEnds string
  | ReapTick time
  | ReadError
  | UdpCancel
  | Outside world

fun udp_event_step :: "lib \<Rightarrow> udp_event \<Rightarrow> udp_relay \<times> world \<Rightarrow> udp_relay \<times> world" where
  "udp_event_step L (Packet now key dial) uw = snd (udp_packet L now key dial uw)"
| "udp_event_step L (Reply now key) (u, w) = (udp_reply now key u, w)"
| "udp_event_step L (PumpEnds key) (u, w) = (udp_pump_ends key u, w)"
| "udp_event_step L (ReapTick now) (u, w) = (reapUDPSessions now u, w)"
| "udp_event_step L ReadError (u, w) = (udp_cancel u, w)"
| "udp_event_step L UdpCancel (u, w) = (udp_cancel u, w)"
| "udp_event_step L (Outside w') (u, w) = (u, w')"

definition udp_run :: "lib \<Rightarrow> udp_event list \<Rightarrow> udp_relay \<times> world \<Rightarrow> udp_relay \<times> world" where
  "udp_run L es uw = fold (udp_event_step L) es uw"

text \<open>
  One error of \<^verbatim>\<open>Accept\<close>, a passing one included, ends a TCP relay for good: whatever happens afterwards, it
  takes no further connection. Nothing tells the program, and the route table still lists the relay.
\<close>

lemma accept_error_final:
  "\<not> tr_open (fst tw) \<Longrightarrow> \<not> tr_open (fst (fold (tcp_event_step L) es tw)) \<and>
   set (tr_conns (fst (fold (tcp_event_step L) es tw))) \<subseteq> set (tr_conns (fst tw))"
proof (induction es arbitrary: tw)
  case (Cons e es)
  obtain t w where tw: "tw = (t, w)" by force
  have "\<not> tr_open (fst (tcp_event_step L e tw)) \<and> set (tr_conns (fst (tcp_event_step L e tw))) \<subseteq> set (tr_conns t)"
    using Cons.prems by (cases e) (auto simp: tw dest: subsetD [OF set_remove1_subset])
  with Cons.IH [of "tcp_event_step L e tw"] show ?case by (auto simp: tw)
qed simp

lemma accept_error_ends_relay:
  "\<not> tr_open (fst (fold (tcp_event_step L) es (tcp_event_step L AcceptError (t, w))))"
  using accept_error_final [of "tcp_event_step L AcceptError (t, w)" L es] by simp

section \<open>The shared state stays well-formed\<close>

lemma raw_reject_ok [wf_intros]: "world_ok w \<Longrightarrow> world_ok (raw_reject L now ip url w)"
  by (simp add: raw_reject_def record_failure_ok record_event_ok logAccess_ok)

lemma signed_in_ok [wf_intros]: "world_ok w \<Longrightarrow> world_ok (signed_in now ip u w)"
  by (simp add: signed_in_def set_tier_ok)

lemma handleTCPConn_ok [wf_intros]:
  assumes "world_ok w"
  shows "world_ok (snd (handleTCPConn L now addr dial t url w))"
proof -
  obtain b w1 where b: "check_banned now (client_ip addr) w = (b, w1)" by force
  with check_banned_ok [OF assms, of now "client_ip addr"] have w1: "world_ok w1" by simp
  obtain res w2 where a: "authorizeIP L now url (client_ip addr) w1 = (res, w2)" by force
  with authorizeIP_ok [OF w1, of L now url "client_ip addr"] have w2: "world_ok w2" by simp
  show ?thesis using w1 w2 by (auto simp: handleTCPConn_def Let_def b a wf_intros split: option.split prod.split)
qed

lemma udp_packet_ok [wf_intros]:
  assumes "world_ok w"
  shows "world_ok (snd (snd (udp_packet L now key dial (u, w))))"
proof -
  obtain b w1 where b: "check_banned now (client_ip key) w = (b, w1)" by force
  with check_banned_ok [OF assms, of now "client_ip key"] have w1: "world_ok w1" by simp
  obtain res w2 where a: "authorizeIP L now (ur_url u) (client_ip key) w1 = (res, w2)" by force
  with authorizeIP_ok [OF w1, of L now "ur_url u" "client_ip key"] have w2: "world_ok w2" by simp
  show ?thesis using assms w1 w2 by (auto simp: udp_packet_def Let_def b a wf_intros split: option.split prod.split)
qed

section \<open>Admission\<close>

lemma authorizeIP_frame:
  "authorizeIP L now url ip w = (res, w') \<Longrightarrow> thr w' = thr w \<and> met w' = met w \<and> authCache w' = authCache w"
  by (auto simp: authorizeIP_def extend_by_ip_def Let_def split: option.splits if_splits sum.splits)

lemma authorizeIP_unknown:
  "authCache w = Some m \<Longrightarrow> m url = None \<Longrightarrow> authorizeIP L now url ip w = (Some (True, []), w)"
  by (simp add: authorizeIP_def)

lemma authorizeIP_thr:
  "fst (authorizeIP L now url ip (w\<lparr>thr := lm\<rparr>)) = fst (authorizeIP L now url ip w)"
  by (simp add: authorizeIP_def Let_def split: option.split sum.split)

lemma check_banned_thr: "check_banned now ip w = (fst (IsBanned now ip (thr w)), w\<lparr>thr := snd (IsBanned now ip (thr w))\<rparr>)"
  by (simp add: check_banned_def split: prod.split)

lemma handleTCPConn_relays:
  "(\<exists>t'. fst (handleTCPConn L now addr dial t url w) = Relaying t') \<longleftrightarrow>
   dial \<and> \<not> fst (IsBanned now (client_ip addr) (thr w)) \<and>
   (\<exists>user. fst (authorizeIP L now url (client_ip addr) w) = Some (True, user))"
proof -
  define lm where "lm = snd (IsBanned now (client_ip addr) (thr w))"
  obtain res w2 where a: "authorizeIP L now url (client_ip addr) (w\<lparr>thr := lm\<rparr>) = (res, w2)" by force
  then have res: "fst (authorizeIP L now url (client_ip addr) w) = res" by (metis authorizeIP_thr fst_conv)
  show ?thesis
    using res a by (auto simp: handleTCPConn_def Let_def check_banned_thr lm_def [symmetric] split: option.split prod.split)
qed

lemma udp_packet_opens:
  assumes "ur_open u" "map_of (ur_sessions u) key = None"
  shows "(\<exists>t'. fst (udp_packet L now key dial (u, w)) = Forwarded t') \<longleftrightarrow>
   dial \<and> \<not> fst (IsBanned now (client_ip key) (thr w)) \<and>
   (\<exists>user. fst (authorizeIP L now (ur_url u) (client_ip key) w) = Some (True, user))"
proof -
  define lm where "lm = snd (IsBanned now (client_ip key) (thr w))"
  obtain res w2 where a: "authorizeIP L now (ur_url u) (client_ip key) (w\<lparr>thr := lm\<rparr>) = (res, w2)" by force
  then have res: "fst (authorizeIP L now (ur_url u) (client_ip key) w) = res" by (metis authorizeIP_thr fst_conv)
  show ?thesis
    using res a assms by (auto simp: udp_packet_def Let_def check_banned_thr lm_def [symmetric] split: option.split prod.split)
qed

text \<open>
  C9: a TCP connection is relayed exactly when the target answers, the client is not banned and the
  route's policy grants its address; and a first datagram opens a UDP flow under exactly the same condition.
\<close>

theorem raw_admission_exact:
  assumes "authStore w" "authCache w = Some m" "m url = Some cr" "store_ready L (dbase w)"
  shows "((\<exists>t'. fst (handleTCPConn L now addr dial t url w) = Relaying t') \<longleftrightarrow>
      dial \<and> \<not> fst (IsBanned now (client_ip addr) (thr w)) \<and> raw_granted now (dbase w) cr (client_ip addr)) \<and>
    (ur_open u \<longrightarrow> ur_url u = url \<longrightarrow> map_of (ur_sessions u) addr = None \<longrightarrow>
      (\<exists>t'. fst (udp_packet L now addr dial (u, w)) = Forwarded t') \<longleftrightarrow>
      dial \<and> \<not> fst (IsBanned now (client_ip addr) (thr w)) \<and> raw_granted now (dbase w) cr (client_ip addr))"
  unfolding handleTCPConn_relays using authorizeIP_granted [OF assms, of now "client_ip addr"]
  by (simp add: udp_packet_opens)

theorem raw_admission_exact_witness:
  "\<exists>t'. fst (handleTCPConn plain_lib 50 ''[lan]:5'' True ''t:1'' ''a.b:80'' sample_world) = Relaying t'"
proof -
  have ip: "client_ip ''[lan]:5'' = ''lan''" by code_simp
  have "raw_granted 50 sample_db (parseCachedRoute sample_route) ''lan''"
    using sample_session [of "[7]"] by (auto simp: raw_granted_def sample_cached)
  with raw_admission_exact [OF sample_facts(1,2), of "''a.b:80''" "parseCachedRoute sample_route" plain_lib 50 "''[lan]:5''" True "''t:1''"]
  show ?thesis by (simp add: sample_facts ip)
qed

section \<open>Life of a UDP flow\<close>

definition flows_ok :: "udp_relay \<Rightarrow> bool" where
  "flows_ok u \<longleftrightarrow> distinct (map fst (ur_sessions u)) \<and> (\<forall>k s. map_of (ur_sessions u) k = Some s \<longrightarrow> us_target s = ur_target u)"

lemma map_of_filter_value:
  "distinct (map fst m) \<Longrightarrow>
   map_of (filter (\<lambda>(k, s). P s) m) k = (case map_of m k of None \<Rightarrow> None | Some s \<Rightarrow> if P s then Some s else None)"
proof (induction m)
  case (Cons e m)
  obtain k' s where e: "e = (k', s)" by (cases e)
  have "map_of m k' = None" using Cons.prems by (simp add: e map_of_eq_None_iff)
  with Cons show ?case by (cases "k = k'") (auto simp: e split: option.splits)
qed simp

lemma reap_lookup:
  "flows_ok u \<Longrightarrow> map_of (ur_sessions (reapUDPSessions now u)) key =
    (case map_of (ur_sessions u) key of None \<Rightarrow> None
     | Some s \<Rightarrow> if us_last s < now - udpSessionTimeout then None else Some s)"
  unfolding reapUDPSessions_def flows_ok_def
  using map_of_filter_value [of "ur_sessions u" "\<lambda>s. \<not> us_last s < now - udpSessionTimeout" key]
  by (simp split: option.split)

lemma touch_lookup [simp]:
  "map_of (ur_sessions (touch k now s u)) key = (if key = k then Some (s\<lparr>us_last := now\<rparr>) else map_of (ur_sessions u) key)"
  "ur_open (touch k now s u) = ur_open u" "ur_target (touch k now s u) = ur_target u" "ur_url (touch k now s u) = ur_url u"
  by (simp_all add: touch_def)

lemma touch_flows_ok: "flows_ok u \<Longrightarrow> us_target s = ur_target u \<Longrightarrow> flows_ok (touch k now s u)"
  by (auto simp: flows_ok_def distinct_update) (simp add: touch_def distinct_update)

lemma udp_packet_known:
  "ur_open u \<Longrightarrow> map_of (ur_sessions u) key = Some s \<Longrightarrow>
   udp_packet L now key dial (u, w) = (Forwarded (us_target s), (touch key now s u, w))"
  by (simp add: udp_packet_def)

text \<open>A packet changes at most its own client's session, which it creates with the relay's target.\<close>

lemma udp_packet_result:
  assumes "udp_packet L now key dial (u, w) = (res, (u', w'))"
  shows "u' = u \<or> (\<exists>s. u' = touch key now s u \<and>
    (map_of (ur_sessions u) key = Some s \<or> (map_of (ur_sessions u) key = None \<and> us_target s = ur_target u)))"
  using assms by (auto simp: udp_packet_def Let_def split: if_splits option.splits prod.splits)

lemma udp_step_flows_ok: "flows_ok u \<Longrightarrow> flows_ok (fst (udp_event_step L e (u, w)))"
proof (cases e)
  case (Packet now key dial)
  assume ok: "flows_ok u"
  obtain res u' w' where p: "udp_packet L now key dial (u, w) = (res, (u', w'))" by (metis prod.collapse)
  from udp_packet_result [OF p] have "u' = u \<or> (\<exists>s. u' = touch key now s u \<and> us_target s = ur_target u)"
    using ok unfolding flows_ok_def by blast
  with ok have "flows_ok u'" using touch_flows_ok by blast
  then show ?thesis by (simp add: Packet p)
next
  case (Reply now key)
  assume ok: "flows_ok u"
  then show ?thesis using touch_flows_ok [OF ok]
    by (cases "map_of (ur_sessions u) key") (auto simp: Reply udp_reply_def flows_ok_def [of u])
next
  case (PumpEnds key)
  assume "flows_ok u"
  then show ?thesis by (simp add: PumpEnds udp_pump_ends_def flows_ok_def distinct_delete)
next
  case (ReapTick now)
  assume ok: "flows_ok u"
  then have "distinct (map fst (ur_sessions (reapUDPSessions now u)))"
    by (simp add: reapUDPSessions_def flows_ok_def distinct_map_filter)
  with ok show ?thesis
    by (simp add: ReapTick flows_ok_def [of "reapUDPSessions now u"] reap_lookup split: option.split)
      (simp add: flows_ok_def reapUDPSessions_def)
qed (simp_all add: flows_ok_def udp_cancel_def)

lemma udp_run_flows_ok: "flows_ok u \<Longrightarrow> flows_ok (fst (udp_run L es (u, w)))"
proof (induction es arbitrary: u w)
  case (Cons e es)
  obtain u' w' where s: "udp_event_step L e (u, w) = (u', w')" by force
  with udp_step_flows_ok [OF Cons.prems, of L e w] have "flows_ok u'" by simp
  from Cons.IH [OF this] show ?case by (simp add: udp_run_def s)
qed (simp add: udp_run_def)

text \<open>
  \<open>kept last key es\<close>: the flow of \<open>key\<close>, last active at \<open>last\<close>, is never idle for 120 seconds at a tick
  of the reaper, its pump does not end (its target's socket gives no error), reading the listen socket gives no
  error, and the relay is not cancelled.
\<close>

fun kept :: "time \<Rightarrow> string \<Rightarrow> udp_event list \<Rightarrow> bool" where
  "kept t key [] = True"
| "kept t key (Packet now k dial # es) = kept (if k = key then now else t) key es"
| "kept t key (Reply now k # es) = kept (if k = key then now else t) key es"
| "kept t key (PumpEnds k # es) = (k \<noteq> key \<and> kept t key es)"
| "kept t key (ReapTick now # es) = (now - udpSessionTimeout \<le> t \<and> kept t key es)"
| "kept t key (ReadError # es) = False"
| "kept t key (UdpCancel # es) = False"
| "kept t key (Outside w # es) = kept t key es"

lemma udp_flow_kept:
  assumes "flows_ok u" "ur_open u" "map_of (ur_sessions u) key = Some s" "kept (us_last s) key es"
  shows "\<exists>s'. map_of (ur_sessions (fst (udp_run L es (u, w)))) key = Some s' \<and> us_target s' = us_target s \<and>
    ur_open (fst (udp_run L es (u, w)))"
  using assms
proof (induction es arbitrary: u w s)
  case (Cons e es)
  obtain u' w' where st: "udp_event_step L e (u, w) = (u', w')" by force
  have ok: "flows_ok u'" using udp_step_flows_ok [OF Cons.prems(1), of L e w] by (simp add: st)
  have "\<exists>s'. map_of (ur_sessions u') key = Some s' \<and> us_target s' = us_target s \<and> ur_open u' \<and> kept (us_last s') key es"
  proof (cases e)
    case (Packet now k dial)
    obtain res where p: "udp_packet L now k dial (u, w) = (res, (u', w'))" using st by (simp add: Packet) (metis prod.collapse)
    show ?thesis
    proof (cases "k = key")
      case True
      then have "u' = touch key now s u" using p udp_packet_known [OF Cons.prems(2,3), of L now dial w] by simp
      then show ?thesis using Cons.prems(2,4) True by (simp add: Packet)
    next
      case False
      with udp_packet_result [OF p] Cons.prems show ?thesis by (auto simp: Packet)
    qed
  next
    case (Reply now k)
    with Cons.prems st show ?thesis by (cases "k = key") (auto simp: udp_reply_def split: option.splits)
  next
    case (PumpEnds k)
    with Cons.prems st show ?thesis by (auto simp: udp_pump_ends_def)
  next
    case (ReapTick now)
    with Cons.prems st have "u' = reapUDPSessions now u" by simp
    moreover have "map_of (ur_sessions (reapUDPSessions now u)) key = Some s"
      using Cons.prems by (simp add: reap_lookup ReapTick)
    ultimately show ?thesis using Cons.prems by (simp add: ReapTick) (simp add: reapUDPSessions_def)
  qed (use Cons.prems st in simp_all)
  then obtain s' where "map_of (ur_sessions u') key = Some s'" "us_target s' = us_target s" "ur_open u'"
    "kept (us_last s') key es" by blast
  from Cons.IH [OF ok this(3) this(1) this(4), of w'] this(2) show ?case by (simp add: udp_run_def st)
qed (simp add: udp_run_def)

definition fresh_relay :: "string \<Rightarrow> string \<Rightarrow> udp_relay" where
  "fresh_relay target url = \<lparr>ur_target = target, ur_url = url, ur_open = True, ur_sessions = []\<rparr>"

lemma fresh_flows_ok: "flows_ok (fresh_relay t url)"
  by (simp add: flows_ok_def fresh_relay_def)

text \<open>
  C19: a UDP flow is authorised once. From the moment it is admitted, whatever happens to the shared state - a
  ban of the client, the end of its session, a change of who may use the route - every datagram of the client is
  forwarded and leaves the shared state alone. Only four things end the flow: 120 seconds without a datagram in
  either direction at a tick of the reaper, an error of its target's socket, an error of the listen socket, and
  the end of the relay (a stop, a change of its target).
\<close>

theorem udp_flow_outlives_bans:
  assumes "udp_run L es0 (fresh_relay target url, w0) = (u, w)"
    and "ur_open u" "map_of (ur_sessions u) key = Some s" "kept (us_last s) key es"
  shows "\<exists>u'. udp_packet L now key dial (udp_run L es (u, w)) =
    (Forwarded target, (u', snd (udp_run L es (u, w))))"
proof -
  have ok: "flows_ok u" using udp_run_flows_ok [OF fresh_flows_ok, of L es0 target url w0] assms(1) by simp
  have "ur_target (fst (udp_run L es (u1, w1))) = ur_target u1" for es u1 w1
  proof (induction es arbitrary: u1 w1)
    case (Cons e es)
    obtain u2 w2 where st: "udp_event_step L e (u1, w1) = (u2, w2)" by force
    have "ur_target u2 = ur_target u1"
    proof (cases e)
      case (Packet now k dial)
      then obtain res where "udp_packet L now k dial (u1, w1) = (res, (u2, w2))" using st by simp (metis prod.collapse)
      from udp_packet_result [OF this] show ?thesis by auto
    qed (use st in \<open>auto simp: udp_reply_def udp_pump_ends_def reapUDPSessions_def udp_cancel_def split: option.splits\<close>)
    with Cons.IH [of u2 w2] show ?case by (simp add: udp_run_def st)
  qed (simp add: udp_run_def)
  from this [of es0 "fresh_relay target url" w0] assms(1) have "ur_target u = target" by (simp add: fresh_relay_def)
  then have "us_target s = target" using ok assms(3) by (simp add: flows_ok_def)
  moreover obtain u1 w1 where r: "udp_run L es (u, w) = (u1, w1)" by force
  ultimately obtain s' where "map_of (ur_sessions u1) key = Some s'" "us_target s' = target" "ur_open u1"
    using udp_flow_kept [OF ok assms(2-4), of L w] by auto
  then show ?thesis using udp_packet_known [of u1 key s' L now dial w1] by (simp add: r)
qed

definition banned_run :: "udp_event list" where
  "banned_run = [Outside banned_world, Packet (70 * Second) ''[lan]:5'' True, ReapTick (180 * Second)]"

theorem udp_flow_outlives_bans_witness:
  "fst (udp_packet plain_lib (181 * Second) ''[lan]:5'' True
     (udp_run plain_lib banned_run (udp_run plain_lib [Packet 50 ''[lan]:5'' True] (fresh_relay ''t:1'' ''x:1'', sample_world)))) =
   Forwarded ''t:1'' \<and>
   fst (IsBanned (181 * Second) (client_ip ''[lan]:5'') (thr banned_world))"
proof -
  let ?uw = "udp_run plain_lib [Packet 50 ''[lan]:5'' True] (fresh_relay ''t:1'' ''x:1'', sample_world)"
  have ip: "client_ip ''[lan]:5'' = ''lan''" by code_simp
  have "udp_packet plain_lib 50 ''[lan]:5'' True (fresh_relay ''t:1'' ''x:1'', sample_world) =
      (Forwarded ''t:1'', (touch ''[lan]:5'' 50 \<lparr>us_target = ''t:1'', us_last = 50\<rparr> (fresh_relay ''t:1'' ''x:1''), snd ?uw))" (is "?p = ?res")
    using sample_facts(7) [of 50 "''lan''"]
    by (simp add: udp_packet_def udp_run_def ip fresh_relay_def check_banned_thr authorizeIP_def sample_facts Let_def)
  then have "fst (snd ?p) = fst (snd ?res)" by (rule arg_cong [where f = "\<lambda>x. fst (snd x)"])
  then have fst_uw: "fst ?uw = touch ''[lan]:5'' 50 \<lparr>us_target = ''t:1'', us_last = 50\<rparr> (fresh_relay ''t:1'' ''x:1'')"
    by (simp add: udp_run_def)
  then have s: "ur_open (fst ?uw)" "map_of (ur_sessions (fst ?uw)) ''[lan]:5'' = Some \<lparr>us_target = ''t:1'', us_last = 50\<rparr>"
    by (simp_all add: fresh_relay_def)
  have k: "kept (us_last \<lparr>us_target = ''t:1'', us_last = 50\<rparr>) ''[lan]:5'' banned_run"
    by (simp add: banned_run_def udpSessionTimeout_def Second_def)
  have "fst (IsBanned (181 * Second) ''lan'' (thr banned_world))"
    by (simp add: banned_world_def sample_facts IsBanned_live ban_set_def ban_live_def is_zero_def)
  then show ?thesis
    using udp_flow_outlives_bans [OF _ s k, of plain_lib "[Packet 50 ''[lan]:5'' True]" "''t:1''" "''x:1''" sample_world
        "snd ?uw" "181 * Second" True]
    by (auto simp: ip)
qed

text \<open>
  The reaper closes exactly the idle flows: after a tick a flow is present if and only if it was there
  and was active within the last 120 seconds, and what is left is unchanged.
\<close>

lemma reap_exact:
  assumes "udp_run L es (fresh_relay target url, w0) = (u, w)"
  shows "map_of (ur_sessions (reapUDPSessions now u)) key = Some s \<longleftrightarrow>
    map_of (ur_sessions u) key = Some s \<and> now - 120 * Second \<le> us_last s"
proof -
  have "flows_ok u" using udp_run_flows_ok [OF fresh_flows_ok, of L es target url w0] assms by simp
  from reap_lookup [OF this, of now key] show ?thesis by (auto simp: udpSessionTimeout_def split: option.splits)
qed

lemma reap_exact_witness:
  "map_of (ur_sessions (reapUDPSessions (121 * Second) (fst (udp_run plain_lib [] (fresh_relay ''t:1'' ''x:1'', sample_world))))) ''k'' \<noteq>
     Some \<lparr>us_target = ''t:1'', us_last = 0\<rparr>"
  using reap_exact [of plain_lib "[]" "''t:1''" "''x:1''" sample_world "fst (udp_run plain_lib [] (fresh_relay ''t:1'' ''x:1'', sample_world))"
      "snd (udp_run plain_lib [] (fresh_relay ''t:1'' ''x:1'', sample_world))" "121 * Second" "''k''" "\<lparr>us_target = ''t:1'', us_last = 0\<rparr>"]
  by (simp add: Second_def)

text \<open>
  C20: deleting a UDP route whose port also has an HTTP listener opens it to everyone. Its relay goes on,
  still under the route's URL, and once the cache is refreshed without the deleted row every address is
  authorised, whatever groups or addresses the route was restricted to.
\<close>

theorem deleted_udp_route_opens:
  assumes "parseHostPort url = Inr (host, port)" "map_of (px_servers px) port = Some ls"
    and "map_of (px_udp px) port = Some (target, url)"
    and "db_ok (dbase w)" "\<not> db_fault L ''GetAllRoutes''" "route_lookup (dbase w) url = None"
  shows "map_of (px_udp (UnregisterRoute url px)) port = Some (target, url) \<and>
    (\<forall>now ip. authorizeIP L now url ip (refreshCache L now0 w) = (Some (True, []), refreshCache L now0 w))"
  using UnregisterRoute_http(3) [OF assms(1,2)] assms(3) authorizeIP_unknown refresh_cache_map [OF assms(4,5), of now0] assms(6)
  by simp

definition shared_port :: proxy where
  "shared_port = run_ops plain_lib [] [Create (plain_route ''u:8080'' ''udp'')] demo_proxy"

theorem deleted_udp_route_opens_witness:
  "map_of (px_udp (UnregisterRoute ''u:8080'' shared_port)) ''8080'' = Some (''10.0.0.1:80'', ''u:8080'') \<and>
   fst (authorizeIP plain_lib 9 ''u:8080'' ''8.8.8.8'' (refreshCache plain_lib 5 (world0 empty_db))) = Some (True, [])"
proof -
  have p: "parseHostPort ''u:8080'' = Inr (''u'', ''8080'')" by code_simp
  have "map_of (px_servers shared_port) ''8080'' \<noteq> None" by code_simp
  then obtain ls where ls: "map_of (px_servers shared_port) ''8080'' = Some ls" by blast
  have u: "map_of (px_udp shared_port) ''8080'' = Some (''10.0.0.1:80'', ''u:8080'')" by code_simp
  have "dbase (world0 empty_db) = empty_db" by (simp add: world0_def)
  then have "db_ok (dbase (world0 empty_db))" "route_lookup (dbase (world0 empty_db)) ''u:8080'' = None"
    using empty_db_ok by (simp_all add: route_lookup_def) (simp add: empty_db_def)
  from deleted_udp_route_opens [OF p ls u this(1) _ this(2), of plain_lib 5] show ?thesis by simp
qed

end
