(* ===== verification/ApiCore.thy ===== *)
theory ApiCore
  imports Access RouteLife
begin

text \<open>
  api/auth.go without the admin part, the user part of api/metrics.go, and api/example.go: the session
  cookie, login, registration, the user's own pages. A handler takes the clock, the bytes that
  \<^verbatim>\<open>crypto/rand\<close> gives it and the request, and returns its response with the new state. \<open>site\<close> is the whole
  running program: the shared state, the route table, the registry and the globals of package api.
\<close>

record site =
  s_world :: world
  s_proxy :: proxy
  s_registry :: registry
  s_authURL :: string
  s_cert :: string
  s_key :: string
  s_wired :: bool

abbreviation s_db :: "site \<Rightarrow> db" where "s_db s \<equiv> dbase (s_world s)"

definition set_db :: "db \<Rightarrow> site \<Rightarrow> site" where
  "set_db d s = s\<lparr>s_world := (s_world s)\<lparr>dbase := d\<rparr>\<rparr>"

definition respond :: "response \<Rightarrow> site \<Rightarrow> outcome \<times> site" where
  "respond rs s = (Respond rs, s)"

definition not_allowed :: "site \<Rightarrow> outcome \<times> site" where
  "not_allowed s = respond (fail StatusMethodNotAllowed ''method not allowed'') s"

definition db_error :: "site \<Rightarrow> outcome \<times> site" where
  "db_error s = respond (fail StatusInternalServerError ''db error'') s"

section \<open>The session cookie\<close>

text \<open>The last two labels of the host name; empty when there is only one.\<close>

definition rootDomain :: "string \<Rightarrow> string" where
  "rootDomain hostHeader =
     (let host = (case split_host_port hostHeader of Some (h, _) \<Rightarrow> h | None \<Rightarrow> hostHeader);
          parts = split_on (CHR ''.'') host
      in if length parts < 2 then [] else join_with ''.'' (drop (length parts - 2) parts))"

definition cookieMaxAge :: duration where "cookieMaxAge = 400 * 24 * Hour"

definition setSession :: "request \<Rightarrow> string \<Rightarrow> response \<Rightarrow> response" where
  "setSession r tok rs = rs\<lparr>rs_cookie := Some \<lparr>ck_value = tok, ck_domain = rootDomain (rq_host r),
     ck_secure = rq_tls r, ck_max_age = float_to_int (secs cookieMaxAge)\<rparr>\<rparr>"

definition clearSession :: "request \<Rightarrow> response \<Rightarrow> response" where
  "clearSession r rs = rs\<lparr>rs_cookie := Some \<lparr>ck_value = [], ck_domain = rootDomain (rq_host r),
     ck_secure = rq_tls r, ck_max_age = - 1\<rparr>\<rparr>"

definition sessionFromRequest :: "lib \<Rightarrow> time \<Rightarrow> request \<Rightarrow> site \<Rightarrow> err + session" where
  "sessionFromRequest L now r s =
     (case rq_cookie r of
        None \<Rightarrow> Inl (Msg ''http: named cookie not present'')
      | Some tok \<Rightarrow> ValidateSession L now (s_db s) tok)"

definition requireAdmin :: "lib \<Rightarrow> time \<Rightarrow> request \<Rightarrow> site \<Rightarrow> response + session" where
  "requireAdmin L now r s =
     (case sessionFromRequest L now r s of
        Inl e \<Rightarrow> Inl (fail StatusUnauthorized ''not authenticated'')
      | Inr sess \<Rightarrow>
          (case UserInGroup L (s_db s) (sn_user sess) ''admin'' of
             Inr True \<Rightarrow> Inr sess
           | _ \<Rightarrow> Inl (fail StatusForbidden ''admin required'')))"

text \<open>\<^verbatim>\<open>clientIP, _, _ := net.SplitHostPort(r.RemoteAddr)\<close>: empty when it fails.\<close>

definition login_ip :: "request \<Rightarrow> string" where
  "login_ip r = (case split_host_port (rq_remote r) of None \<Rightarrow> [] | Some (ip, _) \<Rightarrow> ip)"

text \<open>An error of \<open>GetUserGroups\<close> is dropped, leaving the nil slice.\<close>

definition groups_or_nil :: "lib \<Rightarrow> db \<Rightarrow> int \<Rightarrow> group list" where
  "groups_or_nil L d uid = (case GetUserGroups L d uid of Inl e \<Rightarrow> [] | Inr gs \<Rightarrow> gs)"

section \<open>Endpoints\<close>

definition handle_config :: "request \<Rightarrow> site \<Rightarrow> outcome \<times> site" where
  "handle_config r s =
     (if rq_method r \<noteq> ''GET'' then not_allowed s else respond (ok (AuthUrlIs (s_authURL s))) s)"

definition defaultSessionDur :: duration where "defaultSessionDur = 7 * 24 * Hour"

definition handle_login :: "lib \<Rightarrow> time \<Rightarrow> 8 word list \<Rightarrow> request \<Rightarrow> site \<Rightarrow> outcome \<times> site" where
  "handle_login L now rnd r s =
     (let b = rq_body r; d = s_db s; ip = login_ip r
      in if rq_method r \<noteq> ''POST'' then not_allowed s
         else if \<not> bd_ok b then respond (fail StatusBadRequest ''invalid request'') s
         else case Authenticate L d (bd_str b ''username'') (bd_str b ''password'') of
             Inl e \<Rightarrow> respond (fail StatusUnauthorized ''invalid credentials'')
                        (set_db (LogAuthFailure L now d ip (bd_str b ''username'')) s)
           | Inr u \<Rightarrow>
               (let dur0 = SessionDur (GetSettings L d); dur = (if dur0 \<le> 0 then defaultSessionDur else dur0)
                in case CreateSession L now rnd d (user_id u) dur ip of
                     (d', Inl e) \<Rightarrow> respond (fail StatusInternalServerError ''session error'') (set_db d' s)
                   | (d', Inr tok) \<Rightarrow>
                       respond (setSession r tok (ok (UserWithGroups u (groups_or_nil L d' (user_id u))))) (set_db d' s)))"

definition handle_logout :: "lib \<Rightarrow> request \<Rightarrow> site \<Rightarrow> outcome \<times> site" where
  "handle_logout L r s =
     (if rq_method r \<noteq> ''POST'' then not_allowed s
      else respond (clearSession r (ok OkTrue))
        (case rq_cookie r of None \<Rightarrow> s | Some tok \<Rightarrow> set_db (fst (DeleteSession L (s_db s) tok)) s))"

definition handle_register :: "lib \<Rightarrow> time \<Rightarrow> request \<Rightarrow> site \<Rightarrow> outcome \<times> site" where
  "handle_register L now r s =
     (let b = rq_body r
      in if rq_method r \<noteq> ''POST'' then not_allowed s
         else if \<not> bd_ok b \<or> bd_str b ''username'' = [] \<or> bd_str b ''password'' = [] \<or> bd_str b ''invite'' = []
           then respond (fail StatusBadRequest ''username, password and invite are required'') s
         else case UseInvite L now (s_db s) (bd_str b ''invite'') of
             (d1, Inl e) \<Rightarrow> respond (fail StatusBadRequest ''invalid or expired invite'') (set_db d1 s)
           | (d1, Inr iv) \<Rightarrow>
               (case CreateUser L now d1 (bd_str b ''username'') (bd_str b ''password'') of
                  (d2, Inl e) \<Rightarrow> respond (fail StatusConflict ''username already taken'') (set_db d2 s)
                | (d2, Inr u) \<Rightarrow> respond (ok (NewUser u)) (set_db d2 s)))"

definition handle_me :: "lib \<Rightarrow> time \<Rightarrow> request \<Rightarrow> site \<Rightarrow> outcome \<times> site" where
  "handle_me L now r s =
     (if rq_method r \<noteq> ''GET'' then not_allowed s
      else case sessionFromRequest L now r s of
          Inl e \<Rightarrow> respond (fail StatusUnauthorized ''not authenticated'') s
        | Inr sess \<Rightarrow>
            (case GetUserByID L (s_db s) (sn_user sess) of
               Inl e \<Rightarrow> respond (fail StatusNotFound ''user not found'') s
             | Inr u \<Rightarrow> respond (ok (UserWithGroups u (groups_or_nil L (s_db s) (user_id u)))) s))"

text \<open>\<^verbatim>\<open>int(d.Hours())\<close>.\<close>

definition whole_hours :: "duration \<Rightarrow> int" where
  "whole_hours d =
     (let h = sgn d * (\<bar>d\<bar> div Hour); n = sgn d * (\<bar>d\<bar> mod Hour)
      in float_to_int (fl (fl (of_int h) + fl (fl (of_int n) / 3600000000000))))"

definition isRawType :: "string \<Rightarrow> bool" where
  "isRawType t \<longleftrightarrow> t = ''tcp'' \<or> t = ''udp'' \<or> t = ''tcp+udp''"

text \<open>The routes a browser can open: not raw, not an API, not on the host of the request itself.\<close>

definition listed_route :: "string \<Rightarrow> int list \<Rightarrow> route \<Rightarrow> bool" where
  "listed_route selfHost gids rt \<longleftrightarrow>
     \<not> (isRawType (rt_type rt) \<or> rt_type rt = ''api'') \<and>
     before_byte (CHR '':'') (rt_url rt) \<noteq> selfHost \<and> RouteAllows (rt_groups rt) gids"

definition handle_user_routes :: "lib \<Rightarrow> time \<Rightarrow> request \<Rightarrow> site \<Rightarrow> outcome \<times> site" where
  "handle_user_routes L now r s =
     (if rq_method r \<noteq> ''GET'' then not_allowed s
      else case sessionFromRequest L now r s of
          Inl e \<Rightarrow> respond (fail StatusUnauthorized ''not authenticated'') s
        | Inr sess \<Rightarrow>
            (case GetUserGroups L (s_db s) (sn_user sess) of
               Inl e \<Rightarrow> db_error s
             | Inr gs \<Rightarrow>
                 (case GetAllRoutes L (s_db s) of
                    Inl e \<Rightarrow> db_error s
                  | Inr rts \<Rightarrow>
                      (let st = GetSettings L (s_db s); hours = whole_hours (SessionDur st);
                           selfHost = before_byte (CHR '':'') (rq_host r)
                       in respond (ok (Accessible (map (\<lambda>rt. \<lparr>ri_url = rt_url rt, ri_tls = rt_tls rt,
                              ri_hours = hours, ri_renew = st_renew st\<rparr>)
                            (filter (listed_route selfHost (map group_id gs)) rts)))) s))))"

definition handle_extend :: "lib \<Rightarrow> time \<Rightarrow> request \<Rightarrow> site \<Rightarrow> outcome \<times> site" where
  "handle_extend L now r s =
     (if rq_method r \<noteq> ''POST'' then not_allowed s
      else case sessionFromRequest L now r s of
          Inl e \<Rightarrow> respond (fail StatusUnauthorized ''not authenticated'') s
        | Inr sess \<Rightarrow>
            if rq_query r ''url'' = [] then respond (fail StatusBadRequest ''url required'') s
            else (case GetRouteByUrl L (s_db s) (rq_query r ''url'') of
                Inl e \<Rightarrow> respond (fail StatusNotFound ''route not found'') s
              | Inr rt \<Rightarrow>
                  (case GetUserGroups L (s_db s) (sn_user sess) of
                     Inl e \<Rightarrow> db_error s
                   | Inr gs \<Rightarrow>
                       if \<not> RouteAllows (rt_groups rt) (map group_id gs)
                       then respond (fail StatusForbidden ''access denied'') s
                       else let dur = SessionDur (GetSettings L (s_db s));
                                rs = ok (ExpiresAt (time_add now dur))
                         in respond (case rq_cookie r of None \<Rightarrow> rs | Some tok \<Rightarrow> setSession r tok rs)
                              (set_db (ExtendSessionByID L now (s_db s) (sn_id sess) dur) s))))"

definition handle_user_sessions :: "lib \<Rightarrow> time \<Rightarrow> request \<Rightarrow> site \<Rightarrow> outcome \<times> site" where
  "handle_user_sessions L now r s =
     (case sessionFromRequest L now r s of
        Inl e \<Rightarrow> respond (fail StatusUnauthorized ''not authenticated'') s
      | Inr sess \<Rightarrow>
          if rq_method r = ''GET'' then
            (case GetUserSessions L now (s_db s) (sn_user sess) of
               Inl e \<Rightarrow> db_error s
             | Inr ss \<Rightarrow> respond (ok (OwnSessions ss (sn_id sess))) s)
          else if rq_method r = ''DELETE'' then
            (case atoi (rq_query r ''id'') of
               None \<Rightarrow> respond (fail StatusBadRequest ''invalid id'') s
             | Some i \<Rightarrow>
                 (case DeleteSessionByID L (s_db s) i (sn_user sess) of
                    (d', Inl e) \<Rightarrow> respond (fail StatusNotFound ''session not found'') (set_db d' s)
                  | (d', Inr u) \<Rightarrow> respond (ok OkTrue) (set_db d' s)))
          else not_allowed s)"

definition handle_example :: "request \<Rightarrow> site \<Rightarrow> outcome \<times> site" where
  "handle_example r s = respond (ok (Greeting (rq_path r) (rq_method r))) s"

definition handle_health :: "site \<Rightarrow> outcome \<times> site" where
  "handle_health s = respond (ok Healthy) s"

section \<open>Projections\<close>

lemma set_db_sel [simp]:
  "s_db (set_db d s) = d" "s_proxy (set_db d s) = s_proxy s" "s_registry (set_db d s) = s_registry s"
  "thr (s_world (set_db d s)) = thr (s_world s)" "authStore (s_world (set_db d s)) = authStore (s_world s)"
  "authCache (s_world (set_db d s)) = authCache (s_world s)" "met (s_world (set_db d s)) = met (s_world s)"
  "logChan (s_world (set_db d s)) = logChan (s_world s)" "s_wired (set_db d s) = s_wired s"
  "set_db d' (set_db d s) = set_db d' s"
  by (simp_all add: set_db_def)

lemma set_db_id [simp]: "set_db (s_db s) s = s"
  by (simp add: set_db_def)

lemma setSession_sel [simp]:
  "rs_status (setSession r tok rs) = rs_status rs" "rs_body (setSession r tok rs) = rs_body rs"
  "rs_status (clearSession r rs) = rs_status rs"
  by (simp_all add: setSession_def clearSession_def)

lemmas respond_defs = respond_def not_allowed_def db_error_def

section \<open>Login\<close>

lemma SessionDur_positive_lifetime:
  "0 < (if SessionDur st \<le> 0 then defaultSessionDur else SessionDur st)"
  by (simp add: defaultSessionDur_def time_defs)

lemma handle_login_ok:
  assumes "handle_login L now rnd r s = (Respond rs, s')" "rs_status rs = StatusOK"
  obtains u tok dur d' where "Authenticate L (s_db s) (bd_str (rq_body r) ''username'') (bd_str (rq_body r) ''password'') = Inr u"
    "0 < dur" "CreateSession L now rnd (s_db s) (user_id u) dur (login_ip r) = (d', Inr tok)"
    "s' = set_db d' s" "rs_cookie rs = Some \<lparr>ck_value = tok, ck_domain = rootDomain (rq_host r), ck_secure = rq_tls r,
       ck_max_age = float_to_int (secs cookieMaxAge)\<rparr>"
proof (cases "Authenticate L (s_db s) (bd_str (rq_body r) ''username'') (bd_str (rq_body r) ''password'')")
  case (Inl e)
  with assms show thesis by (auto simp: handle_login_def Let_def respond_defs status_defs split: if_splits)
next
  case (Inr u)
  define dur where "dur = (if SessionDur (GetSettings L (s_db s)) \<le> 0 then defaultSessionDur else SessionDur (GetSettings L (s_db s)))"
  obtain d' res where c: "CreateSession L now rnd (s_db s) (user_id u) dur (login_ip r) = (d', res)" by force
  have post: "rq_method r = ''POST''" "bd_ok (rq_body r)"
    using assms by (auto simp: handle_login_def Let_def respond_defs status_defs split: if_splits)
  show thesis
  proof (cases res)
    case (Inl e)
    with assms Inr c post show thesis by (auto simp: handle_login_def Let_def dur_def respond_defs status_defs)
  next
    case r: (Inr tok)
    have "rs = setSession r tok (ok (UserWithGroups u (groups_or_nil L d' (user_id u))))" "s' = set_db d' s"
      using assms(1) Inr c [unfolded r] post by (simp_all add: handle_login_def Let_def dur_def respond_def)
    with that [OF Inr _ c [unfolded r]] show thesis
      using SessionDur_positive_lifetime [of "GetSettings L (s_db s)"] by (simp add: dur_def setSession_def)
  qed
qed

text \<open>
  C22: login round trip. A successful login sets a cookie; a request that carries it is authenticated as the
  user whose name and password were given, at every time before some later expiry and at none after; and
  once the cookie is sent to the logout endpoint it authenticates nobody.
\<close>

theorem login_round_trip:
  assumes "handle_login L now rnd r s = (Respond rs, s')" "rs_status rs = StatusOK" "db_ok (s_db s)"
    and "\<not> db_fault L ''ValidateSession''" "\<not> db_fault L ''DeleteSession''"
  shows "\<exists>u ck expiry. Authenticate L (s_db s) (bd_str (rq_body r) ''username'') (bd_str (rq_body r) ''password'') = Inr u \<and>
    rs_cookie rs = Some ck \<and> now < expiry \<and>
    (\<forall>t r'. rq_cookie r' = Some (ck_value ck) \<longrightarrow>
       ((\<exists>sn. sessionFromRequest L t r' s' = Inr sn \<and> sn_user sn = user_id u) \<longleftrightarrow> t < expiry) \<and>
       (rq_method r' = ''POST'' \<longrightarrow> (\<exists>e. sessionFromRequest L t r' (snd (handle_logout L r' s')) = Inl e)))"
proof (rule handle_login_ok [OF assms(1,2)])
  fix u tok dur d'
  assume a: "Authenticate L (s_db s) (bd_str (rq_body r) ''username'') (bd_str (rq_body r) ''password'') = Inr u"
    "0 < dur" "CreateSession L now rnd (s_db s) (user_id u) dur (login_ip r) = (d', Inr tok)" "s' = set_db d' s"
    "rs_cookie rs = Some \<lparr>ck_value = tok, ck_domain = rootDomain (rq_host r), ck_secure = rq_tls r,
       ck_max_age = float_to_int (secs cookieMaxAge)\<rparr>"
  note life = session_life [OF a(3) assms(3-5)]
  have "now < time_add now dur" using a(2) by (simp add: time_add_def)
  moreover have "((\<exists>sn. sessionFromRequest L t r' s' = Inr sn \<and> sn_user sn = user_id u) \<longleftrightarrow> t < time_add now dur) \<and>
       (rq_method r' = ''POST'' \<longrightarrow> (\<exists>e. sessionFromRequest L t r' (snd (handle_logout L r' s')) = Inl e))"
    if "rq_cookie r' = Some tok" for t r'
    using life [of t] that by (simp add: sessionFromRequest_def a(4) handle_logout_def respond_def)
  ultimately show ?thesis using a(1,5) by auto
qed

text \<open>A running site over the sample database, and a request with a JSON body.\<close>

definition demo_site :: site where
  "demo_site = \<lparr>s_world = sample_world, s_proxy = demo_proxy, s_registry = builtin_handlers, s_authURL = ''http://a.b:80'',
     s_cert = [], s_key = [], s_wired = True\<rparr>"

definition post_request :: "string \<Rightarrow> (string \<Rightarrow> string) \<Rightarrow> request" where
  "post_request path entries = (get_request ''a.b'' path ''10.0.0.9:5'')\<lparr>rq_method := ''POST'',
     rq_body := no_body\<lparr>bd_ok := True, bd_str := entries\<rparr>\<rparr>"

definition ann_login :: request where
  "ann_login = post_request ''/api/auth/login'' ((\<lambda>_. [])(''username'' := ''ann'', ''password'' := ''pw''))"

lemma demo_db: "s_db demo_site = sample_db"
  by (simp add: demo_site_def sample_facts)

lemma ann_login_sel:
  "rq_method ann_login = ''POST''" "bd_ok (rq_body ann_login)" "bd_str (rq_body ann_login) ''username'' = ''ann''"
  "bd_str (rq_body ann_login) ''password'' = ''pw''"
  by (simp_all add: ann_login_def post_request_def get_request_def)

lemma ann_authenticated: "\<exists>u. Authenticate plain_lib sample_db ''ann'' ''pw'' = Inr u \<and> user_id u = 1"
  by (simp add: Authenticate_def sample_db_def user_of_row_def)

lemma ann_logs_in: "\<exists>rs s'. handle_login plain_lib 0 [171] ann_login demo_site = (Respond rs, s') \<and> rs_status rs = StatusOK"
proof -
  obtain u where u: "Authenticate plain_lib sample_db ''ann'' ''pw'' = Inr u" "user_id u = 1" using ann_authenticated by blast
  have ch: "char_of (97 :: nat) = CHR ''a''" "char_of (98 :: nat) = CHR ''b''"
    by (simp_all flip: of_char_eq_iff [where ?'a = nat])
  then have tok: "randHex [171] = ''ab''" by (simp add: randHex_def hex_encode_def hex_char_def)
  have "sha256hex plain_lib ''ab'' = ''6162''" by (rule code_hash)
  then have "\<exists>d'. CreateSession plain_lib 0 [171] sample_db 1 dur ip = (d', Inr ''ab'')" for dur ip
    by (simp add: CreateSession_def tok sample_db_def Let_def)
  then obtain d' where "CreateSession plain_lib 0 [171] sample_db 1
      (if SessionDur (GetSettings plain_lib sample_db) \<le> 0 then defaultSessionDur else SessionDur (GetSettings plain_lib sample_db))
      (login_ip ann_login) = (d', Inr ''ab'')" by blast
  with u show ?thesis
    by (simp add: handle_login_def ann_login_sel demo_db Let_def respond_def)
qed

theorem login_round_trip_witness:
  "\<exists>rs s'. handle_login plain_lib 0 [171] ann_login demo_site = (Respond rs, s') \<and> rs_status rs = StatusOK \<and>
    (\<exists>ck expiry. rs_cookie rs = Some ck \<and> (0 :: time) < expiry)"
proof -
  obtain rs s' where l: "handle_login plain_lib 0 [171] ann_login demo_site = (Respond rs, s')" "rs_status rs = StatusOK"
    using ann_logs_in by blast
  have "db_ok (s_db demo_site)" "\<not> db_fault plain_lib ''ValidateSession''" "\<not> db_fault plain_lib ''DeleteSession''"
    by (simp_all add: demo_db sample_db_ok)
  from login_round_trip [OF l this] obtain ck and expiry :: time where "rs_cookie rs = Some ck" "0 < expiry"
    by (elim exE conjE) (rule that, assumption, assumption)
  with l show ?thesis by (intro exI [of _ rs] exI [of _ s']) auto
qed

section \<open>Registration\<close>

lemma UseInvite_users:
  "users (fst (UseInvite L now d code)) = users d" "users_seq (fst (UseInvite L now d code)) = users_seq d"
  "user_groups (fst (UseInvite L now d code)) = user_groups d"
  by (simp_all add: UseInvite_def UseInvite_update_def split: sum.split)

lemma CreateUser_cases:
  assumes "\<not> db_fault L ''CreateUser''"
  obtains (created) h u where "bcrypt_hash L p = Some h" "\<forall>r \<in> set (users d). usr_name r \<noteq> n"
    "CreateUser L now d n p = (d\<lparr>users := users d @ [\<lparr>usr_id = users_seq d + 1, usr_name = n, usr_hash = h,
       usr_created = sql_now now\<rparr>], users_seq := users_seq d + 1\<rparr>, Inr u)"
  | (refused) e where "bcrypt_hash L p = None \<or> (\<exists>r \<in> set (users d). usr_name r = n)" "CreateUser L now d n p = (d, Inl e)"
  using assms by (cases "bcrypt_hash L p"; cases "\<exists>r \<in> set (users d). usr_name r = n") (auto simp: CreateUser_def Let_def)

definition registration :: "request \<Rightarrow> bool" where
  "registration r \<longleftrightarrow> rq_method r = ''POST'' \<and> bd_ok (rq_body r) \<and> bd_str (rq_body r) ''username'' \<noteq> [] \<and>
     bd_str (rq_body r) ''password'' \<noteq> [] \<and> bd_str (rq_body r) ''invite'' \<noteq> []"

text \<open>
  C23: registration. A complete request creates the account if and only if its invite code is usable, its user
  name is free and its password can be hashed: then it is answered with 200 and the table of users has one row
  more, with the name, the hash and a fresh id, and else the table is as before. Nobody joins a group by it. A
  usable code is spent by the attempt either way, so a name that is taken costs the invite.
\<close>

theorem register_exact:
  assumes "registration r" "db_ok (s_db s)" "\<not> db_fault L ''UseInvite.select''" "\<not> db_fault L ''UseInvite.update''"
    and "\<not> db_fault L ''CreateUser''"
  defines "name \<equiv> bd_str (rq_body r) ''username''" and "code \<equiv> bd_str (rq_body r) ''invite''"
    and "hash \<equiv> bcrypt_hash L (bd_str (rq_body r) ''password'')"
  shows "\<exists>rs s'. handle_register L now r s = (Respond rs, s') \<and>
    (if usable L now (s_db s) code \<and> hash \<noteq> None \<and> (\<forall>x \<in> set (users (s_db s)). usr_name x \<noteq> name)
     then rs_status rs = StatusOK \<and> users (s_db s') = users (s_db s) @
       [\<lparr>usr_id = users_seq (s_db s) + 1, usr_name = name, usr_hash = the hash, usr_created = sql_now now\<rparr>]
     else rs_status rs \<noteq> StatusOK \<and> users (s_db s') = users (s_db s)) \<and>
    user_groups (s_db s') = user_groups (s_db s) \<and>
    (\<not> usable L t (s_db s') code \<or> \<not> usable L now (s_db s) code)"
proof -
  let ?p = "bd_str (rq_body r) ''password''"
  obtain d1 res1 where u: "UseInvite L now (s_db s) code = (d1, res1)" by force
  have same: "users d1 = users (s_db s)" "users_seq d1 = users_seq (s_db s)" "user_groups d1 = user_groups (s_db s)"
    using UseInvite_users [of L now "s_db s" code] u by simp_all
  note once = UseInvite_exact [OF assms(2-4), of now code t, unfolded u fst_conv snd_conv]
  have h: "handle_register L now r s = (case res1 of
      Inl e \<Rightarrow> respond (fail StatusBadRequest ''invalid or expired invite'') (set_db d1 s)
    | Inr iv \<Rightarrow> (case CreateUser L now d1 name ?p of
          (d2, Inl e) \<Rightarrow> respond (fail StatusConflict ''username already taken'') (set_db d2 s)
        | (d2, Inr x) \<Rightarrow> respond (ok (NewUser x)) (set_db d2 s)))"
    using assms(1) u by (simp add: handle_register_def registration_def Let_def name_def code_def split: sum.split)
  show ?thesis
  proof (cases res1)
    case (Inl e)
    with once h same show ?thesis by (simp add: respond_def status_defs)
  next
    case r1: (Inr iv)
    from assms(5) show ?thesis
    proof (cases rule: CreateUser_cases [of L ?p d1 name now])
      case (created x u)
      then have "usable L t (s_db (set_db (fst (CreateUser L now d1 name ?p)) s)) code = usable L t d1 code"
        by (simp add: usable_def)
      with created once h r1 same show ?thesis by (simp add: respond_def status_defs hash_def)
    next
      case (refused e)
      with once h r1 same show ?thesis by (auto simp: respond_def status_defs hash_def)
    qed
  qed
qed

definition invite_site :: site where
  "invite_site = set_db (invite_db\<lparr>users := users sample_db, users_seq := 2\<rparr>) demo_site"

theorem register_exact_witness:
  "\<exists>rs s'. handle_register plain_lib 5 (post_request ''/r'' ((\<lambda>_. [])(''username'' := ''ann'', ''password'' := ''x'', ''invite'' := ''ab'')))
       invite_site = (Respond rs, s') \<and> rs_status rs \<noteq> StatusOK \<and>
       users (s_db s') = users (s_db invite_site) \<and> \<not> usable plain_lib 6 (s_db s') ''ab''"
proof -
  let ?r = "post_request ''/r'' ((\<lambda>_. [])(''username'' := ''ann'', ''password'' := ''x'', ''invite'' := ''ab''))"
  have r: "registration ?r" "bd_str (rq_body ?r) ''invite'' = ''ab''" "bd_str (rq_body ?r) ''username'' = ''ann''"
    by (simp_all add: registration_def post_request_def get_request_def)
  have d: "s_db invite_site = invite_db\<lparr>users := users sample_db, users_seq := 2\<rparr>" by (simp add: invite_site_def)
  then have ok: "db_ok (s_db invite_site)" "usable plain_lib 5 (s_db invite_site) ''ab''"
    by (simp_all add: usable_def invite_db_def code_hash)
      (simp add: sample_db_def empty_db_def db_ok_def table_ok_defs auto_key_def)
  have taken: "(\<forall>x \<in> set (users (s_db invite_site)). usr_name x \<noteq> ''ann'') = False" by (simp add: d sample_db_def)
  have "\<not> db_fault plain_lib q" for q by (simp add: plain_lib_def)
  then show ?thesis using register_exact [OF r(1) ok(1), of plain_lib 5 6] ok(2)
    unfolding r(2,3) taken simp_thms if_False by blast
qed

section \<open>Own sessions\<close>

text \<open>
  C24: the sessions page is confined to its user. Whatever a logged-in user sends, no session of another user
  is removed or changed, and the sessions it lists are the user's own.
\<close>

theorem own_sessions_only:
  assumes "sessionFromRequest L now r s = Inr sess" "handle_user_sessions L now r s = (Respond rs, s')"
  shows "filter (\<lambda>x. ses_user x \<noteq> sn_user sess) (sessions (s_db s')) = filter (\<lambda>x. ses_user x \<noteq> sn_user sess) (sessions (s_db s)) \<and>
    set (sessions (s_db s')) \<subseteq> set (sessions (s_db s)) \<and>
    (case rs_body rs of OwnSessions xs i \<Rightarrow> \<forall>x \<in> set xs. si_user x = sn_user sess | _ \<Rightarrow> True)"
proof -
  have list: "GetUserSessions L now (s_db s) (sn_user sess) = Inr xs \<Longrightarrow> x \<in> set xs \<Longrightarrow> si_user x = sn_user sess" for xs x
    by (auto simp: GetUserSessions_def info_of_def split: if_splits)
  have kept: "filter (\<lambda>x. ses_user x \<noteq> sn_user sess) (delete_where (\<lambda>x. ses_id x = i \<and> ses_user x = sn_user sess) ss) =
      filter (\<lambda>x. ses_user x \<noteq> sn_user sess) ss" for i ss
    unfolding delete_where_def by (induction ss) auto
  consider (same) "s' = s" "\<And>xs i. rs_body rs = OwnSessions xs i \<Longrightarrow> GetUserSessions L now (s_db s) (sn_user sess) = Inr xs"
    | (del) i where "s' = set_db (fst (DeleteSessionByID L (s_db s) i (sn_user sess))) s" "\<And>xs j. rs_body rs \<noteq> OwnSessions xs j"
    using assms
    by (auto simp: handle_user_sessions_def respond_defs split: if_splits sum.splits option.splits prod.splits)
      (metis fst_conv)+
  then show ?thesis
  proof cases
    case same
    then show ?thesis using list by (auto split: payload.split)
  next
    case (del i)
    then show ?thesis
      using kept
      by (auto simp: DeleteSessionByID_def sql_simps split: payload.split)
  qed
qed

text \<open>Ann is logged in with the token \<^verbatim>\<open>ab\<close> and asks for the removal of Bob's session, number 4.\<close>

definition ann_site :: site where
  "ann_site = set_db (sample_db\<lparr>sessions :=
     [\<lparr>ses_id = 3, ses_hash = ''6162'', ses_user = 1, ses_ip = TextCell ''lan'', ses_exp = 100, ses_created = 0\<rparr>,
      \<lparr>ses_id = 4, ses_hash = ''h4'', ses_user = 2, ses_ip = TextCell ''lan'', ses_exp = 200, ses_created = 0\<rparr>]\<rparr>) demo_site"

definition bob_removal :: request where
  "bob_removal = (get_request ''a.b'' ''/api/user/sessions'' ''10.0.0.9:5'')\<lparr>rq_method := ''DELETE'', rq_cookie := Some ''ab'',
     rq_query := (\<lambda>_. ''4'')\<rparr>"

lemma ann_session:
  "sessionFromRequest plain_lib 5 bob_removal ann_site = Inr \<lparr>sn_id = 3, sn_user = 1, sn_name = ''ann'', sn_exp = 100, sn_created = 0\<rparr>"
  by (simp add: sessionFromRequest_def bob_removal_def get_request_def ann_site_def ValidateSession_def code_hash
      session_users_def sample_db_def empty_db_def session_of_def)

theorem own_sessions_only_witness:
  "filter (\<lambda>x. ses_user x \<noteq> 1) (sessions (s_db (snd (handle_user_sessions plain_lib 5 bob_removal ann_site)))) =
   filter (\<lambda>x. ses_user x \<noteq> 1) (sessions (s_db ann_site))"
proof -
  have "\<exists>rs s'. handle_user_sessions plain_lib 5 bob_removal ann_site = (Respond rs, s')"
    by (simp add: handle_user_sessions_def respond_defs ann_session split: sum.split option.split prod.split)
  then obtain rs s' where "handle_user_sessions plain_lib 5 bob_removal ann_site = (Respond rs, s')" by blast
  with own_sessions_only [OF ann_session this] show ?thesis by simp
qed

end
