(* ===== verification/ApiAdmin.thy ===== *)
theory ApiAdmin
  imports ApiCore
begin

text \<open>
  The admin endpoints of api/auth.go, api/throttle.go and api/metrics.go, except the routes endpoint.
  Every one starts with \<open>requireAdmin\<close>; what follows it is a definition of its own. The callbacks that
  main.go wires into package api are set when \<open>s_wired\<close> is.
\<close>

definition as_admin ::
  "lib \<Rightarrow> time \<Rightarrow> (request \<Rightarrow> site \<Rightarrow> outcome \<times> site) \<Rightarrow> request \<Rightarrow> site \<Rightarrow> outcome \<times> site" where
  "as_admin L now h r s = (case requireAdmin L now r s of Inl rs \<Rightarrow> respond rs s | Inr sess \<Rightarrow> h r s)"

text \<open>\<^verbatim>\<open>if OnRouteUpdate != nil { OnRouteUpdate() }\<close>\<close>

definition on_route_update :: "lib \<Rightarrow> time \<Rightarrow> site \<Rightarrow> site" where
  "on_route_update L now s = (if s_wired s then s\<lparr>s_world := RefreshCache L now (s_world s)\<rparr> else s)"

definition bad_id :: "site \<Rightarrow> outcome \<times> site" where
  "bad_id s = respond (fail StatusBadRequest ''invalid id'') s"

definition users_page :: "lib \<Rightarrow> request \<Rightarrow> site \<Rightarrow> outcome \<times> site" where
  "users_page L r s =
     (if rq_method r = ''GET'' then
        (case GetAllUsers L (s_db s) of
           Inl e \<Rightarrow> db_error s
         | Inr us \<Rightarrow> respond (ok (UserList (map (\<lambda>u. (u, groups_or_nil L (s_db s) (user_id u))) us))) s)
      else if rq_method r = ''DELETE'' then
        (case atoi (rq_query r ''id'') of
           None \<Rightarrow> bad_id s
         | Some i \<Rightarrow>
             (case DeleteUser L (s_db s) i of
                (d', Inl e) \<Rightarrow> respond (fail StatusNotFound ''user not found'') (set_db d' s)
              | (d', Inr u) \<Rightarrow> respond (ok OkTrue) (set_db d' s)))
      else not_allowed s)"

definition user_groups_page :: "lib \<Rightarrow> request \<Rightarrow> site \<Rightarrow> outcome \<times> site" where
  "user_groups_page L r s =
     (if rq_method r = ''POST'' then
        (if \<not> bd_ok (rq_body r) then respond (fail StatusBadRequest ''invalid request'') s
         else case AddUserToGroup L (s_db s) (bd_int (rq_body r) ''user_id'') (bd_int (rq_body r) ''group_id'') of
             (d', Inl e) \<Rightarrow> db_error (set_db d' s)
           | (d', Inr u) \<Rightarrow> respond (ok OkTrue) (set_db d' s))
      else if rq_method r = ''DELETE'' then
        (case (atoi (rq_query r ''user_id''), atoi (rq_query r ''group_id'')) of
           (Some uid, Some gid) \<Rightarrow>
             (case RemoveUserFromGroup L (s_db s) uid gid of
                (d', Inl e) \<Rightarrow> db_error (set_db d' s)
              | (d', Inr u) \<Rightarrow> respond (ok OkTrue) (set_db d' s))
         | _ \<Rightarrow> respond (fail StatusBadRequest ''invalid ids'') s)
      else not_allowed s)"

definition groups_page :: "lib \<Rightarrow> time \<Rightarrow> request \<Rightarrow> site \<Rightarrow> outcome \<times> site" where
  "groups_page L now r s =
     (if rq_method r = ''GET'' then
        (case GetAllGroups L (s_db s) of Inl e \<Rightarrow> db_error s | Inr gs \<Rightarrow> respond (ok (GroupList gs)) s)
      else if rq_method r = ''POST'' then
        (if \<not> bd_ok (rq_body r) \<or> bd_str (rq_body r) ''name'' = [] then respond (fail StatusBadRequest ''name required'') s
         else case CreateGroup L now (s_db s) (bd_str (rq_body r) ''name'') (bd_str (rq_body r) ''description'') of
             (d', Inl e) \<Rightarrow> respond (fail StatusConflict ''group name taken'') (set_db d' s)
           | (d', Inr g) \<Rightarrow> respond (ok (NewGroup g)) (set_db d' s))
      else if rq_method r = ''DELETE'' then
        (case atoi (rq_query r ''id'') of
           None \<Rightarrow> bad_id s
         | Some i \<Rightarrow>
             (case DeleteGroup L (s_db s) i of
                (d', Inl e) \<Rightarrow>
                  if e = ErrGroupProtected
                  then respond (fail StatusBadRequest ''cannot delete the admin group'') (set_db d' s)
                  else respond (fail StatusNotFound ''group not found'') (set_db d' s)
              | (d', Inr u) \<Rightarrow> respond (ok OkTrue) (set_db d' s)))
      else not_allowed s)"

definition invites_page :: "lib \<Rightarrow> time \<Rightarrow> 8 word list \<Rightarrow> request \<Rightarrow> site \<Rightarrow> outcome \<times> site" where
  "invites_page L now rnd r s =
     (if rq_method r = ''GET'' then
        (case GetAllInvites L (s_db s) of Inl e \<Rightarrow> db_error s | Inr ivs \<Rightarrow> respond (ok (InviteList ivs)) s)
      else if rq_method r = ''POST'' then
        (let h0 = bd_int (rq_body r) ''hours''; h = (if h0 \<le> 0 then 24 else h0)
         in case CreateInvite L now rnd (s_db s) (bd_str (rq_body r) ''description'') (dur_mul h Hour) of
              (d', Inl e) \<Rightarrow> db_error (set_db d' s)
            | (d', Inr (code, iv)) \<Rightarrow> respond (ok (NewInvite iv code)) (set_db d' s))
      else if rq_method r = ''DELETE'' then
        (case atoi (rq_query r ''id'') of
           None \<Rightarrow> bad_id s
         | Some i \<Rightarrow>
             (case DeleteInvite L (s_db s) i of
                (d', Inl e) \<Rightarrow> respond (fail StatusNotFound ''invite not found'') (set_db d' s)
              | (d', Inr u) \<Rightarrow> respond (ok OkTrue) (set_db d' s)))
      else not_allowed s)"

definition settings_page :: "lib \<Rightarrow> time \<Rightarrow> request \<Rightarrow> site \<Rightarrow> outcome \<times> site" where
  "settings_page L now r s =
     (if rq_method r = ''GET'' then respond (ok (SettingsAre (GetSettings L (s_db s)))) s
      else if rq_method r = ''PUT'' then
        (if \<not> bd_ok (rq_body r) then respond (fail StatusBadRequest ''invalid request'') s
         else case UpdateSettings L (s_db s) (bd_int (rq_body r) ''session_duration_hours'')
                     (bd_bool (rq_body r) ''renew_on_access'') of
             (d', Inl e) \<Rightarrow> db_error (set_db d' s)
           | (d', Inr u) \<Rightarrow> respond (ok OkTrue) (on_route_update L now (set_db d' s)))
      else not_allowed s)"

section \<open>Throttling\<close>

definition body_policy :: "body \<Rightarrow> throttle_policy" where
  "body_policy b = \<lparr>tp_tier = bd_str b ''tier'', tp_enabled = bd_bool b ''enabled'', tp_rate = bd_num b ''rate_per_sec'',
     tp_burst = bd_int b ''burst'', tp_ban_enabled = bd_bool b ''ban_enabled'',
     tp_ban_threshold = bd_int b ''ban_threshold'', tp_ban_window = bd_int b ''ban_window_sec'',
     tp_ban_duration = bd_int b ''ban_duration_sec''\<rparr>"

definition err_text :: "err \<Rightarrow> string" where
  \<comment> \<open>\<^verbatim>\<open>err.Error()\<close>; the text of a driver's error is given by its statement\<close>
  "err_text e = (case e of Msg m \<Rightarrow> m | DbErr q \<Rightarrow> q | Constraint q \<Rightarrow> q | NoRows q \<Rightarrow> q
     | ErrGroupProtected \<Rightarrow> ''cannot delete protected group'')"

definition with_limiter :: "(limiter \<times> db \<Rightarrow> limiter \<times> db) \<Rightarrow> site \<Rightarrow> site" where
  "with_limiter f s = (let w = s_world s; (lm, d) = f (thr w, dbase w) in s\<lparr>s_world := w\<lparr>thr := lm, dbase := d\<rparr>\<rparr>)"

definition throttle_page :: "lib \<Rightarrow> time \<Rightarrow> request \<Rightarrow> site \<Rightarrow> outcome \<times> site" where
  "throttle_page L now r s =
     (if rq_method r = ''GET'' then
        (case GetThrottlePolicies L (s_db s) of
           Inl e \<Rightarrow> db_error s
         | Inr ps \<Rightarrow>
             (case ThrottleStore.GetActiveBans L now (s_db s) of
                Inl e \<Rightarrow> db_error s | Inr bs \<Rightarrow> respond (ok (Throttling ps bs)) s))
      else if rq_method r = ''PUT'' then
        (let p = body_policy (rq_body r)
         in if \<not> bd_ok (rq_body r) \<or> trim_space (tp_tier p) = []
              then respond (fail StatusBadRequest ''tier required'') s
            else if tp_tier p \<noteq> TierAnonymous \<and> tp_tier p \<noteq> TierSignedIn \<and> \<not> has_prefix (tp_tier p) ''group:''
              then respond (fail StatusBadRequest ''invalid tier'') s
            else case UpsertThrottlePolicy L (s_db s) p of
                (d', Inl e) \<Rightarrow> db_error (set_db d' s)
              | (d', Inr u) \<Rightarrow> respond (ok OkTrue) (on_route_update L now (set_db d' s)))
      else if rq_method r = ''POST'' then
        (let b = rq_body r; ip = trim_space (bd_str b ''ip'')
         in if \<not> bd_ok b \<or> ip = [] then respond (fail StatusBadRequest ''ip required'') s
            else if \<not> s_wired s then respond (fail StatusInternalServerError ''ban unavailable'') s
            else respond (ok OkTrue)
                   (with_limiter (BanIP L (authStore (s_world s)) now ip (bd_int b ''duration_sec'')) s))
      else if rq_method r = ''DELETE'' then
        (let ip = rq_query r ''ip''; tier = rq_query r ''tier''
         in if ip \<noteq> [] then respond (ok OkTrue)
                (if s_wired s then with_limiter (UnbanIP L (authStore (s_world s)) ip) s else s)
            else if tier \<noteq> [] then
              (case DeleteThrottlePolicy L (s_db s) tier of
                 (d', Inl e) \<Rightarrow> respond (fail StatusBadRequest (err_text e)) (set_db d' s)
               | (d', Inr u) \<Rightarrow> respond (ok OkTrue) (on_route_update L now (set_db d' s)))
            else respond (fail StatusBadRequest ''ip or tier required'') s)
      else not_allowed s)"

section \<open>Metrics\<close>

definition metrics_page :: "lib \<Rightarrow> time \<Rightarrow> request \<Rightarrow> site \<Rightarrow> outcome \<times> site" where
  "metrics_page L now r s =
     (if rq_method r = ''GET'' then
        (let d = s_db s; w = s_world s; on = s_wired s
         in case GetActiveSessions L now d of
              Inl e \<Rightarrow> db_error s
            | Inr ss \<Rightarrow>
                (case GetRecentAuthFailures L d 100 of
                   Inl e \<Rightarrow> db_error s
                 | Inr fs \<Rightarrow>
                     (case GetRecentAccess L d 2000 of
                        Inl e \<Rightarrow> db_error s
                      | Inr acs \<Rightarrow> respond (ok (MetricsAre
                          \<lparr>mv_sessions = ss, mv_route_stats = (if on then GetRouteStats (met w) else (\<lambda>_. None)),
                           mv_failures = fs, mv_access = acs,
                           mv_event_stats = (if on then GetEventStats (met w) else (\<lambda>_. None)),
                           mv_recent = (if on then GetRecentEvents (met w) else []),
                           mv_bans = (if on then Limiter.GetActiveBans L (authStore w) now d else [])\<rparr>)) s)))
      else if rq_method r = ''DELETE'' then
        (case atoi (rq_query r ''id'') of
           None \<Rightarrow> bad_id s
         | Some i \<Rightarrow>
             (case AdminDeleteSession L (s_db s) i of
                (d', Inl e) \<Rightarrow> db_error (set_db d' s)
              | (d', Inr u) \<Rightarrow> respond (ok OkTrue) (set_db d' s)))
      else not_allowed s)"

end
