(* ===== verification/ApiRoutes.thy ===== *)
theory ApiRoutes
  imports ApiAdmin
begin

text \<open>
  The routes endpoint of api/auth.go: creating single routes and port ranges, editing access and targets,
  deleting. Ports are Go ints, so the loops over a range are written over 64-bit values with \<open>wrap64\<close>
  and may not end; \<open>None\<close> stands for that.
\<close>

section \<open>The callbacks into the live proxy\<close>

definition on_validate :: "string \<Rightarrow> string \<Rightarrow> site \<Rightarrow> err + unit" where
  "on_validate url routeType s = (if s_wired s then ValidateRoute (s_proxy s) url routeType else Inr ())"

definition ui_proxy_route :: "string \<Rightarrow> string \<Rightarrow> string \<Rightarrow> bool \<Rightarrow> string \<Rightarrow> string \<Rightarrow> ProxyRoute" where
  \<comment> \<open>main.go's \<^verbatim>\<open>OnRouteRegister\<close>: \<^verbatim>\<open>InjectAPI\<close> stays false\<close>
  "ui_proxy_route url target routeType tls cert key =
     \<lparr>pr_url = url, pr_target = target, pr_type = routeType, pr_tls = tls, pr_cert = cert, pr_key = key, pr_inject = False\<rparr>"

definition on_register :: "lib \<Rightarrow> ProxyRoute \<Rightarrow> site \<Rightarrow> site \<times> (err + unit)" where
  "on_register L pr s =
     (if s_wired s then (let (px, res) = RegisterRoute L (s_registry s) pr (s_proxy s) in (s\<lparr>s_proxy := px\<rparr>, res))
      else (s, Inr ()))"

definition on_delete :: "string \<Rightarrow> site \<Rightarrow> site" where
  "on_delete url s = (if s_wired s then s\<lparr>s_proxy := UnregisterRoute url (s_proxy s)\<rparr> else s)"

section \<open>Port ranges\<close>

definition splitHostPortNum :: "string \<Rightarrow> (string \<times> int) option" where
  "splitHostPortNum hostPort =
     (case split_host_port hostPort of
        None \<Rightarrow> None
      | Some (h, p) \<Rightarrow> (case atoi p of None \<Rightarrow> None | Some n \<Rightarrow> Some (h, n)))"

definition maxPortRange :: int where "maxPortRange = 256"

text \<open>\<^verbatim>\<open>for p := startPort; p <= endPort; p++\<close>, twice: validating, then creating.\<close>

partial_function (option) validate_range :: "(int \<Rightarrow> err + unit) \<Rightarrow> int \<Rightarrow> int \<Rightarrow> (err + unit) option" where
  "validate_range check p e =
     (if e < p then Some (Inr ())
      else case check p of Inl er \<Rightarrow> Some (Inl er) | Inr u \<Rightarrow> validate_range check (wrap64 (p + 1)) e)"

record range_args =
  ra_type :: string
  ra_host :: string
  ra_start :: int
  ra_end :: int
  ra_target :: string
  ra_offset :: bool
  ra_tls :: bool
  ra_cert :: string
  ra_key :: string

definition range_url :: "range_args \<Rightarrow> int \<Rightarrow> string" where
  "range_url a p = join_host_port (ra_host a) (itoa p)"

text \<open>\<open>base\<close> is the split offset target, present when \<open>offset\<close> is set.\<close>

definition range_target :: "range_args \<Rightarrow> (string \<times> int) option \<Rightarrow> int \<Rightarrow> string" where
  "range_target a base p =
     (case base of
        None \<Rightarrow> ra_target a
      | Some (h, n) \<Rightarrow> join_host_port h (itoa (wrap64 (n + wrap64 (p - ra_start a)))))"

definition range_route :: "range_args \<Rightarrow> (string \<times> int) option \<Rightarrow> int \<Rightarrow> ProxyRoute" where
  "range_route a base p =
     ui_proxy_route (range_url a p) (range_target a base p) (ra_type a) (ra_tls a) (ra_cert a) (ra_key a)"

text \<open>
  One port: the row and, when it could be created, its registration; \<open>Inl\<close> when the row failed. The INSERT of
  each port is a statement of its own, which a cancelled request context fails from some port on.
\<close>

definition port_lib :: "int \<Rightarrow> lib \<Rightarrow> lib" where
  "port_lib p L = in_call (''port '' @ itoa p) L"

definition create_port ::
  "lib \<Rightarrow> time \<Rightarrow> range_args \<Rightarrow> (string \<times> int) option \<Rightarrow> string \<Rightarrow> int \<Rightarrow> string \<times> site \<Rightarrow> site + string \<times> site" where
  "create_port L now a base rg p = (\<lambda>(regErr, s).
     (case CreateRoute (port_lib p L) now (s_db s) (range_url a p) (range_target a base p) (ra_type a) (ra_tls a) (ra_cert a) (ra_key a) rg of
        (d', Inl e) \<Rightarrow> Inl (set_db d' s)
      | (d', Inr row) \<Rightarrow>
          (case on_register L (range_route a base p) (set_db d' s) of
             (s', Inl e) \<Rightarrow> Inr (err_text e, s')
           | (s', Inr u) \<Rightarrow> Inr (regErr, s'))))"

text \<open>Deletes what the range created so far, in the table and in the live proxy.\<close>

definition rollback_range :: "lib \<Rightarrow> string \<Rightarrow> site \<Rightarrow> site" where
  "rollback_range L rg s =
     (case DeleteRouteGroup L (s_db s) rg of
        (d', Inl e) \<Rightarrow> set_db d' s
      | (d', Inr urls) \<Rightarrow> fold on_delete urls (set_db d' s))"

text \<open>\<open>Inl (p, s)\<close>: the row of port \<open>p\<close> failed in state \<open>s\<close>, before the rollback.\<close>

partial_function (option) create_range ::
  "lib \<Rightarrow> time \<Rightarrow> range_args \<Rightarrow> (string \<times> int) option \<Rightarrow> string \<Rightarrow> int \<Rightarrow> string \<times> site \<Rightarrow>
   ((int \<times> site) + string \<times> site) option" where
  "create_range L now a base rg p st =
     (if ra_end a < p then Some (Inr st)
      else case create_port L now a base rg p st of
          Inl s \<Rightarrow> Some (Inl (p, s))
        | Inr st' \<Rightarrow> create_range L now a base rg (wrap64 (p + 1)) st')"

declare validate_range.simps [code] create_range.simps [code]

definition createRouteRange ::
  "lib \<Rightarrow> time \<Rightarrow> 8 word list \<Rightarrow> range_args \<Rightarrow> site \<Rightarrow> outcome \<times> site" where
  "createRouteRange L now rnd a s =
     (let span = wrap64 (wrap64 (ra_end a - ra_start a) + 1);
          base = (if ra_offset a then splitHostPortNum (ra_target a) else None)
      in if maxPortRange < span then respond (fail StatusBadRequest ''port range too large (max 256 ports)'') s
         else if ra_offset a \<and> base = None then respond (fail StatusBadRequest ''offset target must be host:port'') s
         else case (if s_wired s then validate_range (\<lambda>p. on_validate (range_url a p) (ra_type a) s) (ra_start a) (ra_end a)
                    else Some (Inr ())) of
             None \<Rightarrow> (NeverReturns, s)
           | Some (Inl e) \<Rightarrow> respond (fail StatusBadRequest (err_text e)) s
           | Some (Inr u) \<Rightarrow>
               let rg = NewRangeGroupID rnd
               in case create_range L now a base rg (ra_start a) ([], s) of
                    None \<Rightarrow> (NeverReturns, s)
                  | Some (Inl (p, s')) \<Rightarrow>
                      respond (fail StatusConflict (''port '' @ itoa p @ '' already in use'')) (rollback_range L rg s')
                  | Some (Inr (regErr, s')) \<Rightarrow>
                      respond (ok (NewRange rg span regErr)) (on_route_update L now s'))"

section \<open>The handler\<close>

definition body_access :: "body \<Rightarrow> access" where
  "body_access b = \<lparr>ac_groups = bd_str b ''allowed_groups'', ac_ips = bd_str b ''allowed_ips'',
     ac_ip_auth = bd_bool b ''ip_auth'', ac_persistent = bd_bool b ''persistent_login'',
     ac_require_login = bd_bool b ''require_login''\<rparr>"

text \<open>Groups on a raw route imply IP auth.\<close>

definition imply_ip_auth :: "(err + route) \<Rightarrow> access \<Rightarrow> access" where
  "imply_ip_auth found a =
     (if ac_groups a = [] then a
      else case found of Inl e \<Rightarrow> a | Inr rt \<Rightarrow> if isRawType (rt_type rt) then a\<lparr>ac_ip_auth := True\<rparr> else a)"

definition routes_post :: "lib \<Rightarrow> time \<Rightarrow> 8 word list \<Rightarrow> request \<Rightarrow> site \<Rightarrow> outcome \<times> site" where
  "routes_post L now rnd r s =
     (let b = rq_body r; url = bd_str b ''url''; target = bd_str b ''target'';
          ty = (if bd_str b ''type'' = [] then ''proxy'' else bd_str b ''type'');
          tls = (if isRawType ty then False else bd_bool b ''tls'');
          (cert, key) = (if tls then (s_cert s, s_key s) else ([], []))
      in if \<not> bd_ok b \<or> url = [] \<or> target = [] then respond (fail StatusBadRequest ''url and target required'') s
         else case splitHostPortNum url of
             None \<Rightarrow> respond (fail StatusBadRequest ''invalid url: expected host:port'') s
           | Some (host, startPort) \<Rightarrow>
               if startPort < bd_int b ''range_end''
               then createRouteRange L now rnd \<lparr>ra_type = ty, ra_host = host, ra_start = startPort,
                      ra_end = bd_int b ''range_end'', ra_target = target, ra_offset = bd_bool b ''offset'',
                      ra_tls = tls, ra_cert = cert, ra_key = key\<rparr> s
               else case on_validate url ty s of
                   Inl e \<Rightarrow> respond (fail StatusBadRequest (err_text e)) s
                 | Inr u \<Rightarrow>
                     (case CreateRoute L now (s_db s) url target ty tls cert key [] of
                        (d', Inl e) \<Rightarrow> respond (fail StatusConflict ''url already in use'') (set_db d' s)
                      | (d', Inr row) \<Rightarrow>
                          (let (s1, res) = on_register L (ui_proxy_route url target ty tls cert key) (set_db d' s)
                           in respond (ok (NewRoute row (case res of Inl e \<Rightarrow> err_text e | Inr u \<Rightarrow> [])))
                                (on_route_update L now s1))))"

text \<open>The new target of a UI route goes to the table and then, unvalidated, to the live proxy.\<close>

definition retarget :: "lib \<Rightarrow> time \<Rightarrow> int \<Rightarrow> string \<Rightarrow> site \<Rightarrow> site" where
  "retarget L now i target s =
     (if target = [] \<or> \<not> s_wired s then s
      else case GetRouteByID L (s_db s) i of
          Inl e \<Rightarrow> s
        | Inr rt \<Rightarrow>
            if rt_source rt \<noteq> ''ui'' then s
            else case UpdateRouteEndpoint L now (s_db s) i target of
                (d', Inl e) \<Rightarrow> set_db d' s
              | (d', Inr u) \<Rightarrow>
                  fst (on_register L (ui_proxy_route (rt_url rt) target (rt_type rt) (rt_tls rt) (rt_cert rt) (rt_key rt))
                    (set_db d' s)))"

definition routes_put :: "lib \<Rightarrow> time \<Rightarrow> request \<Rightarrow> site \<Rightarrow> outcome \<times> site" where
  "routes_put L now r s =
     (let b = rq_body r; group = rq_query r ''group''
      in if group \<noteq> [] then
           (if \<not> bd_ok b then respond (fail StatusBadRequest ''invalid request'') s
            else case UpdateRouteAccessByGroup L now (s_db s) group
                        (imply_ip_auth (GetRouteByGroup L (s_db s) group) (body_access b)) of
                (d', Inl e) \<Rightarrow> respond (fail StatusNotFound ''range group not found'') (set_db d' s)
              | (d', Inr n) \<Rightarrow> respond (ok OkTrue) (on_route_update L now (set_db d' s)))
         else case atoi (rq_query r ''id'') of
             None \<Rightarrow> bad_id s
           | Some i \<Rightarrow>
               if \<not> bd_ok b then respond (fail StatusBadRequest ''invalid request'') s
               else case UpdateRouteAccess L now (s_db s) i
                           (imply_ip_auth (GetRouteByID L (s_db s) i) (body_access b)) of
                   (d', Inl e) \<Rightarrow> respond (fail StatusNotFound ''route not found'') (set_db d' s)
                 | (d', Inr u) \<Rightarrow>
                     respond (ok OkTrue)
                       (on_route_update L now (retarget L now i (bd_str b ''target'') (set_db d' s))))"

definition routes_delete :: "lib \<Rightarrow> time \<Rightarrow> request \<Rightarrow> site \<Rightarrow> outcome \<times> site" where
  "routes_delete L now r s =
     (let group = rq_query r ''group''
      in if group \<noteq> [] then
           (case DeleteRouteGroup L (s_db s) group of
              (d', Inl e) \<Rightarrow> respond (fail StatusBadRequest ''range group not found'') (set_db d' s)
            | (d', Inr urls) \<Rightarrow> respond (ok OkTrue) (on_route_update L now (fold on_delete urls (set_db d' s))))
         else case atoi (rq_query r ''id'') of
             None \<Rightarrow> bad_id s
           | Some i \<Rightarrow>
               (case DeleteRoute L (s_db s) i of
                  (d', Inl e) \<Rightarrow>
                    respond (fail StatusBadRequest ''route not found or config routes cannot be deleted'') (set_db d' s)
                | (d', Inr url) \<Rightarrow> respond (ok OkTrue) (on_route_update L now (on_delete url (set_db d' s)))))"

definition routes_page :: "lib \<Rightarrow> time \<Rightarrow> 8 word list \<Rightarrow> request \<Rightarrow> site \<Rightarrow> outcome \<times> site" where
  "routes_page L now rnd r s =
     (if rq_method r = ''GET'' then
        (case GetAllRoutes L (s_db s) of Inl e \<Rightarrow> db_error s | Inr rts \<Rightarrow> respond (ok (RouteList rts)) s)
      else if rq_method r = ''POST'' then routes_post L now rnd r s
      else if rq_method r = ''PUT'' then routes_put L now r s
      else if rq_method r = ''DELETE'' then routes_delete L now r s
      else not_allowed s)"


section \<open>Port ranges are created whole or not at all\<close>

lemma refresh_dbase [simp]: "dbase (RefreshCache L now w) = dbase w"
  by (simp add: RefreshCache_def refreshCache_def split: sum.split)

lemma callbacks_db [simp]:
  "s_db (fst (on_register L pr s)) = s_db s" "s_db (on_delete url s) = s_db s" "s_db (on_route_update L now s) = s_db s"
  by (simp_all add: on_register_def on_delete_def on_route_update_def split: prod.split)

lemma fold_on_delete_db [simp]: "s_db (fold on_delete urls s) = s_db s"
  by (induction urls arbitrary: s) simp_all

lemma validate_range_returns:
  assumes "int64 p" "e < 2 ^ 63 - 1"
  shows "validate_range check p e \<noteq> None"
  using assms(1)
proof (induction "nat (e + 1 - p)" arbitrary: p)
  case 0
  then show ?case by (simp add: validate_range.simps)
next
  case (Suc n)
  then have "p \<le> e" by linarith
  with Suc.prems assms(2) have next_port: "int64 (p + 1)" by (simp add: int64_def)
  have "n = nat (e + 1 - (p + 1))" using Suc.hyps(2) by linarith
  from Suc.hyps(1) [OF this next_port] next_port show ?case
    by (subst validate_range.simps) (simp split: sum.split)
qed

text \<open>With the largest int as its end the loop over valid ports has no last port.\<close>

lemma validate_range_ends:
  assumes "validate_range check p e = Some res"
  shows "(\<forall>q. int64 q \<longrightarrow> check q = Inr ()) \<longrightarrow> int64 p \<longrightarrow> e \<noteq> 2 ^ 63 - 1"
  using assms
proof (rule validate_range.raw_induct [rotated])
  fix vr :: "(int \<Rightarrow> err + unit) \<Rightarrow> int \<Rightarrow> int \<Rightarrow> (err + unit) option" and check p e res
  assume IH: "\<And>check p e res. vr check p e = Some res \<Longrightarrow>
      (\<forall>q. int64 q \<longrightarrow> check q = Inr ()) \<longrightarrow> int64 p \<longrightarrow> e \<noteq> 2 ^ 63 - 1"
    and step: "(if e < p then Some (Inr ())
      else case check p of Inl er \<Rightarrow> Some (Inl er) | Inr u \<Rightarrow> vr check (wrap64 (p + 1)) e) = Some res"
  show "(\<forall>q. int64 q \<longrightarrow> check q = Inr ()) \<longrightarrow> int64 p \<longrightarrow> e \<noteq> 2 ^ 63 - 1"
  proof (intro impI)
    assume ok: "\<forall>q. int64 q \<longrightarrow> check q = Inr ()" and p: "int64 p"
    show "e \<noteq> 2 ^ 63 - 1"
    proof (cases "e < p")
      case True
      with p show ?thesis by (simp add: int64_def)
    next
      case False
      with step ok p have "vr check (wrap64 (p + 1)) e = Some res" by simp
      from IH [OF this] ok show ?thesis using int64_wrap64 [of "p + 1"] by blast
    qed
  qed
qed

lemma validate_range_endless:
  assumes "\<And>q. int64 q \<Longrightarrow> check q = Inr ()" "int64 p"
  shows "validate_range check p (2 ^ 63 - 1) = None"
  using validate_range_ends [of check p "2 ^ 63 - 1"] assms by (cases "validate_range check p (2 ^ 63 - 1)") auto

definition fresh_rows :: "string \<Rightarrow> route list \<Rightarrow> bool" where
  "fresh_rows rg rows \<longleftrightarrow> (\<forall>r \<in> set rows. rt_range r = rg \<and> rt_source r = ''ui'')"

lemma create_port_cases:
  assumes "create_port L now a base rg p (er, s) = res"
  shows "case res of Inl s' \<Rightarrow> routes (s_db s') = routes (s_db s)
    | Inr (er', s') \<Rightarrow> (\<exists>row. routes (s_db s') = routes (s_db s) @ [row] \<and> rt_url row = range_url a p \<and>
        fresh_rows rg [row])"
proof (cases "snd (CreateRoute (port_lib p L) now (s_db s) (range_url a p) (range_target a base p) (ra_type a) (ra_tls a) (ra_cert a) (ra_key a) rg)")
  case (Inl e)
  then have "fst (CreateRoute (port_lib p L) now (s_db s) (range_url a p) (range_target a base p) (ra_type a) (ra_tls a) (ra_cert a) (ra_key a) rg) = s_db s"
    by (auto simp: CreateRoute_def Let_def split: if_splits)
  with Inl assms show ?thesis by (auto simp: create_port_def split: prod.splits)
next
  case (Inr row)
  define d' where "d' = fst (CreateRoute (port_lib p L) now (s_db s) (range_url a p) (range_target a base p) (ra_type a) (ra_tls a) (ra_cert a) (ra_key a) rg)"
  have c: "CreateRoute (port_lib p L) now (s_db s) (range_url a p) (range_target a base p) (ra_type a) (ra_tls a) (ra_cert a) (ra_key a) rg = (d', Inr row)"
    using Inr by (simp add: d'_def prod_eq_iff)
  have row: "routes d' = routes (s_db s) @ [row]" "rt_url row = range_url a p" "fresh_rows rg [row]"
    using c by (auto simp: CreateRoute_def Let_def fresh_rows_def new_route_def split: if_splits)
  obtain s' r where reg: "on_register L (range_route a base p) (set_db d' s) = (s', r)" by force
  have "s_db s' = d'" using callbacks_db(1) [of L "range_route a base p" "set_db d' s"] reg by simp
  with row show ?thesis using assms by (cases r) (auto simp: create_port_def c reg)
qed

lemma create_range_spec:
  assumes "int64 p" "ra_end a < 2 ^ 63 - 1"
  shows "\<exists>res rows. create_range L now a base rg p (er, s) = Some res \<and> fresh_rows rg rows \<and>
    (case res of Inl (q, s') \<Rightarrow> routes (s_db s') = routes (s_db s) @ rows \<and> p \<le> q \<and> q \<le> ra_end a \<and>
         map rt_url rows = map (range_url a) [p..q - 1]
     | Inr (er', s') \<Rightarrow> routes (s_db s') = routes (s_db s) @ rows \<and> map rt_url rows = map (range_url a) [p..ra_end a])"
  using assms(1)
proof (induction "nat (ra_end a + 1 - p)" arbitrary: p er s)
  case 0
  then show ?case by (intro exI [of _ "Inr (er, s)"] exI [of _ "[]"]) (simp add: create_range.simps fresh_rows_def)
next
  case (Suc n)
  then have "p \<le> ra_end a" by linarith
  with Suc.prems assms(2) have next_port: "int64 (p + 1)" by (simp add: int64_def)
  have n: "n = nat (ra_end a + 1 - (p + 1))" using Suc.hyps(2) by linarith
  have step: "create_range L now a base rg p (er, s) = (case create_port L now a base rg p (er, s) of
      Inl s' \<Rightarrow> Some (Inl (p, s')) | Inr st' \<Rightarrow> create_range L now a base rg (p + 1) st')"
    using \<open>p \<le> ra_end a\<close> next_port by (subst create_range.simps) (simp split: sum.split)
  show ?case
  proof (cases "create_port L now a base rg p (er, s)")
    case (Inl s')
    with create_port_cases [OF this] \<open>p \<le> ra_end a\<close> show ?thesis
      by (intro exI [of _ "Inl (p, s')"] exI [of _ "[]"]) (simp add: step fresh_rows_def)
  next
    case (Inr st)
    obtain er' s' where st: "st = (er', s')" by force
    obtain row where row: "routes (s_db s') = routes (s_db s) @ [row]" "rt_url row = range_url a p" "fresh_rows rg [row]"
      using create_port_cases [OF Inr] st by auto
    obtain res rows where "create_range L now a base rg (p + 1) (er', s') = Some res" "fresh_rows rg rows"
      "case res of Inl (q, s'') \<Rightarrow> routes (s_db s'') = routes (s_db s') @ rows \<and> p + 1 \<le> q \<and> q \<le> ra_end a \<and>
           map rt_url rows = map (range_url a) [p + 1..q - 1]
       | Inr (er'', s'') \<Rightarrow> routes (s_db s'') = routes (s_db s') @ rows \<and> map rt_url rows = map (range_url a) [p + 1..ra_end a]"
      using Suc.hyps(1) [OF n next_port, of er' s'] by blast
    moreover have "[p..e] = p # [p + 1..e]" if "p \<le> e" for e using that by (rule upto_rec1)
    ultimately show ?thesis using row Inr st \<open>p \<le> ra_end a\<close>
      by (intro exI [of _ res] exI [of _ "row # rows"]) (auto simp: step fresh_rows_def split: sum.splits)
  qed
qed

lemma rollback_exact:
  assumes "routes (s_db s') = rs0 @ rows" "fresh_rows rg rows" "\<forall>r \<in> set rs0. rt_range r \<noteq> rg" "rg \<noteq> []"
    and "\<not> db_fault L ''DeleteRouteGroup''"
  shows "routes (s_db (rollback_range L rg s')) = rs0"
proof -
  let ?P = "\<lambda>r. rt_range r = rg \<and> rt_source r = ''ui''"
  have "filter ?P rs0 = []" "filter ?P rows = rows" "delete_where ?P rs0 = rs0" "delete_where ?P rows = []"
    using assms(2,3) by (auto simp: fresh_rows_def delete_where_def filter_id_conv filter_empty_conv)
  with assms(1,4,5) show ?thesis
    by (cases "rows = []") (simp_all add: rollback_range_def DeleteRouteGroup_def Let_def)
qed

lemma rollback_failed: "db_fault L ''DeleteRouteGroup'' \<Longrightarrow> routes (s_db (rollback_range L rg s)) = routes (s_db s)"
  by (simp add: rollback_range_def DeleteRouteGroup_def split: sum.split)

text \<open>
  C25: what a range request leaves in the table. With an end below the largest int it always returns. When it
  answers 200 the table has grown by exactly one row for each port of the range, in order. With any other
  answer, also when the row of a port in the middle failed, the table is as it was, with one exception: the
  error of the rollback's own statement is ignored, so when that statement fails as well (both use the context
  of the request, which a client ends by disconnecting), the answer names the failed port and the rows of
  exactly the ports before it stay.
\<close>

theorem createRouteRange_all_or_nothing:
  assumes "int64 (ra_start a)" "ra_end a < 2 ^ 63 - 1"
    and "NewRangeGroupID rnd \<noteq> []" "\<forall>r \<in> set (routes (s_db s)). rt_range r \<noteq> NewRangeGroupID rnd"
  shows "\<exists>rs s'. createRouteRange L now rnd a s = (Respond rs, s') \<and>
    (if rs_status rs = StatusOK
     then \<exists>rows. routes (s_db s') = routes (s_db s) @ rows \<and> map rt_url rows = map (range_url a) [ra_start a..ra_end a]
     else if rs_status rs = StatusConflict \<and> db_fault L ''DeleteRouteGroup''
     then \<exists>p rows. ra_start a \<le> p \<and> p \<le> ra_end a \<and> rs = fail StatusConflict (''port '' @ itoa p @ '' already in use'') \<and>
       routes (s_db s') = routes (s_db s) @ rows \<and> map rt_url rows = map (range_url a) [ra_start a..p - 1]
     else routes (s_db s') = routes (s_db s))"
proof -
  let ?rg = "NewRangeGroupID rnd"
  define span where "span = wrap64 (wrap64 (ra_end a - ra_start a) + 1)"
  define base where "base = (if ra_offset a then splitHostPortNum (ra_target a) else None)"
  define v where "v = (if s_wired s then validate_range (\<lambda>p. on_validate (range_url a p) (ra_type a) s) (ra_start a) (ra_end a)
                    else Some (Inr ()))"
  have unf: "createRouteRange L now rnd a s =
     (if maxPortRange < span then respond (fail StatusBadRequest ''port range too large (max 256 ports)'') s
      else if ra_offset a \<and> base = None then respond (fail StatusBadRequest ''offset target must be host:port'') s
      else case v of None \<Rightarrow> (NeverReturns, s) | Some (Inl e) \<Rightarrow> respond (fail StatusBadRequest (err_text e)) s
        | Some (Inr u) \<Rightarrow> (case create_range L now a base ?rg (ra_start a) ([], s) of
            None \<Rightarrow> (NeverReturns, s)
          | Some (Inl (p, s')) \<Rightarrow> respond (fail StatusConflict (''port '' @ itoa p @ '' already in use'')) (rollback_range L ?rg s')
          | Some (Inr (regErr, s')) \<Rightarrow> respond (ok (NewRange ?rg span regErr)) (on_route_update L now s')))"
    by (simp only: createRouteRange_def Let_def span_def base_def v_def)
  have "v \<noteq> None" using validate_range_returns [OF assms(1,2)] by (simp add: v_def)
  then obtain v' where v': "v = Some v'" by blast
  obtain res rows where c: "create_range L now a base ?rg (ra_start a) ([], s) = Some res" "fresh_rows ?rg rows"
    "case res of Inl (q, s') \<Rightarrow> routes (s_db s') = routes (s_db s) @ rows \<and> ra_start a \<le> q \<and> q \<le> ra_end a \<and>
         map rt_url rows = map (range_url a) [ra_start a..q - 1]
     | Inr (er', s') \<Rightarrow> routes (s_db s') = routes (s_db s) @ rows \<and> map rt_url rows = map (range_url a) [ra_start a..ra_end a]"
    using create_range_spec [OF assms(1,2), of L now base ?rg "[]" s] by blast
  show ?thesis
  proof (cases "maxPortRange < span \<or> (ra_offset a \<and> base = None) \<or> (\<exists>e. v' = Inl e)")
    case True
    then have "\<exists>m. createRouteRange L now rnd a s = (Respond (fail StatusBadRequest m), s)"
      by (auto simp: unf v' respond_def)
    then obtain m where "createRouteRange L now rnd a s = (Respond (fail StatusBadRequest m), s)" by blast
    then show ?thesis by (intro exI [of _ "fail StatusBadRequest m"] exI [of _ s]) (simp add: status_defs)
  next
    case False
    then have v: "v = Some (Inr ())" by (cases v') (simp_all add: v')
    show ?thesis
    proof (cases res)
      case (Inl x)
      then obtain p s' where x: "res = Inl (p, s')" by (cases x) auto
      have r: "createRouteRange L now rnd a s =
          (Respond (fail StatusConflict (''port '' @ itoa p @ '' already in use'')), rollback_range L ?rg s')"
      proof -
        have "\<not> maxPortRange < span" "\<not> (ra_offset a \<and> base = None)" using False by blast+
        then show ?thesis using v by (simp only: unf c(1) x respond_def if_False option.case sum.case prod.case)
      qed
      show ?thesis
      proof (cases "db_fault L ''DeleteRouteGroup''")
        case True
        from c(3) rollback_failed [OF True, of ?rg s'] show ?thesis
          by (intro exI [of _ "fail StatusConflict (''port '' @ itoa p @ '' already in use'')"]
              exI [of _ "rollback_range L ?rg s'"] conjI r) (auto simp: x True status_defs)
      next
        case False
        from c(3) rollback_exact [OF _ c(2) assms(4,3) False, of s'] show ?thesis
          by (simp add: r x False status_defs)
      qed
    next
      case (Inr x)
      then obtain er' s' where x: "res = Inr (er', s')" by (cases x) auto
      with c(3) False v show ?thesis by (auto simp: unf c(1) respond_def)
    qed
  qed
qed

text \<open>
  C26: the limit of 256 ports does not bound the loops. When the end of the range is the largest int, the
  port counter wraps round before it can exceed the end; with a start close to it, or so low that the span
  overflows to a negative number, the size check passes and, when every port is acceptable, the request
  never returns.
\<close>

theorem createRouteRange_endless:
  assumes "int64 (ra_start a)" "ra_end a = 2 ^ 63 - 1" "wrap64 (wrap64 (ra_end a - ra_start a) + 1) \<le> maxPortRange"
    and "ra_offset a \<longrightarrow> splitHostPortNum (ra_target a) \<noteq> None" "s_wired s"
    and "\<forall>p. int64 p \<longrightarrow> on_validate (range_url a p) (ra_type a) s = Inr ()"
  shows "createRouteRange L now rnd a s = (NeverReturns, s)"
proof -
  have "validate_range (\<lambda>p. on_validate (range_url a p) (ra_type a) s) (ra_start a) (ra_end a) = None"
    using validate_range_endless [of "\<lambda>p. on_validate (range_url a p) (ra_type a) s"] assms by simp
  with assms(3-5) show ?thesis by (auto simp: createRouteRange_def Let_def)
qed

text \<open>A range of three ports over the sample site, and one whose end is the largest int.\<close>

definition demo_range :: "int \<Rightarrow> int \<Rightarrow> range_args" where
  "demo_range lo hi = \<lparr>ra_type = ''proxy'', ra_host = ''h'', ra_start = lo, ra_end = hi, ra_target = ''t:1'', ra_offset = False,
     ra_tls = False, ra_cert = [], ra_key = []\<rparr>"

text \<open>The client of a range disconnects after the second row: the third INSERT fails, and so does the rollback.\<close>

definition gone_lib :: lib where
  "gone_lib = with_faults (\<lambda>q. q = ''port 3/CreateRoute'' \<or> q = ''DeleteRouteGroup'') plain_lib"

definition unwired_site :: site where
  "unwired_site = demo_site\<lparr>s_wired := False\<rparr>"

theorem createRouteRange_all_or_nothing_witness:
  "\<exists>rs s'. createRouteRange gone_lib 5 [171] (demo_range 1 3) unwired_site = (Respond rs, s') \<and>
    rs_status rs = StatusConflict \<and> map rt_url (routes (s_db s')) = map rt_url (routes (s_db unwired_site)) @ [''h:1'', ''h:2'']"
proof -
  let ?out = "createRouteRange gone_lib 5 [171] (demo_range 1 3) unwired_site"
  have "NewRangeGroupID [171] \<noteq> []" by (simp add: NewRangeGroupID_def randHex_def hex_encode_def)
  moreover have "int64 (ra_start (demo_range 1 3))" "ra_end (demo_range 1 3) < 2 ^ 63 - 1"
    by (simp_all add: demo_range_def int64_def)
  moreover have "list_all (\<lambda>r. rt_range r \<noteq> NewRangeGroupID [171]) (routes (s_db unwired_site))" by code_simp
  ultimately obtain rs s' where "?out = (Respond rs, s')"
    using createRouteRange_all_or_nothing [of "demo_range 1 3" "[171]" unwired_site gone_lib 5]
    by (auto simp: list_all_iff)
  moreover have "case fst ?out of Respond rs \<Rightarrow> rs_status rs = StatusConflict | _ \<Rightarrow> False"
    "map rt_url (routes (s_db (snd ?out))) = map rt_url (routes (s_db unwired_site)) @ [''h:1'', ''h:2'']"
    by code_simp+
  ultimately show ?thesis by simp
qed

theorem createRouteRange_endless_witness:
  "fst (createRouteRange plain_lib 5 [171] (demo_range 0 (2 ^ 63 - 1)) (demo_site\<lparr>s_proxy := demo_proxy\<lparr>px_tcp := []\<rparr>\<rparr>)) = NeverReturns"
proof -
  let ?s = "demo_site\<lparr>s_proxy := demo_proxy\<lparr>px_tcp := []\<rparr>\<rparr>" and ?a = "demo_range 0 (2 ^ 63 - 1)"
  have "parseHostPort (range_url ?a p) = Inr (''h'', itoa p)" for p
  proof -
    have "CHR '':'' \<notin> set (itoa p)" using itoa_plain(2) by fastforce
    then show ?thesis using parseHostPort_join [of "itoa p" "''h''"] by (simp add: range_url_def demo_range_def join_host_port_def)
  qed
  then have "\<forall>p. int64 p \<longrightarrow> on_validate (range_url ?a p) (ra_type ?a) ?s = Inr ()"
    by (simp add: on_validate_def ValidateRoute_def demo_site_def demo_range_def isTCP_def isUDP_def isRaw_def Let_def)
  moreover have "int64 (ra_start ?a)" "ra_end ?a = 2 ^ 63 - 1" "wrap64 (wrap64 (ra_end ?a - ra_start ?a) + 1) \<le> maxPortRange"
    "ra_offset ?a \<longrightarrow> splitHostPortNum (ra_target ?a) \<noteq> None" "s_wired ?s"
    by (simp_all add: demo_range_def int64_def wrap64_def maxPortRange_def demo_site_def)
  ultimately show ?thesis using createRouteRange_endless [of ?a ?s plain_lib 5 "[171]"] by simp
qed

end
