(* ===== verification/Dispatch.thy ===== *)
theory Dispatch
  imports ApiRoutes
begin

text \<open>
  proxy/router.go, the serving side of proxy/proxy.go, proxy/reverseProxy.go and proxy/listeners.go: from a
  request to the handler that answers it. A request reaches \<open>serve_route\<close> on whichever listener it came in;
  the listener itself is not consulted.
\<close>

section \<open>API handlers\<close>

fun call_api :: "lib \<Rightarrow> time \<Rightarrow> 8 word list \<Rightarrow> api_handler \<Rightarrow> request \<Rightarrow> site \<Rightarrow> outcome \<times> site" where
  "call_api L now rnd HandleConfig r s = handle_config r s"
| "call_api L now rnd HandleLogin r s = handle_login L now rnd r s"
| "call_api L now rnd HandleLogout r s = handle_logout L r s"
| "call_api L now rnd HandleRegister r s = handle_register L now r s"
| "call_api L now rnd HandleMe r s = handle_me L now r s"
| "call_api L now rnd HandleUserRoutes r s = handle_user_routes L now r s"
| "call_api L now rnd HandleAdminUsers r s = as_admin L now (users_page L) r s"
| "call_api L now rnd HandleAdminUserGroups r s = as_admin L now (user_groups_page L) r s"
| "call_api L now rnd HandleAdminGroups r s = as_admin L now (groups_page L now) r s"
| "call_api L now rnd HandleAdminInvites r s = as_admin L now (invites_page L now rnd) r s"
| "call_api L now rnd HandleAdminRoutes r s = as_admin L now (routes_page L now rnd) r s"
| "call_api L now rnd HandleAdminSettings r s = as_admin L now (settings_page L now) r s"
| "call_api L now rnd HandleAdminMetrics r s = as_admin L now (metrics_page L now) r s"
| "call_api L now rnd HandleAdminThrottle r s = as_admin L now (throttle_page L now) r s"
| "call_api L now rnd HandleUserSessions r s = handle_user_sessions L now r s"
| "call_api L now rnd HandleExtendSession r s = handle_extend L now r s"
| "call_api L now rnd HandleExample r s = handle_example r s"
| "call_api L now rnd HandleHealth r s = handle_health s"

section \<open>Handlers\<close>

text \<open>
  The director. \<^verbatim>\<open>httputil.ReverseProxy\<close> then appends the client address to an \<^verbatim>\<open>X-Forwarded-For\<close> that is
  already present, which is the last step of \<open>forward\<close>.
\<close>

definition director :: "string \<Rightarrow> string \<Rightarrow> request \<Rightarrow> forwarded" where
  "director target targetHost r =
     \<lparr>fw_target = target, fw_host = rq_host r, fw_origin = targetHost, fw_proxy = ''reMazarin'',
      fw_for = (case split_host_port (rq_remote r) of None \<Rightarrow> None | Some (ip, p) \<Rightarrow> Some ip)\<rparr>"

definition forward :: "string \<Rightarrow> string \<Rightarrow> request \<Rightarrow> forwarded" where
  "forward target targetHost r =
     (let f = director target targetHost r
      in case split_host_port (rq_remote r) of
           None \<Rightarrow> f
         | Some (ip, p) \<Rightarrow> f\<lparr>fw_for := Some (case fw_for f of None \<Rightarrow> ip | Some prior \<Rightarrow> prior @ '', '' @ ip)\<rparr>)"

text \<open>
  What the client gets from a backend: \<open>reach\<close> is the transport's result for the outgoing request, the
  backend's answer or an error, for which the proxy's \<^verbatim>\<open>ErrorHandler\<close> answers.
\<close>

definition ErrorHandler :: "err \<Rightarrow> response" where
  "ErrorHandler e = http_error StatusBadGateway ''Bad Gateway''"

definition backend_answer :: "(forwarded \<Rightarrow> err + response) \<Rightarrow> forwarded \<Rightarrow> response" where
  "backend_answer reach f = (case reach f of Inl e \<Rightarrow> ErrorHandler e | Inr rs \<Rightarrow> rs)"

fun serve :: "lib \<Rightarrow> time \<Rightarrow> 8 word list \<Rightarrow> request \<Rightarrow> handler \<Rightarrow> site \<Rightarrow> outcome \<times> site" where
  "serve L now rnd r (FolderHandler dir) s = (ServeDir dir, s)"
| "serve L now rnd r (FileHandler dir f) s = (ServeFile dir f, s)"
| "serve L now rnd r (ApiHandler a) s = call_api L now rnd a r s"
| "serve L now rnd r (BackendHandler t h) s = (Forward (forward t h r), s)"
| "serve L now rnd r (OtelHandler h) s = serve L now rnd r h s"
| "serve L now rnd r (AuthHandler rk h) s =
     (case withAuthForKey L now rk r (s_world s) of
        (Pass, w) \<Rightarrow> serve L now rnd r h (s\<lparr>s_world := w\<rparr>)
      | (Stop rs, w) \<Rightarrow> (Respond rs, s\<lparr>s_world := w\<rparr>)
      | (Panic, w) \<Rightarrow> (Panicked, s\<lparr>s_world := w\<rparr>))"
| "serve L now rnd r (InjectHandler h) s =
     (if has_prefix (rq_path r) ''/api/'' then
        (case Get (s_registry s) (trim_prefix (rq_path r) ''/api/'') of
           Inr a \<Rightarrow> call_api L now rnd a r s
         | Inl e \<Rightarrow> serve L now rnd r h s)
      else serve L now rnd r h s)"

section \<open>The router\<close>

definition route_key :: "request \<Rightarrow> string \<times> string" where
  "route_key r =
     (case split_host_port (rq_host r) of
        None \<Rightarrow> (to_lower (to_lower (rq_host r)), if rq_tls r then ''443'' else ''80'')
      | Some (h, p) \<Rightarrow> (to_lower h, p))"

definition serve_route :: "lib \<Rightarrow> time \<Rightarrow> 8 word list \<Rightarrow> request \<Rightarrow> site \<Rightarrow> outcome \<times> site" where
  "serve_route L now rnd r s =
     (let (host, port) = route_key r; key = host @ '':'' @ port; clientIP = extractClientIP r;
          (b, w1) = check_banned now clientIP (s_world s)
      in if b then (Respond (http_error StatusForbidden ''Forbidden''),
                    s\<lparr>s_world := record_event now clientIP key OutcomeBanned w1\<rparr>)
         else case map_of (px_servers (s_proxy s)) port of
             None \<Rightarrow> (Respond (http_error StatusServiceUnavailable ''Service Unavailable''),
                      s\<lparr>s_world := record_failure L now clientIP (record_event now clientIP key OutcomeNoListener w1)\<rparr>)
           | Some ls \<Rightarrow>
               (case map_of (ls_handlers ls) host of
                  None \<Rightarrow> (Respond (http_error StatusNotFound ''Not Found''),
                           s\<lparr>s_world := record_failure L now clientIP (record_event now clientIP key OutcomeNotFound w1)\<rparr>)
                | Some h \<Rightarrow> serve L now rnd r h (s\<lparr>s_world := w1\<rparr>)))"

section \<open>Failed TLS handshakes\<close>

text \<open>\<^verbatim>\<open>tlsErrWriter.Write\<close>: the address in the server's log line.\<close>

definition tls_marker :: string where "tls_marker = ''TLS handshake error from ''"

definition tls_error_ip :: "string \<Rightarrow> string option" where
  "tls_error_ip p =
     (let line = trim_space p
      in case index_sub tls_marker line of
           None \<Rightarrow> None
         | Some i \<Rightarrow>
             let rest = drop (i + length tls_marker) line;
                 addr = (case index_sub '': '' rest of None \<Rightarrow> rest | Some j \<Rightarrow> take j rest)
             in Some (case split_host_port (trim_space addr) of None \<Rightarrow> trim_space addr | Some (ip, q) \<Rightarrow> ip))"

definition tlsErrWriter_Write :: "lib \<Rightarrow> time \<Rightarrow> string \<Rightarrow> string \<Rightarrow> world \<Rightarrow> world" where
  "tlsErrWriter_Write L now port p w =
     (case tls_error_ip p of
        None \<Rightarrow> w
      | Some ip \<Rightarrow> record_failure L now ip (record_event now ip ('':'' @ port) OutcomeTLSError w))"

end
