(* ===== verification/Gateway.thy ===== *)
theory Gateway
  imports Dispatch
begin

text \<open>
  What holds of a request from the router to the response: nothing is served past its route's policy, the
  admin endpoints stop everybody else before they touch anything, and no request of a visitor who is not an
  administrator changes the configuration of the proxy.
\<close>

section \<open>Content\<close>

text \<open>The answers that carry content of a route: a backend's, a directory's, a file's.\<close>

fun content :: "outcome \<Rightarrow> bool" where
  "content (Forward f) = True"
| "content (ServeDir d) = True"
| "content (ServeFile d f) = True"
| "content (Respond rs) = False"
| "content NeverReturns = False"
| "content Panicked = False"

lemma respond_content [simp]: "\<not> content (fst (respond rs s))" "\<not> content (fst (not_allowed s))" "\<not> content (fst (db_error s))"
  "\<not> content (fst (bad_id s))"
  by (simp_all add: respond_defs bad_id_def)

lemma call_api_content: "\<not> content (fst (call_api L now rnd a r s))"
proof -
  have range: "\<not> content (fst (createRouteRange L now rnd ra s))" for ra s
    by (simp add: createRouteRange_def Let_def split: option.split sum.split prod.split)
  have post: "\<not> content (fst (routes_post L now rnd r s))" for s
    using range by (simp add: routes_post_def Let_def split: option.split sum.split prod.split)
  show ?thesis
  proof (cases a)
    case HandleAdminRoutes
    then show ?thesis using post
      by (simp add: as_admin_def routes_page_def routes_put_def routes_delete_def Let_def
          split: option.split sum.split prod.split)
  qed (simp_all add: as_admin_def handle_config_def handle_login_def handle_logout_def handle_register_def handle_me_def
      handle_user_routes_def handle_extend_def handle_user_sessions_def handle_example_def handle_health_def
      users_page_def user_groups_page_def groups_page_def invites_page_def settings_page_def metrics_page_def
      throttle_page_def Let_def split: option.split sum.split prod.split)
qed

lemma serve_content:
  assumes "guard_key h = Some k" "content (fst (serve L now rnd r h s))"
  shows "fst (withAuthForKey L now k r (s_world s)) = Pass"
  using assms
proof (induction h arbitrary: k)
  case (InjectHandler h)
  then show ?case using call_api_content
    by (auto split: if_splits sum.splits)
next
  case (AuthHandler rk h)
  then show ?case
    by (auto split: prod.splits verdict.splits)
qed simp_all

lemma withAuthForKey_pass:
  assumes "fst (withAuthForKey L now rk r w) = Pass" "authStore w"
  shows "\<not> fst (IsBanned now (extractClientIP r) (thr w))"
    and "\<exists>m cr. authCache w = Some m \<and> m rk = Some cr \<and>
      \<not> (\<exists>c. auth_decide (ValidateSessionByIPInGroups L now (dbase w)) (ValidateSessionAndGroups L now (dbase w)) cr
        (extractClientIP r) (rq_cookie r) = Deny c)"
proof -
  let ?ip = "extractClientIP r"
  obtain b w1 where w1: "check_banned now ?ip w = (b, w1)" "dbase w1 = dbase w" "authCache w1 = authCache w"
    "b = fst (IsBanned now ?ip (thr w))"
    using check_banned_sel [of now ?ip w] by (metis prod.collapse)
  obtain al rt lm where a: "Allow now ?ip (thr w1) = ((al, rt), lm)" by (metis prod.collapse)
  have b: "\<not> b" using assms w1(1) by (auto simp: withAuthForKey_def)
  then show "\<not> fst (IsBanned now ?ip (thr w))" using w1(4) by simp
  have al: "al" using assms w1(1) b a by (cases al) (auto simp: withAuthForKey_def Let_def)
  obtain m where m: "authCache w = Some m" using assms w1 b a al by (cases "authCache w") (auto simp: withAuthForKey_def Let_def)
  obtain cr where cr: "m rk = Some cr" using assms w1 b a al m by (cases "m rk") (auto simp: withAuthForKey_def Let_def)
  have "fst (fst (Allow now ?ip (thr w)))"
    using a al check_banned_sel(4) [of now ?ip w] w1(1) by (metis Allow_ignores_bans fst_conv snd_conv)
  from withAuthForKey_found [OF assms(2) m cr _ this] assms(1) b w1(4) m cr
  show "\<exists>m cr. authCache w = Some m \<and> m rk = Some cr \<and>
      \<not> (\<exists>c. auth_decide (ValidateSessionByIPInGroups L now (dbase w)) (ValidateSessionAndGroups L now (dbase w)) cr
        ?ip (rq_cookie r) = Deny c)" by blast
qed

definition key_of :: "request \<Rightarrow> string" where
  "key_of r = (case route_key r of (host, port) \<Rightarrow> host @ CHR '':'' # port)"

lemma serve_route_content:
  assumes "guarded (s_proxy s)" "content (fst (serve_route L now rnd r s))"
  obtains w1 where "check_banned now (extractClientIP r) (s_world s) = (False, w1)"
    "fst (withAuthForKey L now (key_of r) r w1) = Pass"
proof -
  obtain host port where k: "route_key r = (host, port)" by force
  obtain b w1 where b: "check_banned now (extractClientIP r) (s_world s) = (b, w1)" by force
  have nb: "\<not> b" using assms(2) k b by (auto simp: serve_route_def Let_def)
  then obtain ls h where h: "map_of (px_servers (s_proxy s)) port = Some ls" "map_of (ls_handlers ls) host = Some h"
    using assms(2) k b by (auto simp: serve_route_def Let_def split: option.splits)
  have "handler_at (s_proxy s) port host = Some h" using h by (simp add: handler_at_def)
  with assms(1) have g: "guard_key h = Some (key_of r)" by (simp add: guarded_def key_of_def k)
  have "serve_route L now rnd r s = serve L now rnd r h (s\<lparr>s_world := w1\<rparr>)"
    using k b nb h by (simp add: serve_route_def Let_def)
  with serve_content [OF g, of L now rnd r "s\<lparr>s_world := w1\<rparr>"] assms(2)
  have "fst (withAuthForKey L now (key_of r) r w1) = Pass" by simp
  with b nb that show thesis by simp
qed

text \<open>
  What is served was granted. In a site whose handlers are guarded, if a request ends in a backend, a
  directory or a file, then its route key (host and port of the Host header) has a cached policy that grants
  the client, by its address, its listing or its cookie, and the client is not banned.
\<close>

lemma served_means_granted:
  assumes "guarded (s_proxy s)" "authStore (s_world s)" "store_ready L (s_db s)"
    and "serve_route L now rnd r s = (out, s')" "content out"
  shows "\<exists>m cr. authCache (s_world s) = Some m \<and> m (key_of r) = Some cr \<and>
    granted L now (s_db s) cr (extractClientIP r) (rq_cookie r) \<and>
    \<not> fst (IsBanned now (extractClientIP r) (thr (s_world s)))"
proof -
  obtain w1 where w1: "check_banned now (extractClientIP r) (s_world s) = (False, w1)"
    "fst (withAuthForKey L now (key_of r) r w1) = Pass"
    using serve_route_content [OF assms(1), of L now rnd r] assms(4,5) by auto
  have same: "authStore w1" "dbase w1 = s_db s" "authCache w1 = authCache (s_world s)"
    using w1(1) assms(2) by (auto simp: check_banned_def split: prod.splits)
  have "\<not> fst (IsBanned now (extractClientIP r) (thr (s_world s)))"
    using check_banned_sel(1) [of now "extractClientIP r" "s_world s"] w1(1) by simp
  with withAuthForKey_pass(2) [OF w1(2) same(1)] decide_granted [OF assms(3)] show ?thesis
    unfolding same by blast
qed

text \<open>The sample site with a started proxy: the client at \<^verbatim>\<open>lan\<close> has a session in an allowed group.\<close>

definition gate_proxy :: proxy where
  "gate_proxy = projr (StartProxy plain_lib [] False [plain_route ''a.b:80'' ''proxy''])"

definition gate_site :: site where
  "gate_site = demo_site\<lparr>s_proxy := gate_proxy\<rparr>"

lemma gate_started: "StartProxy plain_lib [] False [plain_route ''a.b:80'' ''proxy''] = Inr gate_proxy"
proof -
  have "\<not> isl (StartProxy plain_lib [] False [plain_route ''a.b:80'' ''proxy''])" by code_simp
  then show ?thesis
    by (cases "StartProxy plain_lib [] False [plain_route ''a.b:80'' ''proxy'']") (simp_all add: gate_proxy_def)
qed

lemma gate_handler: "\<exists>ls h. map_of (px_servers gate_proxy) ''80'' = Some ls \<and>
    map_of (ls_handlers ls) ''a.b'' = Some (AuthHandler ''a.b:80'' (BackendHandler h ''http://10.0.0.1:80''))"
proof -
  have "handler_at gate_proxy ''80'' ''a.b'' = Some (AuthHandler ''a.b:80'' demo_handler)" by code_simp
  then show ?thesis by (auto simp: handler_at_def demo_handler_def split: option.splits)
qed

lemma lan_key: "route_key lan_request = (''a.b'', ''80'')"
proof -
  have "split_host_port ''a.b'' = None" by code_simp
  moreover have "to_lower (to_lower ''a.b'') = ''a.b''" by code_simp
  ultimately show ?thesis by (simp add: route_key_def lan_request_def get_request_def)
qed

lemma lan_passes:
  assumes "check_banned 50 ''lan'' sample_world = (False, w1)"
  shows "fst (withAuthForKey plain_lib 50 ''a.b:80'' lan_request w1) = Pass"
proof -
  have "granted plain_lib 50 sample_db (parseCachedRoute sample_route) ''lan'' None"
    using sample_session [of "[7]"] by (auto simp: granted_def sample_cached)
  moreover have "w1 = sample_world"
    using assms by (simp add: check_banned_def sample_world_def world0_def IsBanned_def limiter0_def ban_has_def)
  ultimately show ?thesis
    using withAuthForKey_found [OF sample_facts(1,2), of "''a.b:80''" "parseCachedRoute sample_route" 50 lan_request plain_lib]
      decide_granted [of plain_lib sample_db 50 "parseCachedRoute sample_route"]
    by (simp add: sample_facts)
qed

lemma lan_served: "content (fst (serve_route plain_lib 50 [] lan_request gate_site))"
proof -
  obtain b w1 where b: "check_banned 50 ''lan'' sample_world = (b, w1)" by force
  then have nb: "\<not> b" using check_banned_sel(1) [of 50 "''lan''" sample_world] sample_facts(7) by simp
  obtain w2 where w2: "withAuthForKey plain_lib 50 ''a.b:80'' lan_request w1 = (Pass, w2)"
    using lan_passes [of w1] b nb by (metis prod.collapse)
  obtain ls h where h: "map_of (px_servers gate_proxy) ''80'' = Some ls"
    "map_of (ls_handlers ls) ''a.b'' = Some (AuthHandler ''a.b:80'' (BackendHandler h ''http://10.0.0.1:80''))"
    using gate_handler by blast
  have "s_world gate_site = sample_world" "s_proxy gate_site = gate_proxy" by (simp_all add: gate_site_def demo_site_def)
  with b nb w2 h show ?thesis by (simp add: serve_route_def Let_def lan_key sample_facts)
qed

lemma served_means_granted_witness:
  "\<exists>m cr. authCache (s_world gate_site) = Some m \<and> m (key_of lan_request) = Some cr \<and>
    granted plain_lib 50 (s_db gate_site) cr (extractClientIP lan_request) (rq_cookie lan_request)"
proof -
  have w: "s_world gate_site = sample_world" "s_proxy gate_site = gate_proxy" by (simp_all add: gate_site_def demo_site_def)
  have g: "guarded (s_proxy gate_site)" using StartProxy_guarded [OF gate_started] w by simp
  have "authStore (s_world gate_site)" "store_ready plain_lib (s_db gate_site)" by (simp_all add: w sample_facts)
  from served_means_granted [OF g this _ lan_served] show ?thesis by (metis prod.collapse)
qed

section \<open>Administrators\<close>

text \<open>The cookie of a live session whose user is in the group \<^verbatim>\<open>admin\<close>.\<close>

definition admin_token :: "lib \<Rightarrow> time \<Rightarrow> db \<Rightarrow> string option \<Rightarrow> bool" where
  "admin_token L now d ck \<longleftrightarrow> (\<exists>tok s g. ck = Some tok \<and> live_session now d s \<and> ses_hash s = sha256hex L tok \<and>
     g \<in> set (groups d) \<and> grp_name g = ''admin'' \<and> (ses_user s, grp_id g) \<in> set (user_groups d))"

lemma requireAdmin_token:
  assumes "requireAdmin L now r s = Inr sess"
  shows "admin_token L now (s_db s) (rq_cookie r)"
proof -
  obtain tok where tok: "rq_cookie r = Some tok" "ValidateSession L now (s_db s) tok = Inr sess"
    using assms by (auto simp: requireAdmin_def sessionFromRequest_def split: option.splits sum.splits bool.splits)
  have "UserInGroup L (s_db s) (sn_user sess) ''admin'' = Inr True"
    using assms by (auto simp: requireAdmin_def split: sum.splits bool.splits)
  with ValidateSession_sound [OF tok(2)] tok(1) show ?thesis
    by (auto simp: UserInGroup_iff admin_token_def) blast
qed

lemma as_admin_refused:
  assumes "\<not> admin_token L now (s_db s) (rq_cookie r)"
  shows "\<exists>rs. as_admin L now h r s = (Respond rs, s) \<and> rs_status rs \<in> {StatusUnauthorized, StatusForbidden}"
proof (cases "requireAdmin L now r s")
  case (Inl rs)
  then have "rs_status rs \<in> {StatusUnauthorized, StatusForbidden}"
    by (auto simp: requireAdmin_def split: sum.splits bool.splits)
  with Inl show ?thesis by (simp add: as_admin_def respond_def)
next
  case (Inr sess)
  with requireAdmin_token assms show ?thesis by blast
qed

definition admin_handlers :: "api_handler list" where
  "admin_handlers = [HandleAdminUsers, HandleAdminUserGroups, HandleAdminGroups, HandleAdminInvites, HandleAdminRoutes,
     HandleAdminSettings, HandleAdminMetrics, HandleAdminThrottle]"

text \<open>
  C4: the admin endpoints refuse everybody else. Without the cookie of a live session of a member of the
  group \<^verbatim>\<open>admin\<close>, each of the eight endpoints answers 401 or 403, whatever the method and the body, and the
  site is left exactly as it was.
\<close>

theorem admin_gate:
  assumes "a \<in> set admin_handlers" "\<not> admin_token L now (s_db s) (rq_cookie r)"
  shows "\<exists>rs. call_api L now rnd a r s = (Respond rs, s) \<and> rs_status rs \<in> {StatusUnauthorized, StatusForbidden}"
  using assms(1) as_admin_refused [OF assms(2)] by (auto simp: admin_handlers_def)

lemma no_demo_admin: "\<not> admin_token L now (s_db demo_site) ck"
  by (simp add: admin_token_def demo_db sample_db_def)

theorem admin_gate_witness:
  "\<exists>rs. call_api plain_lib 5 [] HandleAdminRoutes bob_removal demo_site = (Respond rs, demo_site) \<and>
    rs_status rs \<in> {StatusUnauthorized, StatusForbidden}"
  by (rule admin_gate) (simp_all add: admin_handlers_def no_demo_admin)

section \<open>Who changes the configuration\<close>

definition config_part ::
  "db \<Rightarrow> route list \<times> group_row list \<times> (int \<times> int) list \<times> throttle_policy list \<times> settings option" where
  "config_part d = (routes d, groups d, user_groups d, policy_rows d, settings_row d)"

named_theorems config_frame \<open>operations that leave the configuration alone\<close>

lemma storage_config [config_frame]:
  "config_part (LogAuthFailure L now d ip u) = config_part d"
  "config_part (LogAccess L now d ip u rk) = config_part d"
  "config_part (fst (CreateSession L now rnd d uid dur ip)) = config_part d"
  "config_part (fst (DeleteSession L d tok)) = config_part d"
  "config_part (fst (DeleteSessionByID L d i uid)) = config_part d"
  "config_part (ExtendSession L now d tok dur) = config_part d"
  "config_part (ExtendSessionByID L now d i dur) = config_part d"
  "config_part (ExtendUserSessionsByIP L now d uid ip dur) = config_part d"
  "config_part (fst (UseInvite L now d code)) = config_part d"
  "config_part (fst (CreateUser L now d n p)) = config_part d"
  "config_part (fst (InsertBan L now d ip rsn til e)) = config_part d"
  by (simp_all add: config_part_def LogAuthFailure_def LogAccess_def CreateSession_def DeleteSession_def DeleteSessionByID_def
      ExtendSession_def ExtendSessionByID_def ExtendUserSessionsByIP_def UseInvite_def UseInvite_update_def CreateUser_def
      InsertBan_def put_ban_def Let_def split: sum.split option.split)

lemma RecordFailure_config [config_frame]: "config_part (snd (RecordFailure L hs now ip (lm, d))) = config_part d"
  by (simp add: RecordFailure_def Ban_def Let_def storage_config split: option.split prod.split)


text \<open>What decides who gets where: the stored configuration, the cached routes, whether the gate is on.\<close>

definition policy_state ::
  "world \<Rightarrow> (route list \<times> group_row list \<times> (int \<times> int) list \<times> throttle_policy list \<times> settings option) \<times>
    (string \<Rightarrow> cachedRoute option) option \<times> bool" where
  "policy_state w = (config_part (dbase w), authCache w, authStore w)"

lemma world_config [config_frame]:
  "policy_state (record_event now ip rk res w) = policy_state w"
  "policy_state (record_failure L now ip w) = policy_state w"
  "policy_state (set_tier now ip t w) = policy_state w"
  "policy_state (snd (check_banned now ip w)) = policy_state w"
  "policy_state (logAccess ip u rk w) = policy_state w"
  "policy_state (denyAuth L now ip rk w) = policy_state w"
  "policy_state (extend_by_ip L now uid ip w) = policy_state w"
  "policy_state (extend_by_token L now tok w) = policy_state w"
  "policy_state (serve_as L now ip u rk w) = policy_state w"
  "policy_state (w\<lparr>thr := lm\<rparr>) = policy_state w"
proof -
  show failure: "policy_state (record_failure L now ip w) = policy_state w" for w
    using RecordFailure_config [of L "authStore w" now ip "thr w" "dbase w"]
    by (auto simp: record_failure_def policy_state_def split: prod.split)
  show "policy_state (denyAuth L now ip rk w) = policy_state w"
    unfolding denyAuth_def failure by (simp add: policy_state_def record_event_def logAccess_def)
qed (simp_all add: policy_state_def record_event_def set_tier_def check_banned_def logAccess_def extend_by_ip_def
    extend_by_token_def serve_as_def config_frame split: prod.split)

lemma apply_decision_config [config_frame]: "policy_state (snd (apply_decision L now ip rk dec w)) = policy_state w"
  by (cases dec) (simp_all add: Let_def config_frame)

text \<open>What every branch of the gate keeps, the gate keeps.\<close>

lemma withAuthForKey_keeps:
  assumes "P w" "\<And>w'. dbase w' = dbase w \<Longrightarrow> policy_state w' = policy_state w \<Longrightarrow> P w' \<and>
      P (record_event now (extractClientIP r) rk OutcomeBanned w') \<and>
      P (record_failure L now (extractClientIP r) (record_event now (extractClientIP r) rk OutcomeRateLimited w')) \<and>
      P (denyAuth L now (extractClientIP r) rk w')"
    and "\<And>cr w'. dbase w' = dbase w \<Longrightarrow> policy_state w' = policy_state w \<Longrightarrow>
      P (snd (apply_decision L now (extractClientIP r) rk (auth_decide (ValidateSessionByIPInGroups L now (dbase w))
        (ValidateSessionAndGroups L now (dbase w)) cr (extractClientIP r) (rq_cookie r)) w'))"
  shows "P (snd (withAuthForKey L now rk r w))"
proof -
  let ?ip = "extractClientIP r"
  obtain b w1 where b: "check_banned now ?ip w = (b, w1)" by force
  obtain al rt lm where a: "Allow now ?ip (thr w1) = ((al, rt), lm)" by (metis prod.collapse)
  have w1: "dbase w1 = dbase w" "policy_state w1 = policy_state w"
    using check_banned_sel(2) [of now ?ip w] world_config(4) [of now ?ip w] b by simp_all
  then have w2: "dbase (w1\<lparr>thr := lm\<rparr>) = dbase w" "policy_state (w1\<lparr>thr := lm\<rparr>) = policy_state w"
    by (simp_all add: config_frame)
  note keep = assms(2) [OF w1] assms(2) [OF w2] assms(3) [OF w2] assms(1)
  consider (off) "\<not> authStore w" | (banned) "authStore w" "b" | (limited) "authStore w" "\<not> b" "\<not> al"
    | (unset) "authStore w" "\<not> b" "al" "authCache w1 = None"
    | (unknown) m where "authStore w" "\<not> b" "al" "authCache w1 = Some m" "m rk = None"
    | (known) m cr where "authStore w" "\<not> b" "al" "authCache w1 = Some m" "m rk = Some cr"
    by (metis option.exhaust)
  then show ?thesis
  proof cases
    case (known m cr)
    then have "snd (withAuthForKey L now rk r w) = snd (apply_decision L now ?ip rk (auth_decide
        (ValidateSessionByIPInGroups L now (dbase w)) (ValidateSessionAndGroups L now (dbase w)) cr ?ip (rq_cookie r)) (w1\<lparr>thr := lm\<rparr>))"
      by (simp add: withAuthForKey_def b a Let_def w1 case_prod_beta)
    with keep(3) [of cr] show ?thesis by simp
  qed (use keep in \<open>simp_all add: withAuthForKey_def b a Let_def\<close>)
qed

lemma withAuthForKey_config [config_frame]: "policy_state (snd (withAuthForKey L now rk r w)) = policy_state w"
  by (rule withAuthForKey_keeps) (simp_all add: config_frame)

section \<open>Nobody gains a live session by being checked\<close>

definition live_keys :: "time \<Rightarrow> db \<Rightarrow> (string \<times> int) set" where
  "live_keys now d = {(ses_hash s, ses_user s) |s. live_session now d s}"

lemma admin_token_keys:
  "admin_token L now d ck \<longleftrightarrow> (\<exists>tok u g. ck = Some tok \<and> (sha256hex L tok, u) \<in> live_keys now d \<and>
     g \<in> set (groups d) \<and> grp_name g = ''admin'' \<and> (u, grp_id g) \<in> set (user_groups d))"
  by (auto simp: admin_token_def live_keys_def) metis+

lemma live_keys_extended:
  assumes "\<And>s. s \<in> set (sessions d) \<Longrightarrow> P s \<Longrightarrow> now < ses_exp s"
  shows "live_keys now (d\<lparr>sessions := update_where P (\<lambda>s. s\<lparr>ses_exp := e\<rparr>) (sessions d)\<rparr>) \<subseteq> live_keys now d"
  using assms by (fastforce simp: live_keys_def live_session_def sql_simps)

lemma live_keys_by_token:
  assumes "ValidateSessionAndGroups L now d tok = Inr sg" "db_ok d"
  shows "live_keys now (ExtendSession L now d tok dur) \<subseteq> live_keys now d"
proof -
  obtain s where s: "live_session now d s" "ses_hash s = sha256hex L tok"
    using ValidateSessionAndGroups_sound [OF assms(1)] by auto
  have "now < ses_exp s'" if "s' \<in> set (sessions d)" "ses_hash s' = sha256hex L tok" for s'
    using s that assms(2) distinct_key_eq [of ses_hash "sessions d" s' s]
    by (auto simp: db_ok_def sessions_ok_def live_session_def)
  then show ?thesis by (auto simp: ExtendSession_def Let_def intro!: live_keys_extended)
qed

lemma live_keys_by_ip: "live_keys now (ExtendUserSessionsByIP L now d uid ip dur) \<subseteq> live_keys now d"
  by (auto simp: ExtendUserSessionsByIP_def Let_def intro!: live_keys_extended)


lemma keys_world [config_frame]:
  "live_keys now (dbase (record_event t ip rk res w)) = live_keys now (dbase w)"
  "live_keys now (dbase (set_tier t ip ti w)) = live_keys now (dbase w)"
  "live_keys now (dbase (logAccess ip u rk w)) = live_keys now (dbase w)"
  "live_keys now (dbase (serve_as L t ip u rk w)) = live_keys now (dbase w)"
  "live_keys now (dbase (snd (check_banned t ip w))) = live_keys now (dbase w)"
  by (simp_all add: record_event_def set_tier_def logAccess_def serve_as_def check_banned_sel)

lemma InsertBan_keys: "live_keys now (fst (InsertBan L t d ip rsn til e)) = live_keys now d"
  by (simp add: InsertBan_def put_ban_def live_keys_def live_session_def)

lemma record_failure_keys [config_frame]: "live_keys now (dbase (record_failure L t ip w)) = live_keys now (dbase w)"
proof -
  have "live_keys now (snd (RecordFailure L hs t ip (lm, d))) = live_keys now d" for hs lm d
    by (simp add: RecordFailure_def Ban_def Let_def InsertBan_keys split: option.split prod.split)
  then have "live_keys now (snd (RecordFailure L (authStore w) t ip (thr w, dbase w))) = live_keys now (dbase w)" .
  then show ?thesis by (simp add: record_failure_def case_prod_beta)
qed

lemma denyAuth_keys [config_frame]: "live_keys now (dbase (denyAuth L t ip rk w)) = live_keys now (dbase w)"
  by (simp add: denyAuth_def config_frame)

lemma apply_decision_keys:
  assumes "db_ok (dbase w)" "\<And>tok sg. dec = AllowByCookie tok sg \<Longrightarrow> ValidateSessionAndGroups L now (dbase w) tok = Inr sg"
  shows "live_keys now (dbase (snd (apply_decision L now ip rk dec w))) \<subseteq> live_keys now (dbase w)"
proof (cases dec)
  case (AllowByCookie tok sg)
  with live_keys_by_token [OF assms(2) assms(1)] show ?thesis
    by (auto simp: Let_def config_frame extend_by_token_def)
next
  case (AllowByIP sg)
  with live_keys_by_ip [of now L "dbase w"] show ?thesis
    by (auto simp: Let_def config_frame extend_by_ip_def)
qed (simp_all add: Let_def config_frame)

lemma auth_decide_cookie: "auth_decide by_ip by_cookie cr ip ck = AllowByCookie tok sg \<Longrightarrow> by_cookie tok = Inr sg"
  by (auto simp: auth_decide_def Let_def split: if_splits sum.splits option.splits)

lemma withAuthForKey_keys:
  assumes "db_ok (dbase w)"
  shows "live_keys now (dbase (snd (withAuthForKey L now rk r w))) \<subseteq> live_keys now (dbase w)"
proof (rule withAuthForKey_keeps)
  fix cr and w' :: world assume same: "dbase w' = dbase w"
  let ?dec = "auth_decide (ValidateSessionByIPInGroups L now (dbase w)) (ValidateSessionAndGroups L now (dbase w)) cr
      (extractClientIP r) (rq_cookie r)"
  have "ValidateSessionAndGroups L now (dbase w') tok = Inr sg" if "?dec = AllowByCookie tok sg" for tok sg
    using auth_decide_cookie [OF that] same by simp
  with apply_decision_keys [of w' ?dec L now] assms same
  show "live_keys now (dbase (snd (apply_decision L now (extractClientIP r) rk ?dec w'))) \<subseteq> live_keys now (dbase w)" by simp
qed (simp_all add: config_frame)

section \<open>Requests without an administrator's session\<close>

definition site_setup where
  "site_setup s = (policy_state (s_world s), s_proxy s, s_registry s)"

lemma set_db_setup: "config_part d = config_part (s_db s) \<Longrightarrow> site_setup (set_db d s) = site_setup s"
  by (simp add: site_setup_def set_db_def policy_state_def)

lemma respond_setup [simp]:
  "snd (respond rs s) = s" "snd (not_allowed s) = s" "snd (db_error s) = s"
  by (simp_all add: respond_defs)

lemma snd_frame: "f x = (y, res) \<Longrightarrow> config_part (fst (f x)) = c \<Longrightarrow> config_part y = c"
  by simp

lemma user_handlers_setup:
  "site_setup (snd (handle_login L now rnd r s)) = site_setup s"
  "site_setup (snd (handle_logout L r s)) = site_setup s"
  "site_setup (snd (handle_register L now r s)) = site_setup s"
  "site_setup (snd (handle_me L now r s)) = site_setup s"
  "site_setup (snd (handle_user_routes L now r s)) = site_setup s"
  "site_setup (snd (handle_extend L now r s)) = site_setup s"
  "site_setup (snd (handle_user_sessions L now r s)) = site_setup s"
proof -
  have session: "config_part d' = config_part (s_db s)" if "CreateSession L now rnd (s_db s) u dur ip = (d', res)" for u dur ip d' res
    using storage_config(3) [of L now rnd "s_db s" u dur ip] that by simp
  show "site_setup (snd (handle_login L now rnd r s)) = site_setup s"
    by (auto simp: handle_login_def Let_def config_frame intro!: set_db_setup dest!: session split: sum.split prod.split)
  show "site_setup (snd (handle_logout L r s)) = site_setup s"
    by (auto simp: handle_logout_def config_frame intro!: set_db_setup split: option.split)
  have invite: "config_part d' = config_part (s_db s)" if "UseInvite L now (s_db s) c = (d', res)" for c d' res
    using storage_config(9) [of L now "s_db s" c] that by simp
  have account: "config_part d' = config_part d" if "CreateUser L now d n p = (d', res)" for d n p d' res
    using storage_config(10) [of L now d n p] that by simp
  show "site_setup (snd (handle_register L now r s)) = site_setup s"
    by (auto simp: handle_register_def Let_def intro!: set_db_setup dest!: invite account split: sum.split prod.split)
  show "site_setup (snd (handle_me L now r s)) = site_setup s"
    by (simp add: handle_me_def split: sum.split)
  show "site_setup (snd (handle_user_routes L now r s)) = site_setup s"
    by (simp add: handle_user_routes_def Let_def split: sum.split)
  show "site_setup (snd (handle_extend L now r s)) = site_setup s"
    by (auto simp: handle_extend_def Let_def config_frame intro!: set_db_setup split: sum.split)
  have own: "config_part d' = config_part (s_db s)" if "DeleteSessionByID L (s_db s) i u = (d', res)" for i u d' res
    using storage_config(5) [of L "s_db s" i u] that by simp
  show "site_setup (snd (handle_user_sessions L now r s)) = site_setup s"
    by (auto simp: handle_user_sessions_def intro!: set_db_setup dest!: own split: sum.split option.split prod.split)
qed

lemma call_api_setup:
  assumes "\<not> admin_token L now (s_db s) (rq_cookie r)"
  shows "site_setup (snd (call_api L now rnd a r s)) = site_setup s"
proof -
  have refused: "snd (as_admin L now h r s) = s" for h
    using as_admin_refused [OF assms, of h] by auto
  show ?thesis
    by (cases a) (simp_all add: refused user_handlers_setup handle_config_def handle_example_def handle_health_def)
qed

lemma admin_token_keeps:
  assumes "\<not> admin_token L now d ck" "live_keys now d' \<subseteq> live_keys now d" "config_part d' = config_part d"
  shows "\<not> admin_token L now d' ck"
  using assms by (auto simp: admin_token_keys config_part_def)

lemma serve_setup:
  assumes "\<not> admin_token L now (s_db s) (rq_cookie r)" "world_ok (s_world s)"
  shows "site_setup (snd (serve L now rnd r h s)) = site_setup s"
  using assms
proof (induction h arbitrary: s)
  case (AuthHandler rk h)
  let ?w = "snd (withAuthForKey L now rk r (s_world s))"
  have w: "policy_state ?w = policy_state (s_world s)" by (rule withAuthForKey_config)
  have ok: "world_ok ?w" using AuthHandler.prems(2) by (rule withAuthForKey_ok)
  have "live_keys now (dbase ?w) \<subseteq> live_keys now (s_db s)"
    using AuthHandler.prems(2) by (intro withAuthForKey_keys) (simp add: world_ok_def)
  then have "\<not> admin_token L now (dbase ?w) (rq_cookie r)"
    using w admin_token_keeps [OF AuthHandler.prems(1)] by (simp add: policy_state_def)
  with AuthHandler.IH [of "s\<lparr>s_world := ?w\<rparr>"] ok w
  have "site_setup (snd (serve L now rnd r h (s\<lparr>s_world := ?w\<rparr>))) = site_setup s"
    by (simp add: site_setup_def)
  with w show ?case
    by (cases "withAuthForKey L now rk r (s_world s)") (auto simp: site_setup_def split: verdict.split)
next
  case (InjectHandler h)
  then show ?case using call_api_setup by (simp split: sum.split)
qed (simp_all add: call_api_setup)

lemma serve_route_setup:
  assumes "\<not> admin_token L now (s_db s) (rq_cookie r)" "world_ok (s_world s)"
  shows "site_setup (snd (serve_route L now rnd r s)) = site_setup s"
proof -
  obtain host port where k: "route_key r = (host, port)" by force
  obtain b w1 where b: "check_banned now (extractClientIP r) (s_world s) = (b, w1)" by force
  have w1: "dbase w1 = s_db s" "policy_state w1 = policy_state (s_world s)" "world_ok w1"
    using check_banned_sel(2) [of now "extractClientIP r" "s_world s"] world_config(4) [of now "extractClientIP r" "s_world s"]
      check_banned_ok [OF assms(2), of now "extractClientIP r"] b by simp_all
  have "site_setup (snd (serve L now rnd r h (s\<lparr>s_world := w1\<rparr>))) = site_setup s" for h
    using serve_setup [of L now "s\<lparr>s_world := w1\<rparr>" r rnd h] assms(1) w1 by (simp add: site_setup_def)
  then show ?thesis
    by (simp add: serve_route_def Let_def k b site_setup_def w1 config_frame split: option.split)
qed

text \<open>
  C3: only an administrator changes the configuration. Whatever a request without an administrator's cookie
  asks for, wherever it is routed and however it is answered, the routes, the groups and their members, the
  throttle policies, the settings, the cached policies of the gate and the live route table stay the same.
\<close>

theorem only_admins_reconfigure:
  assumes "serve_route L now rnd r s = (out, s')" "world_ok (s_world s)" "\<not> admin_token L now (s_db s) (rq_cookie r)"
  shows "routes (s_db s') = routes (s_db s) \<and> groups (s_db s') = groups (s_db s) \<and>
    user_groups (s_db s') = user_groups (s_db s) \<and> policy_rows (s_db s') = policy_rows (s_db s) \<and>
    settings_row (s_db s') = settings_row (s_db s) \<and> authCache (s_world s') = authCache (s_world s) \<and>
    s_proxy s' = s_proxy s"
  using serve_route_setup [OF assms(3,2), of rnd] assms(1)
  by (simp_all add: site_setup_def policy_state_def config_part_def)

theorem only_admins_reconfigure_witness:
  "routes (s_db (snd (serve_route plain_lib 5 [] ann_login demo_site))) = []"
proof -
  have "world_ok (s_world demo_site)"
    by (simp add: demo_site_def world_ok_def sample_facts sample_db_ok) (simp add: sample_world_def world0_def ring_ok_def metrics0_def recentEventsCap_def)
  from only_admins_reconfigure [OF _ this no_demo_admin, of plain_lib 5 "[]" ann_login]
  show ?thesis by (cases "serve_route plain_lib 5 [] ann_login demo_site") (simp add: demo_db sample_db_def empty_db_def)
qed

section \<open>Throttling and the injected API\<close>

text \<open>Requests one after the other at a handler, as the router would hand them over.\<close>

text \<open>Requests through the whole program, one after the other, the router first.\<close>

definition attempts :: "lib \<Rightarrow> (time \<times> 8 word list \<times> request) list \<Rightarrow> site \<Rightarrow> site" where
  "attempts L as s = fold (\<lambda>(now, rnd, r) s. snd (serve_route L now rnd r s)) as s"

definition login_attempt :: "request \<Rightarrow> bool" where
  "login_attempt r \<longleftrightarrow> rq_path r = ''/api/auth/login''"

text \<open>Its host and port belong to an injecting route (a page of the program's own), and nothing bans its client.\<close>

definition login_page :: "site \<Rightarrow> request \<Rightarrow> bool" where
  "login_page s r \<longleftrightarrow> login_attempt r \<and> banned (thr (s_world s)) (extractClientIP r) = None \<and>
     (case route_key r of (host, port) \<Rightarrow>
       (case handler_at (s_proxy s) port host of Some (InjectHandler h) \<Rightarrow> True | _ \<Rightarrow> False))"

lemma login_unthrottled:
  "thr (s_world (snd (handle_login L now rnd r s))) = thr (s_world s)"
  "met (s_world (snd (handle_login L now rnd r s))) = met (s_world s)"
  "s_proxy (snd (handle_login L now rnd r s)) = s_proxy s"
  "s_registry (snd (handle_login L now rnd r s)) = s_registry s"
  "users (s_db (snd (handle_login L now rnd r s))) = users (s_db s)"
proof -
  have u: "users d' = users d" if "CreateSession L now rnd d uid dur ip = (d', res)" for d uid dur ip d' res
    using that by (auto simp: CreateSession_def Let_def split: if_splits)
  show "thr (s_world (snd (handle_login L now rnd r s))) = thr (s_world s)"
    "met (s_world (snd (handle_login L now rnd r s))) = met (s_world s)"
    "s_proxy (snd (handle_login L now rnd r s)) = s_proxy s"
    "s_registry (snd (handle_login L now rnd r s)) = s_registry s"
    "users (s_db (snd (handle_login L now rnd r s))) = users (s_db s)"
    by (auto simp: handle_login_def Let_def LogAuthFailure_def dest: u split: sum.split prod.split)
qed

text \<open>
  C36: guessing passwords is neither rate limited nor banned. On a page that injects the API, and as long as
  no ban from elsewhere stands against the clients (the router answers those 403), any number of login requests
  pass the router and run the login handler; the buckets, the failure counts, the bans and the counters of
  refusals are afterwards what they were, and the next attempt reaches the login handler.
\<close>

theorem login_attempts_unlimited:
  assumes "Get (s_registry s) ''auth/login'' = Inr HandleLogin" "\<forall>(now, rnd, r) \<in> set as. login_page s r"
    and "login_page s r"
  shows "thr (s_world (attempts L as s)) = thr (s_world s) \<and> met (s_world (attempts L as s)) = met (s_world s) \<and>
    users (s_db (attempts L as s)) = users (s_db s) \<and>
    serve_route L now rnd r (attempts L as s) = handle_login L now rnd r (attempts L as s)"
proof -
  have call: "serve_route L now rnd r s' = handle_login L now rnd r s'"
    if reg: "Get (s_registry s') ''auth/login'' = Inr HandleLogin" and open_page: "login_page s' r" for s' now rnd r
  proof -
    obtain host port where k: "route_key r = (host, port)" by force
    from open_page have "check_banned now (extractClientIP r) (s_world s') = (False, s_world s')"
      by (simp add: login_page_def check_banned_def IsBanned_def ban_has_def)
    moreover obtain h where "handler_at (s_proxy s') port host = Some (InjectHandler h)"
      using open_page by (auto simp: login_page_def k split: option.splits handler.splits)
    ultimately show ?thesis
      using reg open_page by (auto simp: serve_route_def Let_def k handler_at_def login_page_def login_attempt_def has_prefix_def
          trim_prefix_def split: option.splits)
  qed
  have page: "login_page s' r = login_page s r" if "thr (s_world s') = thr (s_world s)" "s_proxy s' = s_proxy s" for s s' r
    using that by (simp add: login_page_def)
  have "thr (s_world (attempts L as s)) = thr (s_world s) \<and> met (s_world (attempts L as s)) = met (s_world s) \<and>
      users (s_db (attempts L as s)) = users (s_db s) \<and>
      s_proxy (attempts L as s) = s_proxy s \<and> s_registry (attempts L as s) = s_registry s"
    using assms(1,2)
  proof (induction as arbitrary: s)
    case (Cons a as)
    obtain t rd rq where a: "a = (t, rd, rq)" by (cases a)
    define s1 where "s1 = snd (handle_login L t rd rq s)"
    have s1: "thr (s_world s1) = thr (s_world s)" "met (s_world s1) = met (s_world s)" "s_proxy s1 = s_proxy s"
      "s_registry s1 = s_registry s" "users (s_db s1) = users (s_db s)"
      by (simp_all add: s1_def login_unthrottled)
    have "serve_route L t rd rq s = handle_login L t rd rq s" using Cons.prems by (intro call) (auto simp: a)
    then have "attempts L (a # as) s = attempts L as s1" by (simp add: attempts_def a s1_def)
    with Cons.IH [of s1] Cons.prems s1 page [OF s1(1,3)] show ?case by simp
  qed (simp add: attempts_def)
  with call [of "attempts L as s" r] page [of "attempts L as s" s r] assms(1,3) show ?thesis by simp
qed

text \<open>The sample site behind one injecting route.\<close>

definition login_site :: site where
  "login_site = demo_site\<lparr>s_proxy := projr (StartProxy plain_lib [] False [(plain_route ''a.b:80'' ''proxy'')\<lparr>pr_inject := True\<rparr>])\<rparr>"

theorem login_attempts_unlimited_witness:
  "thr (s_world (attempts plain_lib (replicate 1000 (0, [], ann_login)) login_site)) = thr (s_world login_site)"
proof -
  have "Get (s_registry login_site) ''auth/login'' = Inr HandleLogin" by code_simp
  moreover have "login_page login_site ann_login" by code_simp
  ultimately show ?thesis
    using login_attempts_unlimited [of login_site "replicate 1000 (0, [], ann_login)" ann_login plain_lib] by auto
qed

section \<open>Failed handshakes are charged to their address\<close>

lemma index_sub_first:
  assumes "\<And>i. i < length a \<Longrightarrow> \<not> has_prefix (drop i (a @ p @ b)) p"
  shows "index_sub p (a @ p @ b) = Some (length a)"
  using assms
proof (induction a)
  case Nil
  then show ?case using has_prefix_append [of p b] by (cases "p @ b") auto
next
  case (Cons x a)
  have "\<not> has_prefix (drop i (a @ p @ b)) p" if "i < length a" for i
    using Cons.prems [of "Suc i"] that by simp
  with Cons.IH have "index_sub p (a @ p @ b) = Some (length a)" by blast
  with Cons.prems [of 0] show ?case by simp
qed

lemma colon_space_first:
  assumes "\<forall>c \<in> set a. \<not> is_space c"
  shows "index_sub '': '' (a @ '': '' @ b) = Some (length a)"
proof (rule index_sub_first)
  fix i assume i: "i < length a"
  have sp: "is_space (CHR '' '')" by (simp add: is_space_def)
  show "\<not> has_prefix (drop i (a @ '': '' @ b)) '': ''"
  proof
    assume "has_prefix (drop i (a @ '': '' @ b)) '': ''"
    then obtain t where "drop i (a @ '': '' @ b) = '': '' @ t" by (auto simp: has_prefix_iff)
    then have "drop i (a @ '': '' @ b) ! 1 = CHR '' ''" by (simp only: nth_append) simp
    then have "(a @ '': '' @ b) ! (i + 1) = CHR '' ''" using i by (simp only: nth_drop length_append)
    then show False using assms sp i nth_mem [of "i + 1" a] by (cases "i + 1 < length a") (auto simp: nth_append)
  qed
qed

lemma tls_error_ip_split:
  assumes "trim_space line = pre @ tls_marker @ addr @ '': '' @ msg" "index_sub tls_marker (trim_space line) = Some (length pre)"
    and "\<forall>c \<in> set addr. \<not> is_space c" "split_host_port addr = Some (ip, q)"
  shows "tls_error_ip line = Some ip"
proof -
  have "trim_space addr = addr" using assms(3) by (intro trim_space_id) blast
  with colon_space_first [OF assms(3), of msg] assms show ?thesis by (simp add: tls_error_ip_def)
qed

text \<open>The line \<^verbatim>\<open>log.Logger\<close> writes for a failed handshake of \<open>addr\<close>; \<open>msg\<close> ends in a printable character.\<close>

definition handshake_line :: "string \<Rightarrow> string \<Rightarrow> string" where
  "handshake_line addr msg = ''http: '' @ tls_marker @ addr @ '': '' @ msg @ [char_of (10 :: nat)]"

lemma trim_handshake_line:
  assumes "msg \<noteq> []" "\<not> is_space (last msg)"
  shows "trim_space (handshake_line addr msg) = ''http: '' @ tls_marker @ addr @ '': '' @ msg"
proof -
  obtain m c where m: "msg = m @ [c]" using assms(1) by (metis append_butlast_last_id)
  have "\<not> is_space (CHR ''h'')" "is_space (char_of (10 :: nat))" "\<not> is_space c"
    using assms m by (simp_all add: is_space_def)
  then show ?thesis by (simp add: trim_space_def handshake_line_def m)
qed

lemma marker_first: "index_sub tls_marker (''http: '' @ tls_marker @ b) = Some 6"
proof -
  have "\<not> has_prefix (drop i (''http: '' @ tls_marker @ b)) tls_marker" if "i < length ''http: ''" for i
  proof -
    from that have "i \<in> {0, 1, 2, 3, 4, 5}" by auto
    then show ?thesis by (auto simp: has_prefix_def tls_marker_def)
  qed
  from index_sub_first [OF this] show ?thesis by simp
qed

text \<open>
  A failed TLS handshake is charged to the address that made it: from the line net/http logs, for IPv4 and
  IPv6 addresses, any port and any error text, exactly the client's address is recovered.
\<close>

lemma handshake_attribution:
  assumes "CHR ''['' \<notin> set ip" "CHR '']'' \<notin> set ip" "\<forall>c \<in> set ip. \<not> is_space c" "msg \<noteq> []" "\<not> is_space (last msg)"
  shows "tls_error_ip (handshake_line (join_host_port ip (itoa port)) msg) = Some ip"
proof (rule tls_error_ip_split)
  show "trim_space (handshake_line (join_host_port ip (itoa port)) msg) =
      ''http: '' @ tls_marker @ join_host_port ip (itoa port) @ '': '' @ msg"
    by (rule trim_handshake_line [OF assms(4,5)])
  then show "index_sub tls_marker (trim_space (handshake_line (join_host_port ip (itoa port)) msg)) = Some (length ''http: '')"
    using marker_first by simp
  show "\<forall>c \<in> set (join_host_port ip (itoa port)). \<not> is_space c"
    using assms(3) itoa_plain(5) [of _ port] by (auto simp: join_host_port_def is_space_def)
  show "split_host_port (join_host_port ip (itoa port)) = Some (ip, itoa port)"
    using assms(1,2) itoa_plain(2-4) [of _ port] by (intro split_join_host_port) blast+
qed

lemma handshake_attribution_witness:
  "tls_error_ip (handshake_line (join_host_port ''::1'' (itoa 5)) ''EOF'') = Some ''::1''"
  by (rule handshake_attribution) (simp_all add: is_space_def)

section \<open>Host names with capital letters\<close>

text \<open>
  A route whose host has a capital letter is never reached: the router lower-cases the Host header, the
  table keeps the host as it was configured.
\<close>

lemma capital_host_unreachable:
  assumes "to_lower host \<noteq> host"
  shows "route_key r \<noteq> (host, port)"
proof -
  have "fst (route_key r) = to_lower (fst (route_key r))" by (simp add: route_key_def split: option.split prod.split)
  with assms show ?thesis by auto
qed

lemma capital_host_unreachable_witness: "route_key (get_request ''Shop.lan'' ''/'' ''10.0.0.9:5'') \<noteq> (''Shop.lan'', ''80'')"
proof -
  have "to_lower ''Shop.lan'' \<noteq> ''Shop.lan''" by code_simp
  then show ?thesis by (rule capital_host_unreachable)
qed

end
