(* ===== verification/Migrations.thy ===== *)
theory Migrations
  imports Schema "HOL-Library.AList"
begin

text \<open>
  storage/storage.go: opening the database. The SQL engine behind the migration statements is a
  parameter: \<open>engine\<close> runs one statement on a schema of any type \<open>'d\<close> and says which tables and columns
  there are. The tracking table \<^verbatim>\<open>schema_migrations\<close> is explicit. \<open>splitSQL\<close> is modelled on characters.
\<close>

section \<open>Splitting a script\<close>

definition depth_after :: "string \<Rightarrow> int \<Rightarrow> int" where
  "depth_after line depth =
     (let upper = to_upper (trim_space line)
      in if upper = ''BEGIN'' then depth + 1 else if upper = ''END'' \<or> upper = ''END;'' then depth - 1 else depth)"

definition emit :: "string \<Rightarrow> string list \<Rightarrow> string list" where
  "emit buf stmts = (let stmt = trim_space buf in if stmt \<noteq> [] \<and> stmt \<noteq> '';'' then stmts @ [stmt] else stmts)"

fun split_loop :: "string list \<Rightarrow> int \<Rightarrow> string \<Rightarrow> string list \<Rightarrow> string list" where
  "split_loop [] depth buf stmts = (let stmt = trim_space buf in if stmt \<noteq> [] then stmts @ [stmt] else stmts)"
| "split_loop (line # rest) depth buf stmts =
     (let d = depth_after line depth; b = buf @ line @ [CHR 0x0A]
      in if d = 0 \<and> has_suffix (trim_space line) '';'' then split_loop rest d [] (emit b stmts)
         else split_loop rest d b stmts)"

definition splitSQL :: "string \<Rightarrow> string list" where
  "splitSQL s = split_loop (split_on (CHR 0x0A) s) 0 [] []"

section \<open>Applying migrations\<close>

record 'd engine =
  exec :: "string \<Rightarrow> 'd \<Rightarrow> 'd option"
  has_table :: "'d \<Rightarrow> string \<Rightarrow> bool"
  columns :: "'d \<Rightarrow> string \<Rightarrow> string list option"

record 'd opened =
  tracked :: "(int \<times> string) list"
  schema :: 'd

text \<open>A failing statement leaves the effect of the ones before it: there is no transaction.\<close>

fun exec_all :: "'d engine \<Rightarrow> string list \<Rightarrow> 'd \<Rightarrow> 'd \<times> bool" where
  "exec_all E [] d = (d, True)"
| "exec_all E (s # ss) d = (case exec E s d of None \<Rightarrow> (d, False) | Some d' \<Rightarrow> exec_all E ss d')"

definition columnExists :: "'d engine \<Rightarrow> 'd \<Rightarrow> string \<Rightarrow> string \<Rightarrow> bool" where
  "columnExists E d tab col = (case columns E d tab of None \<Rightarrow> False | Some cs \<Rightarrow> col \<in> set cs)"

definition bootstrap_checks :: "'d engine \<Rightarrow> 'd \<Rightarrow> (int \<times> string \<times> bool) list" where
  "bootstrap_checks E d =
     [(1, ''001_initial_schema.sql'', True),
      (2, ''002_access_control.sql'', columnExists E d ''proxy_routes'' ''allowed_groups''),
      (3, ''003_allowed_ips.sql'', columnExists E d ''proxy_routes'' ''allowed_ips''),
      (4, ''004_ip_session_auth.sql'', columnExists E d ''proxy_routes'' ''ip_auth''),
      (5, ''005_session_duration.sql'', columnExists E d ''proxy_routes'' ''session_duration'')]"

definition track :: "int \<Rightarrow> string \<Rightarrow> 'd opened \<Rightarrow> 'd opened" where
  \<comment> \<open>\<^verbatim>\<open>INSERT OR IGNORE\<close>: the version is the primary key\<close>
  "track v name st = (if v \<in> fst ` set (tracked st) then st else st\<lparr>tracked := tracked st @ [(v, name)]\<rparr>)"

fun mark_applied :: "lib \<Rightarrow> (int \<times> string \<times> bool) list \<Rightarrow> 'd opened \<Rightarrow> 'd opened \<times> (err + unit)" where
  "mark_applied L [] st = (st, Inr ())"
| "mark_applied L ((v, name, applied) # cs) st =
     (if \<not> applied then mark_applied L cs st
      else if db_fault L ''bootstrapMigrations'' then (st, Inl (Msg (''bootstrap v'' @ itoa v)))
      else mark_applied L cs (track v name st))"

definition bootstrapMigrations :: "lib \<Rightarrow> 'd engine \<Rightarrow> 'd opened \<Rightarrow> 'd opened \<times> (err + unit)" where
  "bootstrapMigrations L E st =
     (if tracked st \<noteq> [] then (st, Inr ())
      else if \<not> has_table E (schema st) ''proxy_routes'' then (st, Inr ())
      else mark_applied L (bootstrap_checks E (schema st)) st)"

text \<open>One entry of the embedded directory: its name and text. A name without a number is skipped.\<close>

definition migration_version :: "string \<Rightarrow> int option" where
  "migration_version name =
     (if has_suffix name ''.sql'' then atoi (before_byte (CHR ''_'') name) else None)"

definition apply_migration ::
  "lib \<Rightarrow> 'd engine \<Rightarrow> string \<times> string \<Rightarrow> 'd opened \<Rightarrow> 'd opened \<times> (err + unit)" where
  "apply_migration L E = (\<lambda>(name, sql) st.
     (case migration_version name of
        None \<Rightarrow> (st, Inr ())
      | Some v \<Rightarrow>
          if v \<in> fst ` set (tracked st) then (st, Inr ())
          else let (d, ok) = exec_all E (splitSQL sql) (schema st); st1 = st\<lparr>schema := d\<rparr>
            in if \<not> ok then (st1, Inl (Msg (''apply migration '' @ name)))
               else if db_fault L ''runMigrations.record'' then (st1, Inl (Msg (''record migration '' @ name)))
               else (st1\<lparr>tracked := tracked st1 @ [(v, name)]\<rparr>, Inr ())))"

fun apply_all :: "lib \<Rightarrow> 'd engine \<Rightarrow> (string \<times> string) list \<Rightarrow> 'd opened \<Rightarrow> 'd opened \<times> (err + unit)" where
  "apply_all L E [] st = (st, Inr ())"
| "apply_all L E (f # fs) st =
     (case apply_migration L E f st of (st', Inl e) \<Rightarrow> (st', Inl e) | (st', Inr u) \<Rightarrow> apply_all L E fs st')"

definition runMigrations ::
  "lib \<Rightarrow> 'd engine \<Rightarrow> (string \<times> string) list \<Rightarrow> 'd opened \<Rightarrow> 'd opened \<times> (err + unit)" where
  "runMigrations L E files st =
     (if db_fault L ''runMigrations.create'' then (st, Inl (Msg ''create schema_migrations''))
      else case bootstrapMigrations L E st of
          (st', Inl e) \<Rightarrow> (st', Inl (Msg ''bootstrap migrations''))
        | (st', Inr u) \<Rightarrow> apply_all L E files st')"

section \<open>Scripts split into their statements\<close>

text \<open>
  \<open>block d ls\<close>: from depth \<open>d\<close>, the lines \<open>ls\<close> are one statement: only the last one is at depth 0 and ends
  with a semicolon. The body of a trigger is inside.
\<close>

fun block :: "int \<Rightarrow> string list \<Rightarrow> bool" where
  "block d [] = False"
| "block d [l] = (depth_after l d = 0 \<and> has_suffix (trim_space l) '';'')"
| "block d (l # ls) = (\<not> (depth_after l d = 0 \<and> has_suffix (trim_space l) '';'') \<and> block (depth_after l d) ls)"

definition lines_text :: "string list \<Rightarrow> string" where
  "lines_text ls = concat (map (\<lambda>l. l @ [CHR 0x0A]) ls)"

lemma split_loop_block:
  "block d ls \<Longrightarrow> split_loop (ls @ rest) d buf stmts = split_loop rest 0 [] (emit (buf @ lines_text ls) stmts)"
proof (induction d ls arbitrary: buf rule: block.induct)
  case (2 d l)
  then show ?case by (simp add: lines_text_def Let_def)
next
  case (3 d l l' ls)
  then have more: "\<not> (depth_after l d = 0 \<and> has_suffix (trim_space l) '';'')" and b: "block (depth_after l d) (l' # ls)"
    by simp_all
  define m where "m = (l' # ls) @ rest"
  have "split_loop (l # m) d buf stmts = split_loop m (depth_after l d) (buf @ l @ [CHR 0x0A]) stmts"
    using more by (auto simp: Let_def)
  also have "\<dots> = split_loop rest 0 [] (emit ((buf @ l @ [CHR 0x0A]) @ lines_text (l' # ls)) stmts)"
    unfolding m_def by (rule 3(1) [OF b])
  finally show ?case unfolding m_def by (simp only: append_Cons append_assoc lines_text_def list.map concat.simps)
qed simp

lemma split_loop_blocks:
  "(\<And>b. b \<in> set bs \<Longrightarrow> block 0 b \<and> trim_space (lines_text b) \<noteq> [] \<and> trim_space (lines_text b) \<noteq> '';'') \<Longrightarrow>
   split_loop (concat bs @ rest) 0 [] stmts = split_loop rest 0 [] (stmts @ map (\<lambda>b. trim_space (lines_text b)) bs)"
proof (induction bs arbitrary: stmts)
  case (Cons b bs)
  have b: "block 0 b" "trim_space (lines_text b) \<noteq> []" "trim_space (lines_text b) \<noteq> '';''" using Cons.prems by auto
  have "split_loop (b @ concat bs @ rest) 0 [] stmts = split_loop (concat bs @ rest) 0 [] (stmts @ [trim_space (lines_text b)])"
    unfolding split_loop_block [OF b(1)] using b(2,3) by (simp add: emit_def Let_def)
  then show ?case using Cons.IH [of "stmts @ [trim_space (lines_text b)]"] Cons.prems by simp
qed simp

lemma split_on_lines:
  assumes "ls \<noteq> []" "\<And>l. l \<in> set ls \<Longrightarrow> CHR 0x0A \<notin> set l"
  shows "split_on (CHR 0x0A) (join_with [CHR 0x0A] ls) = ls"
  using assms by (intro split_join)

text \<open>
  A script as its author means it. A simple statement is any number of lines and a last one that ends with a
  semicolon. A trigger is its header, \<^verbatim>\<open>BEGIN\<close> on a line of its own, the statements of its body, and a line
  \<^verbatim>\<open>END;\<close>. The three keywords stand on lines of their own nowhere else.
\<close>

datatype sql_statement = Simple "string list" string | Trigger "string list" "string list"

fun statement_lines :: "sql_statement \<Rightarrow> string list" where
  "statement_lines (Simple ls l) = ls @ [l]"
| "statement_lines (Trigger header body) = header @ [''BEGIN''] @ body @ [''END;'']"

definition keyword_line :: "string \<Rightarrow> bool" where
  "keyword_line l \<longleftrightarrow> to_upper (trim_space l) \<in> {''BEGIN'', ''END'', ''END;''}"

definition ends_statement :: "string \<Rightarrow> bool" where
  "ends_statement l \<longleftrightarrow> has_suffix (trim_space l) '';''"

fun statement_ok :: "sql_statement \<Rightarrow> bool" where
  "statement_ok (Simple ls l) \<longleftrightarrow> list_all (\<lambda>x. \<not> keyword_line x \<and> \<not> ends_statement x) ls \<and> \<not> keyword_line l \<and> ends_statement l"
| "statement_ok (Trigger header body) \<longleftrightarrow> list_all (\<lambda>x. \<not> keyword_line x \<and> \<not> ends_statement x) header \<and>
     list_all (\<lambda>x. \<not> keyword_line x) body"

definition statement_text :: "sql_statement \<Rightarrow> string" where
  "statement_text p = trim_space (lines_text (statement_lines p))"

lemma depth_keeps [simp]: "\<not> keyword_line l \<Longrightarrow> depth_after l d = d"
  by (simp add: keyword_line_def depth_after_def Let_def)

lemma depth_keywords [simp]: "depth_after ''BEGIN'' d = d + 1" "depth_after ''END;'' d = d - 1"
proof -
  have "to_upper (trim_space ''BEGIN'') = ''BEGIN''" "to_upper (trim_space ''END;'') = ''END;''" by code_simp+
  then show "depth_after ''BEGIN'' d = d + 1" "depth_after ''END;'' d = d - 1" by (simp_all add: depth_after_def)
qed

lemma block_snoc: "list_all (\<lambda>x. \<not> keyword_line x \<and> (d = 0 \<longrightarrow> \<not> ends_statement x)) ls \<Longrightarrow> rest \<noteq> [] \<Longrightarrow> block d rest \<Longrightarrow> block d (ls @ rest)"
proof (induction ls)
  case (Cons l ls)
  then have "block d (ls @ rest)" "depth_after l d = d" "\<not> (d = 0 \<and> has_suffix (trim_space l) '';'')"
    by (auto simp: ends_statement_def)
  with Cons.prems(2) show ?case by (cases "ls @ rest") auto
qed simp

lemma block_statement:
  assumes "statement_ok p"
  shows "block 0 (statement_lines p)"
proof (cases p)
  case (Simple ls l)
  with assms have "block 0 [l]" by (simp add: ends_statement_def)
  with Simple assms show ?thesis by (auto intro!: block_snoc)
next
  case (Trigger header body)
  have "has_suffix (trim_space ''END;'') '';''" by code_simp
  then have "block 1 [''END;'']" by simp
  then have "block 1 (body @ [''END;''])" using Trigger assms by (intro block_snoc) auto
  then have "block 0 (''BEGIN'' # body @ [''END;''])" by (cases "body @ [''END;'']") simp_all
  then show ?thesis using Trigger assms by (auto intro!: block_snoc)
qed

text \<open>
  C39: a migration file is run statement by statement. A script that lists simple statements and triggers, each
  over as many lines as it needs, is split into exactly these statements, in order: a trigger stays whole,
  with the statements of its body, and nothing of the text is lost.
\<close>

theorem splitSQL_statements:
  assumes "\<And>p. p \<in> set ps \<Longrightarrow> statement_ok p \<and> statement_text p \<notin> {[], '';''}"
    and "ps \<noteq> []" "\<And>p l. p \<in> set ps \<Longrightarrow> l \<in> set (statement_lines p) \<Longrightarrow> CHR 0x0A \<notin> set l"
  shows "splitSQL (join_with [CHR 0x0A] (concat (map statement_lines ps))) = map statement_text ps"
proof -
  let ?bs = "map statement_lines ps"
  have "concat ?bs \<noteq> []" using assms(2) by (cases ps; cases "hd ps") auto
  then have "split_on (CHR 0x0A) (join_with [CHR 0x0A] (concat ?bs)) = concat ?bs"
    using assms(3) by (intro split_on_lines) auto
  moreover have "split_loop (concat ?bs @ []) 0 [] [] = split_loop [] 0 [] ([] @ map (\<lambda>b. trim_space (lines_text b)) ?bs)"
    using assms(1) block_statement by (intro split_loop_blocks) (auto simp: statement_text_def)
  ultimately show ?thesis by (simp add: splitSQL_def trim_space_def statement_text_def [abs_def] comp_def)
qed

text \<open>The trigger of the first migration and what follows it.\<close>

definition trigger_script :: "sql_statement list" where
  "trigger_script =
     [Trigger [[], ''CREATE TRIGGER IF NOT EXISTS proxy_routes_updated'', ''AFTER UPDATE ON proxy_routes FOR EACH ROW'']
        [''    UPDATE proxy_routes SET updated_at = CURRENT_TIMESTAMP WHERE id = OLD.id;''],
      Simple [[]] ''CREATE INDEX IF NOT EXISTS idx_routes_url     ON proxy_routes(url);'']"

theorem splitSQL_statements_witness:
  "length (splitSQL (join_with [CHR 0x0A] (concat (map statement_lines trigger_script)))) = 2"
proof -
  have "list_all (\<lambda>p. statement_ok p \<and> statement_text p \<notin> {[], '';''}) trigger_script"
    "list_all (\<lambda>p. list_all (\<lambda>l. CHR 0x0A \<notin> set l) (statement_lines p)) trigger_script" "trigger_script \<noteq> []" by code_simp+
  then have "splitSQL (join_with [CHR 0x0A] (concat (map statement_lines trigger_script))) = map statement_text trigger_script"
    by (intro splitSQL_statements) (auto simp: list_all_iff)
  then show ?thesis by (simp add: trigger_script_def)
qed

section \<open>Running them\<close>

lemma tracked_mono:
  "apply_all L E fs st = (st', r) \<Longrightarrow> fst ` set (tracked st) \<subseteq> fst ` set (tracked st')"
proof (induction fs arbitrary: st)
  case (Cons f fs)
  obtain st1 r1 where a: "apply_migration L E f st = (st1, r1)" by force
  then have "fst ` set (tracked st) \<subseteq> fst ` set (tracked st1)"
    by (cases f) (auto simp: apply_migration_def Let_def split: option.splits if_splits prod.splits)
  show ?case
  proof (cases r1)
    case (Inl e)
    with Cons.prems a \<open>_ \<subseteq> fst ` set (tracked st1)\<close> show ?thesis by simp
  next
    case (Inr u)
    with Cons.prems a have "apply_all L E fs st1 = (st', r)" by simp
    from Cons.IH [OF this] \<open>_ \<subseteq> fst ` set (tracked st1)\<close> show ?thesis by (rule subset_trans [rotated])
  qed
qed simp

lemma apply_migration_tracks:
  assumes "apply_migration L E (name, sql) st = (st', Inr ())" "migration_version name = Some v"
  shows "v \<in> fst ` set (tracked st')"
  using assms by (auto simp: apply_migration_def Let_def split: if_splits prod.splits)

lemma apply_all_tracks:
  "apply_all L E fs st = (st', Inr ()) \<Longrightarrow> (name, sql) \<in> set fs \<Longrightarrow> migration_version name = Some v \<Longrightarrow>
   v \<in> fst ` set (tracked st')"
proof (induction fs arbitrary: st)
  case (Cons f fs)
  obtain st1 where a: "apply_migration L E f st = (st1, Inr ())" "apply_all L E fs st1 = (st', Inr ())"
    using Cons.prems(1) by (auto split: prod.splits sum.splits)
  show ?case
  proof (cases "f = (name, sql)")
    case True
    with a(1) Cons.prems(3) have "v \<in> fst ` set (tracked st1)" by (auto intro: apply_migration_tracks)
    with tracked_mono [OF a(2)] show ?thesis by blast
  next
    case False
    with Cons a(2) show ?thesis by auto
  qed
qed simp

lemma apply_all_done:
  "(\<And>name sql v. (name, sql) \<in> set fs \<Longrightarrow> migration_version name = Some v \<Longrightarrow> v \<in> fst ` set (tracked st)) \<Longrightarrow>
   apply_all L E fs st = (st, Inr ())"
proof (induction fs)
  case (Cons f fs)
  obtain name sql where f: "f = (name, sql)" by (cases f)
  have "apply_migration L E f st = (st, Inr ())"
    using Cons.prems [of name sql] by (auto simp: f apply_migration_def split: option.split)
  with Cons show ?case by auto
qed simp

text \<open>
  Opening the database is idempotent. After a run of the migrations that succeeded, every numbered file
  is recorded, and a further run changes nothing and succeeds.
\<close>

lemma runMigrations_idempotent:
  assumes "runMigrations L E files st = (st', Inr ())" "(name0, sql0) \<in> set files" "migration_version name0 = Some v0"
  shows "(\<forall>(name, sql) \<in> set files. \<forall>v. migration_version name = Some v \<longrightarrow> v \<in> fst ` set (tracked st')) \<and>
    runMigrations L E files st' = (st', Inr ())"
proof -
  obtain st1 where run: "apply_all L E files st1 = (st', Inr ())" and nf: "\<not> db_fault L ''runMigrations.create''"
    using assms(1) by (auto simp: runMigrations_def split: if_splits prod.splits sum.splits)
  have t: "(name, sql) \<in> set files \<Longrightarrow> migration_version name = Some v \<Longrightarrow> v \<in> fst ` set (tracked st')" for name sql v
    using apply_all_tracks [OF run] by blast
  have "tracked st' \<noteq> []" using t [OF assms(2,3)] by auto
  moreover have "apply_all L E files st' = (st', Inr ())" using t by (rule apply_all_done)
  ultimately have "runMigrations L E files st' = (st', Inr ())" by (simp add: runMigrations_def bootstrapMigrations_def nf)
  with t show ?thesis by blast
qed

text \<open>An engine whose statements each add one column, which fails when it is there already.\<close>

definition column_engine :: "string list engine" where
  "column_engine = \<lparr>exec = (\<lambda>s d. if s \<in> set d then None else Some (d @ [s])), has_table = (\<lambda>d t. d \<noteq> []),
     columns = (\<lambda>d t. Some d)\<rparr>"

definition two_columns :: "(string \<times> string) list" where
  "two_columns = [(''001_x.sql'', ''ADD a;'' @ [CHR 0x0A] @ ''ADD b;'')]"

definition fresh_db :: "string list opened" where
  "fresh_db = \<lparr>tracked = [], schema = []\<rparr>"

lemma runMigrations_idempotent_witness:
  "\<exists>st'. runMigrations plain_lib column_engine two_columns fresh_db = (st', Inr ()) \<and>
     runMigrations plain_lib column_engine two_columns st' = (st', Inr ())"
proof -
  obtain st' res where r: "runMigrations plain_lib column_engine two_columns fresh_db = (st', res)" by force
  have "snd (runMigrations plain_lib column_engine two_columns fresh_db) = Inr ()" by code_simp
  with r have "runMigrations plain_lib column_engine two_columns fresh_db = (st', Inr ())" by simp
  moreover have "(''001_x.sql'', ''ADD a;'' @ [CHR 0x0A] @ ''ADD b;'') \<in> set two_columns"
    "migration_version ''001_x.sql'' = Some 1" by code_simp+
  ultimately show ?thesis using runMigrations_idempotent by blast
qed

section \<open>A migration that is interrupted\<close>

text \<open>
  The states of the database file that one entry goes through: every statement commits by itself, the record of
  the version last. A process that dies leaves one of them.
\<close>

fun durable_schemas :: "'d engine \<Rightarrow> string list \<Rightarrow> 'd \<Rightarrow> 'd list" where
  "durable_schemas E [] d = [d]"
| "durable_schemas E (s # ss) d = d # (case exec E s d of None \<Rightarrow> [] | Some d' \<Rightarrow> durable_schemas E ss d')"

definition durable :: "lib \<Rightarrow> 'd engine \<Rightarrow> string \<times> string \<Rightarrow> 'd opened \<Rightarrow> 'd opened list" where
  "durable L E f st =
     (case migration_version (fst f) of
        None \<Rightarrow> [st]
      | Some v \<Rightarrow>
          if v \<in> fst ` set (tracked st) then [st]
          else map (\<lambda>d. st\<lparr>schema := d\<rparr>) (durable_schemas E (splitSQL (snd f)) (schema st)) @
            (case apply_migration L E f st of (st', Inr u) \<Rightarrow> [st'] | (st', Inl e) \<Rightarrow> []))"

lemma durable_schemas_last: "durable_schemas E ss d \<noteq> [] \<and> last (durable_schemas E ss d) = fst (exec_all E ss d)"
  by (induction ss arbitrary: d) (auto split: option.split)

text \<open>They end where the whole run of the entry ends.\<close>

lemma durable_last: "last (durable L E f st) = fst (apply_migration L E f st)"
proof (cases "apply_migration L E f st")
  case (Pair st' res)
  show ?thesis
  proof (cases "migration_version (fst f)")
    case (Some v)
    show ?thesis
    proof (cases "v \<in> fst ` set (tracked st)")
      case True
      with Some show ?thesis by (cases f) (simp add: durable_def apply_migration_def)
    next
      case new: False
      show ?thesis
      proof (cases res)
        case (Inl e)
        with new Pair Some have "st' = st\<lparr>schema := fst (exec_all E (splitSQL (snd f)) (schema st))\<rparr>"
          by (cases f) (auto simp: apply_migration_def Let_def split: prod.splits if_splits)
        with new Pair Some Inl show ?thesis
          using durable_schemas_last [of E "splitSQL (snd f)" "schema st"] by (simp add: durable_def last_map)
      qed (use new Pair Some in \<open>simp add: durable_def\<close>)
    qed
  qed (use Pair in \<open>cases f, auto simp: durable_def apply_migration_def\<close>)
qed

lemma durable_schemas_prefix:
  "snd (exec_all E (take k ss) d) \<Longrightarrow> fst (exec_all E (take k ss) d) \<in> set (durable_schemas E ss d)"
proof (induction ss arbitrary: k d)
  case (Cons s ss)
  then show ?case by (cases k) (auto split: option.splits)
qed simp

text \<open>
  What SQLite documents of \<^verbatim>\<open>ALTER TABLE ADD COLUMN\<close>: the column is there afterwards, and adding one that is
  there fails. Statements that keep a column leave it in its table.
\<close>

definition adds_column :: "'d engine \<Rightarrow> string \<Rightarrow> string \<Rightarrow> string \<Rightarrow> bool" where
  "adds_column E s tab col \<longleftrightarrow> (\<forall>d d'. exec E s d = Some d' \<longrightarrow> columnExists E d' tab col) \<and>
     (\<forall>d. columnExists E d tab col \<longrightarrow> exec E s d = None)"

definition keeps_column :: "'d engine \<Rightarrow> string \<Rightarrow> string \<Rightarrow> string \<Rightarrow> bool" where
  "keeps_column E s tab col \<longleftrightarrow> (\<forall>d d'. exec E s d = Some d' \<longrightarrow> columnExists E d tab col \<longrightarrow> columnExists E d' tab col)"

lemma exec_all_keeps:
  "columnExists E d tab col \<Longrightarrow> \<forall>s \<in> set ss. keeps_column E s tab col \<Longrightarrow> columnExists E (fst (exec_all E ss d)) tab col"
  by (induction ss arbitrary: d) (auto simp: keeps_column_def split: option.split)

lemma apply_all_skips:
  "\<forall>f \<in> set fs. \<forall>v. migration_version (fst f) = Some v \<longrightarrow> v \<in> fst ` set (tracked st) \<Longrightarrow>
   apply_all L E (fs @ gs) st = apply_all L E gs st"
  by (induction fs) (auto simp: apply_migration_def split: option.split)

text \<open>
  C40: a migration is not atomic. When a file begins with \<^verbatim>\<open>ALTER TABLE ADD COLUMN\<close>, as seven of the migrations do,
  and the process dies after any number of its statements and before the file is recorded, that
  half-migrated state is one that the run leaves on disk, and every later start fails on the duplicate column
  and changes nothing: the program never starts again on this database.
\<close>

theorem interrupted_migration_stuck:
  assumes "migration_version name = Some v" "v \<notin> fst ` set (tracked st)" "tracked st \<noteq> []"
    and "splitSQL sql = s # ss" "adds_column E s tab col" "\<forall>t \<in> set ss. keeps_column E t tab col"
    and "1 \<le> k" "exec_all E (take k (splitSQL sql)) (schema st) = (d, True)"
    and "\<forall>f \<in> set earlier. \<forall>v. migration_version (fst f) = Some v \<longrightarrow> v \<in> fst ` set (tracked st)"
    and "\<not> db_fault L ''runMigrations.create''"
  shows "st\<lparr>schema := d\<rparr> \<in> set (durable L E (name, sql) st) \<and>
    last (durable L E (name, sql) st) = fst (apply_migration L E (name, sql) st) \<and>
    runMigrations L E (earlier @ (name, sql) # later) (st\<lparr>schema := d\<rparr>) =
      (st\<lparr>schema := d\<rparr>, Inl (Msg (''apply migration '' @ name)))"
proof (intro conjI)
  show "st\<lparr>schema := d\<rparr> \<in> set (durable L E (name, sql) st)"
    using durable_schemas_prefix [of E k "splitSQL sql" "schema st"] assms(1,2,8) by (auto simp: durable_def)
  obtain n where n: "k = Suc n" using assms(7) by (cases k) auto
  with assms(4,8) obtain d1 where d1: "exec E s (schema st) = Some d1" "d = fst (exec_all E (take n ss) d1)"
    by (auto split: option.splits)
  have "columnExists E d1 tab col" using assms(5) d1(1) by (auto simp: adds_column_def)
  then have "columnExists E d tab col"
    unfolding d1(2) using assms(6) set_take_subset [of n ss] by (intro exec_all_keeps) auto
  then have "exec E s d = None" using assms(5) by (auto simp: adds_column_def)
  then have "apply_all L E ((name, sql) # later) (st\<lparr>schema := d\<rparr>) = (st\<lparr>schema := d\<rparr>, Inl (Msg (''apply migration '' @ name)))"
    using assms(1,2,4) by (simp add: apply_migration_def)
  then show "runMigrations L E (earlier @ (name, sql) # later) (st\<lparr>schema := d\<rparr>) =
      (st\<lparr>schema := d\<rparr>, Inl (Msg (''apply migration '' @ name)))"
    using apply_all_skips [of earlier "st\<lparr>schema := d\<rparr>" L E "(name, sql) # later"] assms(3,9,10)
    by (simp add: runMigrations_def bootstrapMigrations_def)
qed (rule durable_last)

definition old_db :: "string list opened" where
  "old_db = \<lparr>tracked = [(1, ''001_x.sql'')], schema = []\<rparr>"

theorem interrupted_migration_stuck_witness:
  "runMigrations plain_lib column_engine [(''002_y.sql'', ''ADD a;'' @ [CHR 0x0A] @ ''ADD b;'')] (old_db\<lparr>schema := [''ADD a;'']\<rparr>) =
   (old_db\<lparr>schema := [''ADD a;'']\<rparr>, Inl (Msg (''apply migration '' @ ''002_y.sql'')))"
proof -
  have "splitSQL (''ADD a;'' @ [CHR 0x0A] @ ''ADD b;'') = [''ADD a;'', ''ADD b;'']" "migration_version ''002_y.sql'' = Some 2"
    "(2 :: int) \<notin> fst ` set (tracked old_db)" "tracked old_db \<noteq> []" by code_simp+
  moreover have "exec_all column_engine (take 1 [''ADD a;'', ''ADD b;'']) (schema old_db) = ([''ADD a;''], True)" by code_simp
  moreover have "adds_column column_engine ''ADD a;'' ''r'' ''ADD a;''" "keeps_column column_engine ''ADD b;'' ''r'' ''ADD a;''"
    by (auto simp: adds_column_def keeps_column_def column_engine_def columnExists_def split: if_splits)
  ultimately show ?thesis
    using interrupted_migration_stuck [where k = 1 and earlier = "[]" and later = "[]" and L = plain_lib and E = column_engine and st = old_db]
    by (simp add: plain_lib_def)
qed

end
