(* ===== verification/Boot.thy ===== *)
theory Boot
  imports Migrations ApiCore
begin

text \<open>
  config.go and main.go, with \<^verbatim>\<open>storage.New\<close>: from a decoded configuration file to the running \<open>site\<close>.
  The TOML decoder, \<^verbatim>\<open>sql.Open\<close> and the outcome of the migrations are arguments. Telemetry and logging
  are the theory \<open>Telemetry\<close>.
\<close>

section \<open>Configuration\<close>

record page_config =
  pc_enabled :: bool
  pc_url :: string
  pc_target :: string
  pc_tls :: bool
  pc_cert :: string
  pc_key :: string

record otel_config =
  oc_enabled :: bool
  oc_endpoint :: string
  oc_name :: string
  oc_interval :: int
  oc_runtime :: int

record config =
  cf_web :: page_config
  cf_db :: string
  cf_admin :: page_config
  cf_otel :: otel_config
  cf_routes :: "ConfigRoute list"

definition default_str :: "string \<Rightarrow> string \<Rightarrow> string" where
  "default_str d s = (if s = [] then d else s)"

definition default_pos :: "int \<Rightarrow> int \<Rightarrow> int" where
  "default_pos d n = (if n \<le> 0 then d else n)"

definition validateConfig :: "config \<Rightarrow> config" where
  "validateConfig c = c
     \<lparr>cf_web := (cf_web c)\<lparr>pc_url := default_str ''localhost:8080'' (pc_url (cf_web c)),
        pc_target := default_str ''./www/auth'' (pc_target (cf_web c))\<rparr>,
      cf_db := default_str ''./remazarin.db'' (cf_db c),
      cf_admin := (cf_admin c)\<lparr>pc_url := default_str ''localhost:8081'' (pc_url (cf_admin c)),
        pc_target := default_str ''./www/admin'' (pc_target (cf_admin c))\<rparr>,
      cf_otel := (cf_otel c)\<lparr>oc_name := default_str ''remazarin'' (oc_name (cf_otel c)),
        oc_interval := default_pos 15 (oc_interval (cf_otel c)),
        oc_runtime := default_pos 30 (oc_runtime (cf_otel c))\<rparr>\<rparr>"

definition page_route :: "page_config \<Rightarrow> ConfigRoute" where
  "page_route p = \<lparr>cr_url = pc_url p, cr_target = pc_target p, cr_type = ''static'', cr_tls = pc_tls p,
     cr_cert = pc_cert p, cr_key = pc_key p\<rparr>"

definition generateAuthAdm :: "config \<Rightarrow> config" where
  "generateAuthAdm c =
     (let c1 = (if pc_enabled (cf_web c) then c\<lparr>cf_routes := cf_routes c @ [page_route (cf_web c)]\<rparr> else c)
      in if pc_enabled (cf_admin c1) then c1\<lparr>cf_routes := cf_routes c1 @ [page_route (cf_admin c1)]\<rparr> else c1)"

definition loadConfig :: "config option \<Rightarrow> err + config" where
  "loadConfig decoded =
     (case decoded of
        None \<Rightarrow> Inl (Msg ''decode config'')
      | Some c \<Rightarrow> Inr (generateAuthAdm (validateConfig c)))"

section \<open>Opening the storage\<close>

definition dsn :: "string \<Rightarrow> string" where
  "dsn path = path @ (if CHR ''?'' \<in> set path then ''&'' else ''?'') @
     ''_pragma=busy_timeout(5000)&_pragma=journal_mode(WAL)&_pragma=foreign_keys(1)''"

text \<open>The results of \<^verbatim>\<open>sql.Open\<close> and of the migrations, and the database they leave.\<close>

definition New :: "lib \<Rightarrow> time \<Rightarrow> err + unit \<Rightarrow> err + unit \<Rightarrow> db \<Rightarrow> db \<times> (err + unit)" where
  "New L now opening migrated d =
     (case opening of
        Inl e \<Rightarrow> (d, Inl (Msg ''open database''))
      | Inr u \<Rightarrow>
          (case migrated of
             Inl e \<Rightarrow> (d, Inl (Msg ''run migrations''))
           | Inr u \<Rightarrow> (seedAdmin L now d, Inr ())))"

section \<open>Starting\<close>

definition InjectAPI :: "config \<Rightarrow> string \<Rightarrow> bool" where
  "InjectAPI c url \<longleftrightarrow> url = pc_url (cf_web c) \<or> url = pc_url (cf_admin c)"

definition proxy_route :: "config \<Rightarrow> route \<Rightarrow> ProxyRoute" where
  "proxy_route c r = \<lparr>pr_url = rt_url r, pr_target = rt_target r, pr_type = rt_type r, pr_tls = rt_tls r,
     pr_cert = rt_cert r, pr_key = rt_key r, pr_inject = InjectAPI c (rt_url r)\<rparr>"

definition protect_admin :: "lib \<Rightarrow> time \<Rightarrow> config \<Rightarrow> db \<Rightarrow> db" where
  "protect_admin L now c d =
     (if pc_enabled (cf_admin c) then fst (EnsureRouteGroup L now d (pc_url (cf_admin c)) ''admin'') else d)"

text \<open>
  \<open>run\<close>, from the loaded configuration to the call of \<^verbatim>\<open>StartProxy\<close>. An error ends the process, and the
  deferred stop function writes the queued log entries first. The routes are read three times, by the two
  refreshes of the cache and for the proxy; the refreshes log an error and go on, so each read has a fault of
  its own.
\<close>

definition run :: "lib \<Rightarrow> time \<Rightarrow> config option \<Rightarrow> err + unit \<Rightarrow> err + unit \<Rightarrow> db \<Rightarrow> db \<times> (err + site)" where
  "run L now decoded opening migrated d0 =
     (case loadConfig decoded of
        Inl e \<Rightarrow> (d0, Inl (Msg ''load config''))
      | Inr c \<Rightarrow>
          (case InitBuiltin [] of
             Inl e \<Rightarrow> (d0, Inl (Msg ''init builtin api''))
           | Inr reg0 \<Rightarrow>
               (case InitApi reg0 of
                  Inl e \<Rightarrow> (d0, Inl (Msg ''init api''))
                | Inr reg \<Rightarrow>
                    (case New L now opening migrated d0 of
                       (d1, Inl e) \<Rightarrow> (d1, Inl (Msg ''open storage''))
                     | (d1, Inr u) \<Rightarrow>
                         (let w1 = InitAuth (in_call ''InitAuth'' L) now (world0 d1);
                              (d2, synced) = SyncRoutes L now (dbase w1) (cf_routes c)
                          in case synced of
                               Inl e \<Rightarrow> (dbase (stop_auth L now (w1\<lparr>dbase := d2\<rparr>)), Inl (Msg ''sync routes''))
                             | Inr u \<Rightarrow>
                                 (let w2 = RefreshCache (in_call ''RefreshCache'' L) now (w1\<lparr>dbase := protect_admin L now c d2\<rparr>)
                                  in case GetAllRoutes L (dbase w2) of
                                       Inl e \<Rightarrow> (dbase (stop_auth L now w2), Inl (Msg ''get routes''))
                                     | Inr rs \<Rightarrow>
                                         (case StartProxy L reg (oc_enabled (cf_otel c)) (map (proxy_route c) rs) of
                                            Inl e \<Rightarrow> (dbase (stop_auth L now w2), Inl (Msg ''start proxy''))
                                          | Inr px \<Rightarrow> (dbase w2, Inr
                                              \<lparr>s_world = w2, s_proxy = px, s_registry = reg,
                                               s_authURL = (if pc_tls (cf_web c) then ''https'' else ''http'') @ ''://'' @
                                                 pc_url (cf_web c),
                                               s_cert = pc_cert (cf_web c), s_key = pc_key (cf_web c), s_wired = True\<rparr>))))))))"

text \<open>
  What ends \<^verbatim>\<open>cleanShutdown\<close>'s first wait: whether the HTTP servers are shut down, and its result. Of the
  cases that are ready, \<^verbatim>\<open>select\<close> takes any.
\<close>

datatype shutdown_cause = CtxDone | ListenerError err | AllFinished

definition shutdown_causes :: "bool \<Rightarrow> err list \<Rightarrow> bool \<Rightarrow> shutdown_cause list" where
  "shutdown_causes cancelled errs finished =
     (if cancelled then [CtxDone] else []) @ (case errs of [] \<Rightarrow> [] | e # _ \<Rightarrow> [ListenerError e]) @
     (if finished then [AllFinished] else [])"

fun cleanShutdown :: "shutdown_cause \<Rightarrow> bool \<times> err option" where
  "cleanShutdown CtxDone = (True, None)"
| "cleanShutdown (ListenerError e) = (True, Some e)"
| "cleanShutdown AllFinished = (False, None)"

end
