(* ===== verification/System.thy ===== *)
theory System
  imports RawRelay Gateway Boot
begin

text \<open>
  The running program as a transition system over \<open>site\<close>: it is started by \<open>run\<close>, and then requests,
  connections, datagrams, failed handshakes, the five-minute tick and the log drain change it, in any order.
  A step is one whole handler; handlers that overlap are interleaved at that grain.
\<close>

definition set_world :: "world \<Rightarrow> site \<Rightarrow> site" where
  "set_world w s = s\<lparr>s_world := w\<rparr>"

inductive site_step :: "lib \<Rightarrow> site \<Rightarrow> site \<Rightarrow> bool" for L where
  request: "serve_route L now rnd r s = (out, s') \<Longrightarrow> site_step L s s'"
| connection: "map_of (px_tcp (s_proxy s)) port = Some (target, url) \<Longrightarrow>
    handleTCPConn L now addr dial target url (s_world s) = (res, w) \<Longrightarrow> site_step L s (set_world w s)"
| datagram: "udp_packet L now key dial (u, s_world s) = (res, (u', w)) \<Longrightarrow> site_step L s (set_world w s)"
| handshake: "site_step L s (set_world (tlsErrWriter_Write L now port line (s_world s)) s)"
| tick: "site_step L s (set_world (auth_tick L now (s_world s)) s)"
| drain: "site_step L s (set_world (drain_log L now (s_world s)) s)"

text \<open>The driver's failures come and go: the start and every step meet a driver with faults of their own.\<close>

definition any_step :: "lib \<Rightarrow> site \<Rightarrow> site \<Rightarrow> bool" where
  "any_step L s s' \<longleftrightarrow> (\<exists>f. site_step (with_faults f L) s s')"

inductive reachable :: "lib \<Rightarrow> site \<Rightarrow> bool" for L where
  started: "run (with_faults f L) now decoded opening migrated d0 = (d, Inr s) \<Longrightarrow> db_ok d0 \<Longrightarrow> reachable L s"
| step: "reachable L s \<Longrightarrow> any_step L s s' \<Longrightarrow> reachable L s'"

section \<open>The invariant\<close>

text \<open>With \<open>c\<close>, the cache is filled as well; each refresh of the start may fail, so this is not always so.\<close>

definition site_ok :: "bool \<Rightarrow> site \<Rightarrow> bool" where
  "site_ok c s \<longleftrightarrow> world_ok (s_world s) \<and> authStore (s_world s) \<and> (c \<longrightarrow> authCache (s_world s) \<noteq> None) \<and> guarded (s_proxy s)"

definition gate_on :: "bool \<Rightarrow> world \<Rightarrow> bool" where
  "gate_on c w \<longleftrightarrow> world_ok w \<and> authStore w \<and> (c \<longrightarrow> authCache w \<noteq> None)"

lemma site_ok_world: "site_ok c s \<longleftrightarrow> gate_on c (s_world s) \<and> guarded (s_proxy s)"
  by (auto simp: site_ok_def gate_on_def)

lemma gate_on_policy: "gate_on c w \<Longrightarrow> world_ok w' \<Longrightarrow> policy_state w' = policy_state w \<Longrightarrow> gate_on c w'"
  by (simp add: gate_on_def policy_state_def)

lemma refresh_gate_on: "gate_on c w \<Longrightarrow> gate_on c (refreshCache L now w)"
  using refreshCache_ok [of w L now] by (simp add: gate_on_def refreshCache_def split: sum.split)

lemma tick_gate_on: "gate_on c w \<Longrightarrow> gate_on c (auth_tick L now w)"
  using refresh_gate_on [of c w L now] auth_tick_ok [of w L now]
  by (simp add: gate_on_def auth_tick_def Let_def)

lemma drain_gate_on: "gate_on c w \<Longrightarrow> gate_on c (drain_log L now w)"
  using drain_log_ok [of w L now] by (simp add: gate_on_def drain_log_def split: list.splits)

lemma handshake_gate_on: "gate_on c w \<Longrightarrow> gate_on c (tlsErrWriter_Write L now port line w)"
  by (rule gate_on_policy [of c w])
    (simp_all add: tlsErrWriter_Write_def config_frame record_event_ok record_failure_ok gate_on_def split: option.split)

lemma authorizeIP_config [config_frame]: "policy_state (snd (authorizeIP L now url ip w)) = policy_state w"
  by (simp add: authorizeIP_def Let_def config_frame split: option.split sum.split)

lemma raw_config [config_frame]:
  "policy_state (raw_reject L now ip url w) = policy_state w" "policy_state (signed_in now ip u w) = policy_state w"
  by (simp_all add: raw_reject_def signed_in_def config_frame)

lemma connection_gate_on:
  assumes "gate_on c w"
  shows "gate_on c (snd (handleTCPConn L now addr dial t url w))"
proof (rule gate_on_policy [OF assms])
  show "world_ok (snd (handleTCPConn L now addr dial t url w))"
    using assms by (intro handleTCPConn_ok) (simp add: gate_on_def)
  obtain b w1 where b: "check_banned now (client_ip addr) w = (b, w1)" by force
  with world_config(4) [of now "client_ip addr" w] have w1: "policy_state w1 = policy_state w" by simp
  obtain res w2 where a: "authorizeIP L now url (client_ip addr) w1 = (res, w2)" by force
  with authorizeIP_config [of L now url "client_ip addr" w1] have w2: "policy_state w2 = policy_state w1" by simp
  show "policy_state (snd (handleTCPConn L now addr dial t url w)) = policy_state w"
    using w1 w2 by (auto simp: handleTCPConn_def Let_def b a config_frame split: option.split prod.split)
qed

lemma datagram_gate_on:
  assumes "gate_on c w"
  shows "gate_on c (snd (snd (udp_packet L now key dial (u, w))))"
proof (rule gate_on_policy [OF assms])
  show "world_ok (snd (snd (udp_packet L now key dial (u, w))))"
    using assms by (intro udp_packet_ok) (simp add: gate_on_def)
  obtain b w1 where b: "check_banned now (client_ip key) w = (b, w1)" by force
  with world_config(4) [of now "client_ip key" w] have w1: "policy_state w1 = policy_state w" by simp
  obtain res w2 where a: "authorizeIP L now (ur_url u) (client_ip key) w1 = (res, w2)" by force
  with authorizeIP_config [of L now "ur_url u" "client_ip key" w1] have w2: "policy_state w2 = policy_state w1" by simp
  show "policy_state (snd (snd (udp_packet L now key dial (u, w)))) = policy_state w"
    using w1 w2 by (auto simp: udp_packet_def Let_def b a config_frame split: option.split prod.split)
qed

section \<open>Every API handler keeps it\<close>

lemma set_db_site_ok: "site_ok c s \<Longrightarrow> db_ok d \<Longrightarrow> site_ok c (set_db d s)"
  by (simp add: site_ok_def set_db_def world_ok_def)

lemma site_ok_db: "site_ok c s \<Longrightarrow> db_ok (s_db s)"
  by (simp add: site_ok_def world_ok_def)

lemma on_route_update_ok: "site_ok c s \<Longrightarrow> site_ok c (on_route_update L now s)"
  using refresh_gate_on [of c "s_world s" L now] by (simp add: site_ok_world on_route_update_def RefreshCache_def)

lemma on_delete_ok: "site_ok c s \<Longrightarrow> site_ok c (on_delete url s)"
  by (simp add: site_ok_def on_delete_def UnregisterRoute_guarded)

lemma on_register_ok: "site_ok c s \<Longrightarrow> site_ok c (fst (on_register L pr s))"
  using RegisterRoute_guarded [of "s_proxy s" L "s_registry s" pr]
  by (simp add: site_ok_def on_register_def case_prod_beta Let_def)

lemma with_limiter_ok:
  assumes "site_ok c s" "db_ok (snd (f (thr (s_world s), s_db s)))"
  shows "site_ok c (with_limiter f s)"
  using assms by (simp add: site_ok_def with_limiter_def world_ok_def case_prod_beta Let_def)

lemma ban_db_ok: "db_ok d \<Longrightarrow> db_ok (snd (BanIP L hs now ip n (lm, d)))"
  and unban_db_ok: "db_ok d \<Longrightarrow> db_ok (snd (UnbanIP L hs ip (lm, d)))"
  by (simp_all add: BanIP_def UnbanIP_def Ban_db_ok Unban_def Let_def DeleteBan_ok case_prod_beta)

lemmas site_intros = set_db_site_ok site_ok_db on_route_update_ok on_delete_ok on_register_ok with_limiter_ok
  ban_db_ok unban_db_ok wf_intros

lemma user_handlers_ok:
  assumes "site_ok c s"
  shows "site_ok c (snd (handle_login L now rnd r s))" "site_ok c (snd (handle_logout L r s))"
    "site_ok c (snd (handle_register L now r s))" "site_ok c (snd (handle_me L now r s))"
    "site_ok c (snd (handle_user_routes L now r s))" "site_ok c (snd (handle_extend L now r s))"
    "site_ok c (snd (handle_user_sessions L now r s))"
  using assms
  by (simp_all add: handle_login_def handle_logout_def handle_register_def handle_me_def handle_user_routes_def
      handle_extend_def handle_user_sessions_def Let_def case_prod_beta site_intros split: sum.split option.split)

lemma admin_pages_ok:
  assumes "site_ok c s"
  shows "site_ok c (snd (users_page L r s))" "site_ok c (snd (user_groups_page L r s))"
    "site_ok c (snd (groups_page L now r s))" "site_ok c (snd (invites_page L now rnd r s))"
    "site_ok c (snd (settings_page L now r s))" "site_ok c (snd (metrics_page L now r s))"
    "site_ok c (snd (throttle_page L now r s))"
  using assms
  by (simp_all add: users_page_def user_groups_page_def groups_page_def invites_page_def settings_page_def metrics_page_def
      throttle_page_def bad_id_def Let_def case_prod_beta site_intros split: sum.split option.split)

lemma delete_all_ok: "site_ok c s \<Longrightarrow> site_ok c (fold on_delete urls s)"
  by (induction urls arbitrary: s) (simp_all add: on_delete_ok)

lemma rollback_ok: "site_ok c s \<Longrightarrow> site_ok c (rollback_range L rg s)"
  by (simp add: rollback_range_def case_prod_beta site_intros delete_all_ok split: sum.split)

lemma create_port_ok:
  assumes "create_port L now a base rg p (er, s) = res" "site_ok c s"
  shows "case res of Inl s' \<Rightarrow> site_ok c s' | Inr (er', s') \<Rightarrow> site_ok c s'"
  using assms(2) unfolding assms(1) [symmetric]
  by (simp add: create_port_def case_prod_beta site_intros split: sum.split)

lemma create_range_ok:
  assumes "create_range L now a base rg p st = Some res"
  shows "site_ok c (snd st) \<longrightarrow> (case res of Inl (q, s') \<Rightarrow> site_ok c s' | Inr (er', s') \<Rightarrow> site_ok c s')"
proof (rule create_range.raw_induct [OF _ assms])
  fix cr L now a base rg p st res
  assume IH: "\<And>L now a base rg p st res. cr L now a base rg p st = Some res \<Longrightarrow>
      site_ok c (snd st) \<longrightarrow> (case res of Inl (q, s') \<Rightarrow> site_ok c s' | Inr (er', s') \<Rightarrow> site_ok c s')"
    and step: "(if ra_end a < p then Some (Inr st)
      else case create_port L now a base rg p st of Inl s \<Rightarrow> Some (Inl (p, s))
        | Inr st' \<Rightarrow> cr L now a base rg (wrap64 (p + 1)) st') = Some res"
  obtain er s where st: "st = (er, s)" by force
  show "site_ok c (snd st) \<longrightarrow> (case res of Inl (q, s') \<Rightarrow> site_ok c s' | Inr (er', s') \<Rightarrow> site_ok c s')"
  proof
    assume ok: "site_ok c (snd st)"
    show "case res of Inl (q, s') \<Rightarrow> site_ok c s' | Inr (er', s') \<Rightarrow> site_ok c s'"
    proof (cases "ra_end a < p")
      case True
      with step ok st show ?thesis by auto
    next
      case False
      note port = create_port_ok [OF refl, of c s L now a base rg p er, folded st]
      show ?thesis
      proof (cases "create_port L now a base rg p st")
        case (Inl s')
        with step False port ok st show ?thesis by auto
      next
        case (Inr st')
        with step False have "cr L now a base rg (wrap64 (p + 1)) st' = Some res" by simp
        from IH [OF this] Inr port ok st show ?thesis by auto
      qed
    qed
  qed
qed

lemma createRouteRange_ok:
  assumes "site_ok c s"
  shows "site_ok c (snd (createRouteRange L now rnd a s))"
proof -
  have *: "case res of Inl (q, s') \<Rightarrow> site_ok c s' | Inr (er', s') \<Rightarrow> site_ok c s'"
    if "create_range L now a base rg (ra_start a) ([], s) = Some res" for base rg res
    using create_range_ok [OF that] assms by simp
  show ?thesis using assms
    by (auto simp: createRouteRange_def Let_def intro!: rollback_ok on_route_update_ok dest!: *
        split: option.split sum.split)
qed

lemma routes_page_ok:
  assumes "site_ok c s"
  shows "site_ok c (snd (routes_page L now rnd r s))"
proof -
  have target: "site_ok c s' \<Longrightarrow> site_ok c (retarget L now i t s')" for s' i t
    by (simp add: retarget_def case_prod_beta Let_def site_intros split: sum.split)
  have "site_ok c (snd (routes_post L now rnd r s))"
    using assms by (simp add: routes_post_def case_prod_beta Let_def site_intros createRouteRange_ok
        split: sum.split option.split)
  moreover have "site_ok c (snd (routes_put L now r s))"
    using assms by (simp add: routes_put_def bad_id_def case_prod_beta Let_def site_intros target
        split: sum.split option.split)
  moreover have "site_ok c (snd (routes_delete L now r s))"
    using assms by (simp add: routes_delete_def case_prod_beta Let_def bad_id_def site_intros delete_all_ok
        split: sum.split option.split)
  ultimately show ?thesis using assms by (simp add: routes_page_def split: sum.split)
qed

lemma call_api_ok:
  assumes "site_ok c s"
  shows "site_ok c (snd (call_api L now rnd a r s))"
proof -
  have admin: "site_ok c (snd (as_admin L now h r s))" if "site_ok c (snd (h r s))" for h
    using that assms by (simp add: as_admin_def split: sum.split)
  show ?thesis using assms
    by (cases a) (simp_all add: admin user_handlers_ok admin_pages_ok routes_page_ok handle_config_def handle_example_def
        handle_health_def)
qed

lemma gate_site_ok:
  assumes "site_ok c s"
  shows "site_ok c (s\<lparr>s_world := snd (withAuthForKey L now rk r (s_world s))\<rparr>)"
  using assms gate_on_policy [OF _ withAuthForKey_ok withAuthForKey_config, of c "s_world s" L now rk r]
  by (simp add: site_ok_world) (simp add: gate_on_def)

lemma serve_ok: "site_ok c s \<Longrightarrow> site_ok c (snd (serve L now rnd r h s))"
proof (induction h arbitrary: s)
  case (AuthHandler rk h)
  have w: "site_ok c (s\<lparr>s_world := snd (withAuthForKey L now rk r (s_world s))\<rparr>)"
    using AuthHandler.prems by (rule gate_site_ok)
  with AuthHandler.IH [OF w] show ?case
    by (cases "withAuthForKey L now rk r (s_world s)") (simp split: verdict.split)
qed (simp_all add: call_api_ok split: sum.split)

lemma serve_route_ok:
  assumes "site_ok c s"
  shows "site_ok c (snd (serve_route L now rnd r s))"
proof -
  obtain host port where k: "route_key r = (host, port)" by force
  obtain b w1 where b: "check_banned now (extractClientIP r) (s_world s) = (b, w1)" by force
  have w1: "gate_on c w1"
    using gate_on_policy [OF _ check_banned_ok world_config(4), of c "s_world s" now "extractClientIP r"] assms b
    by (simp add: site_ok_world) (simp add: gate_on_def)
  then have "gate_on c (record_event now ip rk res w1)" "gate_on c (record_failure L now ip (record_event now ip rk res w1))" for ip rk res
    by (auto intro!: gate_on_policy [of c w1] simp: config_frame record_event_ok record_failure_ok) (simp_all add: gate_on_def record_event_ok record_failure_ok)
  moreover have "site_ok c (s\<lparr>s_world := w1\<rparr>)" using assms w1 by (simp add: site_ok_world)
  ultimately show ?thesis using assms
    by (auto simp: serve_route_def Let_def k b intro!: serve_ok split: option.split) (simp_all add: site_ok_world)
qed

section \<open>Starting establishes it\<close>

lemma run_cases:
  assumes "run L now decoded opening migrated d0 = (d, Inr s)"
  obtains c reg0 d1 d2 rs where "loadConfig decoded = Inr c" "New L now opening migrated d0 = (d1, Inr ())"
    "SyncRoutes L now (dbase (InitAuth (in_call ''InitAuth'' L) now (world0 d1))) (cf_routes c) = (d2, Inr ())"
    "s_world s = RefreshCache (in_call ''RefreshCache'' L) now ((InitAuth (in_call ''InitAuth'' L) now (world0 d1))\<lparr>dbase := protect_admin L now c d2\<rparr>)"
    "GetAllRoutes L (dbase (s_world s)) = Inr rs"
    "StartProxy L (s_registry s) (oc_enabled (cf_otel c)) (map (proxy_route c) rs) = Inr (s_proxy s)"
    "InitBuiltin [] = Inr reg0" "InitApi reg0 = Inr (s_registry s)"
proof -
  from assms obtain c reg0 reg d1 u where 1: "loadConfig decoded = Inr c" "InitBuiltin [] = Inr reg0" "InitApi reg0 = Inr reg"
    "New L now opening migrated d0 = (d1, Inr u)"
    by (auto simp: run_def split: sum.splits prod.splits)
  define w1 where "w1 = InitAuth (in_call ''InitAuth'' L) now (world0 d1)"
  from assms 1 obtain d2 v where 2: "SyncRoutes L now (dbase w1) (cf_routes c) = (d2, Inr v)"
    by (cases "SyncRoutes L now (dbase w1) (cf_routes c)"; cases "snd (SyncRoutes L now (dbase w1) (cf_routes c))")
      (auto simp: run_def Let_def w1_def)
  define w2 where "w2 = RefreshCache (in_call ''RefreshCache'' L) now (w1\<lparr>dbase := protect_admin L now c d2\<rparr>)"
  from assms 1 2 obtain rs where 3: "GetAllRoutes L (dbase w2) = Inr rs"
    by (cases "GetAllRoutes L (dbase w2)") (auto simp: run_def Let_def w1_def w2_def)
  from assms 1 2 3 obtain px where 4: "StartProxy L reg (oc_enabled (cf_otel c)) (map (proxy_route c) rs) = Inr px"
    by (cases "StartProxy L reg (oc_enabled (cf_otel c)) (map (proxy_route c) rs)") (auto simp: run_def Let_def w1_def w2_def)
  from assms 1 2 3 4 have "s_world s = w2" "s_proxy s = px" "s_registry s = reg"
    by (auto simp: run_def Let_def w1_def w2_def)
  with 1 2 3 4 show thesis by (intro that [of c d1 d2 rs reg0]) (simp_all add: w1_def w2_def)
qed

lemma opened_db:
  assumes "New L now opening migrated d0 = (d1, Inr ())" "db_ok d0"
  shows "db_ok d1" "routes d1 = routes d0" "world_ok (InitAuth L' now (world0 d1))" "dbase (InitAuth L' now (world0 d1)) = d1"
    "authStore (InitAuth L' now (world0 d1))"
proof -
  show d1: "db_ok d1" using assms by (auto simp: New_def seedAdmin_ok split: sum.splits)
  show "routes d1 = routes d0"
    using assms(1) by (auto simp: New_def seedAdmin_def CreateUser_def CreateGroup_def AddUserToGroup_def Let_def
        split: sum.splits option.splits prod.splits if_splits)
  show "world_ok (InitAuth L' now (world0 d1))"
    using d1 by (intro InitAuth_ok) (simp add: world_ok_def world0_def ring_ok_def metrics0_def recentEventsCap_def)
  show "dbase (InitAuth L' now (world0 d1)) = d1" "authStore (InitAuth L' now (world0 d1))"
    by (simp_all add: InitAuth_def Let_def refreshCache_def world0_def split: sum.split)
qed

lemma refreshCache_fills: "db_fault L ''GetAllRoutes'' \<or> authCache (refreshCache L now w) \<noteq> None"
  by (simp add: refreshCache_def GetAllRoutes_def)

lemma refreshCache_keeps: "authCache w \<noteq> None \<Longrightarrow> authCache (refreshCache L now w) \<noteq> None"
  by (simp add: refreshCache_def split: sum.split)

text \<open>The cache is filled after the start unless both of its refreshes failed.\<close>

lemma run_site_ok:
  assumes "run L now decoded opening migrated d0 = (d, Inr s)" "db_ok d0"
    and "c \<Longrightarrow> \<not> db_fault L ''InitAuth/GetAllRoutes'' \<or> \<not> db_fault L ''RefreshCache/GetAllRoutes''"
  shows "site_ok c s"
proof (rule run_cases [OF assms(1)])
  fix k reg0 d1 d2 rs
  let ?w1 = "InitAuth (in_call ''InitAuth'' L) now (world0 d1)"
  assume r: "New L now opening migrated d0 = (d1, Inr ())" "SyncRoutes L now (dbase ?w1) (cf_routes k) = (d2, Inr ())"
    "s_world s = RefreshCache (in_call ''RefreshCache'' L) now (?w1\<lparr>dbase := protect_admin L now k d2\<rparr>)"
    "StartProxy L (s_registry s) (oc_enabled (cf_otel k)) (map (proxy_route k) rs) = Inr (s_proxy s)"
  note w1 = opened_db(1,2) [OF r(1) assms(2)] opened_db(3-5) [OF r(1) assms(2), of "in_call ''InitAuth'' L"]
  have "db_ok d2" using SyncRoutes_ok [of "dbase ?w1" L now "cf_routes k"] w1 r(2) by simp
  then have "db_ok (protect_admin L now k d2)" by (simp add: protect_admin_def EnsureRouteGroup_ok)
  with w1(3) have "world_ok (?w1\<lparr>dbase := protect_admin L now k d2\<rparr>)" by (simp add: world_ok_def)
  then have "world_ok (s_world s)" unfolding r(3) RefreshCache_def by (rule refreshCache_ok)
  moreover have "authStore (s_world s)" using w1(5) by (simp add: r(3) RefreshCache_def refreshCache_def split: sum.split)
  moreover have "authCache (s_world s) \<noteq> None" if c
  proof (cases "db_fault L ''RefreshCache/GetAllRoutes''")
    case True
    then have "authCache ?w1 \<noteq> None"
      using assms(3) [OF that] refreshCache_fills [of "in_call ''InitAuth'' L"] by (auto simp: InitAuth_def Let_def)
    then show ?thesis unfolding r(3) RefreshCache_def by (intro refreshCache_keeps) simp
  next
    case False
    with refreshCache_fills [of "in_call ''RefreshCache'' L"] show ?thesis by (simp add: r(3) RefreshCache_def)
  qed
  ultimately show "site_ok c s" using StartProxy_guarded [OF r(4)] by (simp add: site_ok_def)
qed

lemma step_ok:
  assumes "site_step L s s'" "site_ok c s"
  shows "site_ok c s'"
  using assms(1)
proof (cases rule: site_step.cases)
  case (request now rnd r out)
  with serve_route_ok [OF assms(2), of L now rnd r] show ?thesis by simp
next
  case (connection port target url now addr dial res w)
  with connection_gate_on [of c "s_world s" L now addr dial target url] assms(2) show ?thesis
    by (simp add: site_ok_world set_world_def)
next
  case (datagram now key dial u res u' w)
  with datagram_gate_on [of c "s_world s" L now key dial u] assms(2) show ?thesis
    by (simp add: site_ok_world set_world_def)
qed (use assms(2) in \<open>simp_all add: site_ok_world set_world_def handshake_gate_on tick_gate_on drain_gate_on\<close>)

lemma any_step_ok: "any_step L s s' \<Longrightarrow> site_ok c s \<Longrightarrow> site_ok c s'"
  using step_ok by (auto simp: any_step_def)

lemma reachable_site_ok: "reachable L s \<Longrightarrow> site_ok False s"
proof (induction rule: reachable.induct)
  case started
  then show ?case by (rule run_site_ok) simp
qed (rule any_step_ok)

section \<open>The admin page is protected from the start\<close>

lemma route_lookup_update:
  assumes "\<And>r. rt_url (f r) = rt_url r"
  shows "route_lookup (d\<lparr>routes := update_where P f (routes d)\<rparr>) url = map_option (\<lambda>r. if P r then f r else r) (route_lookup d url)"
proof -
  have "List.find (\<lambda>r. rt_url r = url) (update_where P f rows) =
      map_option (\<lambda>r. if P r then f r else r) (List.find (\<lambda>r. rt_url r = url) rows)" for rows
    using assms by (induction rows) (auto simp: update_where_def)
  then show ?thesis by (simp add: route_lookup_def)
qed

definition stored_groups :: "db \<Rightarrow> string \<Rightarrow> string" where
  "stored_groups d url = (case route_lookup d url of None \<Rightarrow> [] | Some r \<Rightarrow> rt_groups r)"

definition admin_group :: "db \<Rightarrow> group_row option" where
  "admin_group d = List.find (\<lambda>g. grp_name g = ''admin'') (groups d)"

lemma EnsureRouteGroup_lookup:
  assumes "route_lookup d url = Some r0"
  shows "\<exists>r. route_lookup (fst (EnsureRouteGroup L now d url ''admin'')) url = Some r \<and> rt_enabled r = rt_enabled r0 \<and>
    rt_groups r = (if rt_groups r0 \<noteq> [] \<or> db_fault L ''EnsureRouteGroup.select'' \<or> db_fault L ''EnsureRouteGroup.update''
       then rt_groups r0 else case admin_group d of None \<Rightarrow> [] | Some g \<Rightarrow> itoa (grp_id g))"
proof -
  have "rt_url r0 = url" using route_lookup_url [OF assms] .
  with assms show ?thesis
    by (cases "List.find (\<lambda>g. grp_name g = ''admin'') (groups d)")
      (auto simp: EnsureRouteGroup_def admin_group_def route_lookup_update RouteStore.touch_def split: if_splits)
qed

lemma one_group:
  assumes "rt_groups r = itoa n" "list_all int64 (n # ids)"
  shows "groupsAllow (cr_groupSet (parseCachedRoute r)) ids \<longleftrightarrow> n \<in> set ids"
proof -
  have sep: "split_on (CHR '','') (itoa n) = [itoa n]"
    using itoa_plain(1) [of _ n] by (intro split_on_no_sep) blast
  then have "cr_groupSet (parseCachedRoute r) = [itoa n]"
    using assms(1) sep by (simp add: parseCachedRoute_def Let_def allowed_entries_def)
  with assms(2) show ?thesis by (auto simp: groupsAllow_def list_all_iff itoa_inj)
qed

text \<open>
  C5: what guards the admin page after a start. With the page enabled, and the last read of the routes into the
  cache successful, the cached policy of its URL has exactly the groups that were stored for it, when there were
  any, whatever the configuration file says; otherwise the admin group, and then the gate admits by group
  exactly the members of that group. It stays open to everyone in two cases only: no group is named admin, or
  one of the two statements that set the group failed, which the program logs and then starts.
\<close>

theorem admin_route_protected:
  assumes "run L now decoded opening migrated d0 = (d, Inr s)" "db_ok d0" "loadConfig decoded = Inr c" "pc_enabled (cf_admin c)"
    and "\<not> db_fault L ''RefreshCache/GetAllRoutes''"
  shows "\<exists>m cr. authCache (s_world s) = Some m \<and> m (pc_url (cf_admin c)) = Some cr \<and>
    rt_groups (cr_route cr) =
      (if stored_groups d0 (pc_url (cf_admin c)) \<noteq> [] \<or>
          db_fault L ''EnsureRouteGroup.select'' \<or> db_fault L ''EnsureRouteGroup.update''
       then stored_groups d0 (pc_url (cf_admin c))
       else case admin_group (s_db s) of None \<Rightarrow> [] | Some g \<Rightarrow> itoa (grp_id g)) \<and>
    (\<forall>g ids. rt_groups (cr_route cr) = itoa (grp_id g) \<and> list_all int64 (grp_id g # ids) \<longrightarrow>
      (groupsAllow (cr_groupSet cr) ids \<longleftrightarrow> grp_id g \<in> set ids))"
proof (rule run_cases [OF assms(1)])
  fix c' reg0 d1 d2 rs
  let ?w1 = "InitAuth (in_call ''InitAuth'' L) now (world0 d1)" and ?url = "pc_url (cf_admin c)"
  assume r: "loadConfig decoded = Inr c'" "New L now opening migrated d0 = (d1, Inr ())"
    "SyncRoutes L now (dbase ?w1) (cf_routes c') = (d2, Inr ())"
    "s_world s = RefreshCache (in_call ''RefreshCache'' L) now (?w1\<lparr>dbase := protect_admin L now c' d2\<rparr>)"
  have c: "c' = c" using r(1) assms(3) by simp
  note w1 = opened_db(1,2) [OF r(2) assms(2)] opened_db(3-5) [OF r(2) assms(2), of "in_call ''InitAuth'' L"]
  have d2: "db_ok d2" using SyncRoutes_ok [of "dbase ?w1" L now "cf_routes c"] w1 r(3) c by simp
  have "List.find (\<lambda>x. cr_url x = ?url) (rev (cf_routes c)) = Some (page_route (cf_admin c))"
    using assms(3,4) by (auto simp: loadConfig_def generateAuthAdm_def Let_def page_route_def split: option.splits if_splits)
  with SyncRoutes_synced [OF r(3), of ?url] w1 c obtain r0 where r0: "route_lookup d2 ?url = Some r0" "rt_enabled r0"
    "access_of r0 = (case route_lookup d0 ?url of Some r \<Rightarrow> access_of r | None \<Rightarrow> open_access)"
    by (auto simp: synced_def route_lookup_def)
  then have g0: "rt_groups r0 = stored_groups d0 ?url"
    by (auto simp: access_of_def open_access_def stored_groups_def split: option.splits)
  have db: "s_db s = protect_admin L now c d2" by (simp add: r(4) c)
  have "groups (protect_admin L now c d2) = groups d2"
    by (simp add: protect_admin_def EnsureRouteGroup_def split: option.split)
  then have g: "admin_group (s_db s) = admin_group d2" by (simp add: db admin_group_def)
  obtain r1 where r1: "route_lookup (protect_admin L now c d2) ?url = Some r1" "rt_enabled r1 = rt_enabled r0"
    "rt_groups r1 = (if rt_groups r0 \<noteq> [] \<or> db_fault L ''EnsureRouteGroup.select'' \<or> db_fault L ''EnsureRouteGroup.update''
       then rt_groups r0 else case admin_group d2 of None \<Rightarrow> [] | Some g \<Rightarrow> itoa (grp_id g))"
    using EnsureRouteGroup_lookup [OF r0(1), of L now] assms(4) by (auto simp: protect_admin_def)
  have "db_ok (protect_admin L now c d2)" using d2 by (simp add: protect_admin_def EnsureRouteGroup_ok)
  then have cache: "authCache (s_world s) = Some (\<lambda>url.
      case route_lookup (protect_admin L now c d2) url of None \<Rightarrow> None | Some r \<Rightarrow> if rt_enabled r then Some (parseCachedRoute r) else None)"
    unfolding r(4) RefreshCache_def c by (subst refresh_cache_map) (simp_all add: assms(5))
  have route: "cr_route (parseCachedRoute r1) = r1" by (simp add: parseCachedRoute_def Let_def)
  obtain m where m: "authCache (s_world s) = Some m" "m ?url = Some (parseCachedRoute r1)"
    using cache r1(1,2) r0(2) by simp
  have one: "\<forall>g ids. rt_groups (cr_route (parseCachedRoute r1)) = itoa (grp_id g) \<and> list_all int64 (grp_id g # ids) \<longrightarrow>
      (groupsAllow (cr_groupSet (parseCachedRoute r1)) ids \<longleftrightarrow> grp_id g \<in> set ids)"
    unfolding route using one_group [of r1] by blast
  show ?thesis
    by (intro exI [of _ m] exI [of _ "parseCachedRoute r1"] conjI m one)
      (simp only: route r1(3) g0 g)
qed

text \<open>A first start: one proxied route and the admin page on an empty database.\<close>

definition off_page :: page_config where
  "off_page = \<lparr>pc_enabled = False, pc_url = [], pc_target = [], pc_tls = False, pc_cert = [], pc_key = []\<rparr>"

definition boot_config :: config where
  "boot_config = \<lparr>cf_web = off_page, cf_db = [], cf_admin = off_page\<lparr>pc_enabled := True\<rparr>,
     cf_otel = \<lparr>oc_enabled = False, oc_endpoint = [], oc_name = [], oc_interval = 0, oc_runtime = 0\<rparr>,
     cf_routes = [\<lparr>cr_url = ''a.b:80'', cr_target = ''t:1'', cr_type = ''proxy'', cr_tls = False, cr_cert = [], cr_key = []\<rparr>]\<rparr>"

definition boot_site :: site where
  "boot_site = projr (snd (run plain_lib 5 (Some boot_config) (Inr ()) (Inr ()) empty_db))"

lemma booted: "\<exists>d. run plain_lib 5 (Some boot_config) (Inr ()) (Inr ()) empty_db = (d, Inr boot_site)"
proof -
  have "\<not> isl (snd (run plain_lib 5 (Some boot_config) (Inr ()) (Inr ()) empty_db))" by code_simp
  then show ?thesis
    by (cases "run plain_lib 5 (Some boot_config) (Inr ()) (Inr ()) empty_db";
        cases "snd (run plain_lib 5 (Some boot_config) (Inr ()) (Inr ()) empty_db)") (auto simp: boot_site_def)
qed

lemma boot_reachable: "reachable plain_lib boot_site"
  using booted started [of "db_fault plain_lib" plain_lib] empty_db_ok by (auto simp: with_faults_sel)

text \<open>The same start with a driver whose statements of the given names fail.\<close>

definition faulty_boot :: "(stmt \<Rightarrow> bool) \<Rightarrow> site" where
  "faulty_boot f = projr (snd (run (with_faults f plain_lib) 5 (Some boot_config) (Inr ()) (Inr ()) empty_db))"

definition open_boot :: site where
  "open_boot = faulty_boot (\<lambda>q. q = ''EnsureRouteGroup.update'')"

lemma open_boot_serves_anyone:
  "content (fst (serve_route plain_lib 9 [] (get_request ''localhost:8081'' ''/'' ''9.9.9.9:5'') open_boot))"
  by code_simp

theorem admin_route_protected_witness:
  "\<exists>m cr. authCache (s_world boot_site) = Some m \<and> m ''localhost:8081'' = Some cr \<and> rt_groups (cr_route cr) = ''1''"
proof -
  obtain d where run: "run plain_lib 5 (Some boot_config) (Inr ()) (Inr ()) empty_db = (d, Inr boot_site)" using booted by blast
  define c where "c = generateAuthAdm (validateConfig boot_config)"
  have c: "loadConfig (Some boot_config) = Inr c" by (simp add: loadConfig_def c_def)
  have "pc_enabled (cf_admin (generateAuthAdm (validateConfig boot_config)))"
    "pc_url (cf_admin (generateAuthAdm (validateConfig boot_config))) = ''localhost:8081''" by code_simp+
  moreover have "map_option grp_id (admin_group (s_db boot_site)) = Some 1" "itoa 1 = ''1''" by code_simp+
  moreover have "stored_groups empty_db url = []" for url by (simp add: stored_groups_def route_lookup_def empty_db_def)
  ultimately show ?thesis
    using admin_route_protected [OF run empty_db_ok c] by (auto simp: c_def split: option.splits)
qed

section \<open>What holds in every reachable state\<close>

text \<open>
  C2: the invariant of the running program. From a start on a consistent database, through any sequence of
  requests, connections, datagrams, failed handshakes, ticks and log writes, admin edits of routes and users
  included, and whichever statements fail in the start and in each step: every PRIMARY KEY, UNIQUE and
  REFERENCES constraint holds, the ring of recent events and the log queue stay within their capacity, every
  live handler is behind the check of its own host and port, the gate is on, and once its cache is filled no
  step empties it again.
\<close>

theorem reachable_invariant:
  assumes "reachable L s"
  shows "db_ok (s_db s) \<and> ring_ok (met (s_world s)) \<and> length (logChan (s_world s)) \<le> 512 \<and> guarded (s_proxy s) \<and>
    authStore (s_world s) \<and>
    (\<forall>s'. authCache (s_world s) \<noteq> None \<and> any_step L s s' \<longrightarrow> authCache (s_world s') \<noteq> None)"
proof -
  have ok: "site_ok False s" using assms by (rule reachable_site_ok)
  have "authCache (s_world s') \<noteq> None" if "authCache (s_world s) \<noteq> None" "any_step L s s'" for s'
    using any_step_ok [OF that(2), of True] ok that(1) by (simp add: site_ok_def)
  with ok show ?thesis by (simp add: site_ok_def world_ok_def)
qed

theorem reachable_invariant_witness: "db_ok (s_db boot_site) \<and> guarded (s_proxy boot_site)"
  using reachable_invariant [OF boot_reachable] by simp

text \<open>
  C1: what the running program serves was granted. In any state it can reach, a request that ends in a
  backend, a directory or a file has a route key (host and port of the Host header) with a cached policy that
  grants this client, by session on its address, by listing, by cookie or because the route is public, and the
  client is not banned.
\<close>

theorem reachable_serves_granted:
  assumes "reachable L s" "\<not> db_fault L ''ValidateSessionByIPInGroups''" "\<not> db_fault L ''ValidateSessionAndGroups''"
    and "serve_route L now rnd r s = (out, s')" "content out"
  shows "\<exists>m cr. authCache (s_world s) = Some m \<and> m (key_of r) = Some cr \<and>
    granted L now (s_db s) cr (extractClientIP r) (rq_cookie r) \<and>
    \<not> fst (IsBanned now (extractClientIP r) (thr (s_world s)))"
  using reachable_site_ok [OF assms(1)] assms(2-5)
  by (intro served_means_granted [where s' = s']) (auto simp: site_ok_def store_ready_def world_ok_def)

theorem reachable_serves_granted_witness:
  "\<exists>m cr. authCache (s_world boot_site) = Some m \<and> m (key_of (get_request ''a.b'' ''/'' ''9.9.9.9:5'')) = Some cr"
proof -
  have "content (fst (serve_route plain_lib 9 [] (get_request ''a.b'' ''/'' ''9.9.9.9:5'') boot_site))" by code_simp
  with reachable_serves_granted [OF boot_reachable, of 9 "[]" "get_request ''a.b'' ''/'' ''9.9.9.9:5''"] show ?thesis
    by (cases "serve_route plain_lib 9 [] (get_request ''a.b'' ''/'' ''9.9.9.9:5'') boot_site") (simp, blast)
qed

section \<open>No handler panics\<close>

lemma call_api_no_panic: "fst (call_api L now rnd a r s) \<noteq> Panicked"
proof -
  have range: "fst (createRouteRange L now rnd ra s) \<noteq> Panicked" for ra s
    by (simp add: createRouteRange_def respond_defs Let_def split: option.split sum.split prod.split)
  have post: "fst (routes_post L now rnd r s) \<noteq> Panicked" for s
    using range by (simp add: routes_post_def respond_defs Let_def split: option.split sum.split prod.split)
  show ?thesis
  proof (cases a)
    case HandleAdminRoutes
    then show ?thesis using post
      by (simp add: as_admin_def routes_page_def routes_put_def routes_delete_def bad_id_def respond_defs Let_def
          split: option.split sum.split prod.split)
  qed (simp_all add: as_admin_def handle_config_def handle_login_def handle_logout_def handle_register_def handle_me_def
      handle_user_routes_def handle_extend_def handle_user_sessions_def handle_example_def handle_health_def
      users_page_def user_groups_page_def groups_page_def invites_page_def settings_page_def metrics_page_def
      throttle_page_def bad_id_def respond_defs Let_def split: option.split sum.split prod.split)
qed

lemma withAuthForKey_no_panic:
  assumes "gate_on True w"
  shows "fst (withAuthForKey L now rk r w) \<noteq> Panic"
proof -
  obtain b w1 where b: "check_banned now (extractClientIP r) w = (b, w1)" by force
  with check_banned_sel(3) [of now "extractClientIP r" w] assms obtain m where "authCache w1 = Some m"
    by (auto simp: gate_on_def)
  then show ?thesis
    by (auto simp: withAuthForKey_def b Let_def split: prod.split option.split)
qed

lemma serve_no_panic: "site_ok True s \<Longrightarrow> fst (serve L now rnd r h s) \<noteq> Panicked"
proof (induction h arbitrary: s)
  case (AuthHandler rk h)
  have "fst (withAuthForKey L now rk r (s_world s)) \<noteq> Panic"
    using AuthHandler.prems by (intro withAuthForKey_no_panic) (simp add: site_ok_world)
  with AuthHandler.IH [OF gate_site_ok [OF AuthHandler.prems, of L now rk r]] show ?case
    by (cases "withAuthForKey L now rk r (s_world s)") (auto split: verdict.split)
qed (simp_all add: call_api_no_panic split: sum.split)

lemma route_no_panic:
  assumes "site_ok True s"
  shows "fst (serve_route L now rnd r s) \<noteq> Panicked"
proof -
  obtain host port where k: "route_key r = (host, port)" by force
  obtain b w1 where b: "check_banned now (extractClientIP r) (s_world s) = (b, w1)" by force
  have "gate_on True w1"
    using gate_on_policy [OF _ check_banned_ok world_config(4), of True "s_world s" now "extractClientIP r"] assms b
    by (simp add: site_ok_world) (simp add: gate_on_def)
  then have "site_ok True (s\<lparr>s_world := w1\<rparr>)" using assms by (simp add: site_ok_world)
  from serve_no_panic [OF this] show ?thesis
    by (simp add: serve_route_def Let_def k b split: option.split)
qed

lemma authorizeIP_panics: "fst (authorizeIP L now url ip w) = None \<longleftrightarrow> authCache w = None"
  by (auto simp: authorizeIP_def Let_def split: option.split sum.split)

lemma raw_panics:
  "fst (handleTCPConn L now addr dial t url w) = TcpPanic \<longleftrightarrow>
    authCache w = None \<and> \<not> fst (IsBanned now (client_ip addr) (thr w))"
  "fst (udp_packet L now key dial (u, w)) = UdpPanic \<longleftrightarrow>
    authCache w = None \<and> \<not> fst (IsBanned now (client_ip key) (thr w)) \<and> ur_open u \<and> map_of (ur_sessions u) key = None"
proof -
  obtain b w1 where b: "check_banned now (client_ip addr) w = (b, w1)" by force
  obtain res w2 where a: "authorizeIP L now url (client_ip addr) w1 = (res, w2)" by force
  from b a check_banned_sel(1,3) [of now "client_ip addr" w] authorizeIP_panics [of L now url "client_ip addr" w1]
  show "fst (handleTCPConn L now addr dial t url w) = TcpPanic \<longleftrightarrow>
      authCache w = None \<and> \<not> fst (IsBanned now (client_ip addr) (thr w))"
    by (auto simp: handleTCPConn_def Let_def split: option.split)
next
  obtain b w1 where b: "check_banned now (client_ip key) w = (b, w1)" by force
  obtain res w2 where a: "authorizeIP L now (ur_url u) (client_ip key) w1 = (res, w2)" by force
  from b a check_banned_sel(1,3) [of now "client_ip key" w] authorizeIP_panics [of L now "ur_url u" "client_ip key" w1]
  show "fst (udp_packet L now key dial (u, w)) = UdpPanic \<longleftrightarrow>
      authCache w = None \<and> \<not> fst (IsBanned now (client_ip key) (thr w)) \<and> ur_open u \<and> map_of (ur_sessions u) key = None"
    by (auto simp: udp_packet_def Let_def split: option.split)
qed


text \<open>A start whose two refreshes failed, and the first request after it.\<close>

definition unset_boot :: site where
  "unset_boot = faulty_boot (\<lambda>q. q = ''InitAuth/GetAllRoutes'' \<or> q = ''RefreshCache/GetAllRoutes'')"


end
