(* ===== verification/Sockets.thy ===== *)
theory Sockets
  imports System "HOL-Library.Multiset"
begin

text \<open>
  The goroutines that open and close the sockets: \<open>startServe\<close> of proxy/listeners.go, the first lines of
  \<^verbatim>\<open>runTCPProxy\<close> and \<^verbatim>\<open>runUDPProxy\<close>, and the two that close a cancelled relay's socket. They run in any order
  after the call that launched them. Whether the operating system gives out a port is the argument \<open>can\<close>.
  An error a goroutine sends on \<^verbatim>\<open>ErrChan\<close> ends the program, and so does the end of the last goroutine.
\<close>

datatype proto = TCP | UDP

record net =
  nt_bound :: "(proto \<times> string) list"
  nt_errs :: "err list"

datatype goroutine = StartServe string | RunTCP string | RunUDP string | CloseTCP string | CloseUDP string

definition listen :: "(proto \<Rightarrow> string \<Rightarrow> bool) \<Rightarrow> proto \<Rightarrow> string \<Rightarrow> string \<Rightarrow> net \<Rightarrow> net" where
  "listen can pr port msg n =
     (if \<not> can pr port \<or> (pr, port) \<in> set (nt_bound n) then n\<lparr>nt_errs := nt_errs n @ [Msg msg]\<rparr>
      else n\<lparr>nt_bound := (pr, port) # nt_bound n\<rparr>)"

definition startServe :: "(proto \<Rightarrow> string \<Rightarrow> bool) \<Rightarrow> string \<Rightarrow> net \<Rightarrow> net" where
  "startServe can port = listen can TCP port (''server :'' @ port @ '' failed'')"

definition listenTCP :: "(proto \<Rightarrow> string \<Rightarrow> bool) \<Rightarrow> string \<Rightarrow> net \<Rightarrow> net" where
  "listenTCP can port = listen can TCP port (''tcp listen on port '' @ port)"

definition listenUDP :: "(proto \<Rightarrow> string \<Rightarrow> bool) \<Rightarrow> string \<Rightarrow> net \<Rightarrow> net" where
  "listenUDP can port = listen can UDP port (''udp listen on port '' @ port)"

definition close_socket :: "proto \<Rightarrow> string \<Rightarrow> net \<Rightarrow> net" where
  "close_socket pr port n = n\<lparr>nt_bound := removeAll (pr, port) (nt_bound n)\<rparr>"

fun go_step :: "(proto \<Rightarrow> string \<Rightarrow> bool) \<Rightarrow> goroutine \<Rightarrow> net \<Rightarrow> net" where
  "go_step can (StartServe p) n = startServe can p n"
| "go_step can (RunTCP p) n = listenTCP can p n"
| "go_step can (RunUDP p) n = listenUDP can p n"
| "go_step can (CloseTCP p) n = close_socket TCP p n"
| "go_step can (CloseUDP p) n = close_socket UDP p n"

definition schedule :: "(proto \<Rightarrow> string \<Rightarrow> bool) \<Rightarrow> goroutine list \<Rightarrow> net \<Rightarrow> net" where
  "schedule can gs n = fold (go_step can) gs n"

definition net0 :: net where "net0 = \<lparr>nt_bound = [], nt_errs = []\<rparr>"

text \<open>
  What a started proxy has launched, and how \<^verbatim>\<open>main\<close> may end once these goroutines have run (without a
  signal): not at all while some listener serves and no error is waiting.
\<close>

definition launched :: "proxy \<Rightarrow> goroutine list" where
  "launched px = map StartServe (px_live px) @ map RunTCP (map fst (px_tcp px)) @ map RunUDP (map fst (px_udp px))"

definition program_ends :: "(proto \<Rightarrow> string \<Rightarrow> bool) \<Rightarrow> proxy \<Rightarrow> goroutine list \<Rightarrow> net \<Rightarrow> (bool \<times> err option) list" where
  "program_ends can px gs n =
     (let n' = schedule can gs n
      in map cleanShutdown (shutdown_causes False (px_errs px @ nt_errs n') (nt_bound n' = [])))"

lemma program_ends_error:
  "(\<exists>e. (True, Some e) \<in> set (program_ends can px gs n)) \<longleftrightarrow> px_errs px @ nt_errs (schedule can gs n) \<noteq> []"
  by (cases "px_errs px @ nt_errs (schedule can gs n)") (auto simp: program_ends_def Let_def shutdown_causes_def)

text \<open>\<^verbatim>\<open>ShutdownHTTP\<close> closes every HTTP listener; an error of one is logged and the loop goes on.\<close>

definition ShutdownHTTP :: "proxy \<Rightarrow> net \<Rightarrow> net" where
  "ShutdownHTTP px n = fold (close_socket TCP) (px_live px) n"

fun socket_of :: "goroutine \<Rightarrow> (proto \<times> string) option" where
  "socket_of (StartServe p) = Some (TCP, p)"
| "socket_of (RunTCP p) = Some (TCP, p)"
| "socket_of (RunUDP p) = Some (UDP, p)"
| "socket_of (CloseTCP p) = None"
| "socket_of (CloseUDP p) = None"

lemmas listen_defs = startServe_def listenTCP_def listenUDP_def listen_def close_socket_def

lemma go_step_opens:
  assumes "socket_of g = Some s" "can (fst s) (snd s)" "s \<notin> set (nt_bound n)"
  shows "go_step can g n = n\<lparr>nt_bound := s # nt_bound n\<rparr>"
  using assms by (cases g) (auto simp: listen_defs)

lemma go_step_fails:
  assumes "socket_of g = Some s" "\<not> can (fst s) (snd s) \<or> s \<in> set (nt_bound n)"
  shows "\<exists>e. nt_errs (go_step can g n) = nt_errs n @ [e] \<and> nt_bound (go_step can g n) = nt_bound n"
  using assms by (cases g) (auto simp: listen_defs)

lemma go_step_errs: "\<exists>es. nt_errs (go_step can g n) = nt_errs n @ es"
  by (cases g) (auto simp: listen_defs)

lemma schedule_errs: "\<exists>es. nt_errs (schedule can gs n) = nt_errs n @ es"
proof (induction gs arbitrary: n)
  case (Cons g gs)
  obtain es where "nt_errs (go_step can g n) = nt_errs n @ es" using go_step_errs by blast
  moreover obtain es' where "nt_errs (schedule can gs (go_step can g n)) = nt_errs (go_step can g n) @ es'"
    using Cons.IH by blast
  ultimately show ?case by (simp add: schedule_def)
qed (simp add: schedule_def)

text \<open>Distinct sockets that the system gives out are all opened, in whatever order.\<close>

lemma schedule_all_open:
  assumes "map socket_of gs = map Some ss" "distinct ss" "\<forall>s \<in> set ss. can (fst s) (snd s) \<and> s \<notin> set (nt_bound n)"
  shows "schedule can gs n = n\<lparr>nt_bound := rev ss @ nt_bound n\<rparr>"
  using assms
proof (induction gs arbitrary: ss n)
  case (Cons g gs)
  then obtain s ss' where ss: "ss = s # ss'" "socket_of g = Some s" "map socket_of gs = map Some ss'" by (cases ss) auto
  with Cons.prems have g: "go_step can g n = n\<lparr>nt_bound := s # nt_bound n\<rparr>" by (intro go_step_opens) auto
  have "schedule can gs (n\<lparr>nt_bound := s # nt_bound n\<rparr>) = n\<lparr>nt_bound := rev ss' @ s # nt_bound n\<rparr>"
    using Cons.IH [OF ss(3), of "n\<lparr>nt_bound := s # nt_bound n\<rparr>"] Cons.prems ss by auto
  then show ?case by (simp add: schedule_def g ss)
qed (simp add: schedule_def)

lemma schedule_one_fails:
  assumes "g \<in> set gs" "socket_of g = Some s" "\<not> can (fst s) (snd s)"
  shows "nt_errs (schedule can gs n) \<noteq> []"
  using assms(1)
proof (induction gs arbitrary: n)
  case (Cons x gs)
  show ?case
  proof (cases "x = g")
    case True
    with go_step_fails [OF assms(2), of can n] assms(3) have "nt_errs (go_step can x n) \<noteq> []" by auto
    with schedule_errs [of can gs "go_step can x n"] show ?thesis by (auto simp: schedule_def)
  next
    case False
    with Cons show ?thesis by (simp add: schedule_def)
  qed
qed simp

section \<open>What a start launches\<close>

lemma start_raw_live [simp]: "px_live (start_raw r px) = px_live px" "px_errs (start_raw r px) = px_errs px"
  by (simp_all add: start_raw_def startTCPProxy_def startUDPProxy_def Let_def)

lemma fold_start_raw_live [simp]:
  "px_live (fold start_raw rs px) = px_live px" "px_errs (fold start_raw rs px) = px_errs px"
  by (induction rs arbitrary: px) simp_all

lemma start_raw_keys:
  "distinct (map fst (px_tcp px)) \<Longrightarrow> distinct (map fst (px_tcp (start_raw r px)))"
  "distinct (map fst (px_udp px)) \<Longrightarrow> distinct (map fst (px_udp (start_raw r px)))"
  by (simp_all add: start_raw_def startTCPProxy_def startUDPProxy_def Let_def distinct_update)

lemma fold_start_raw_keys:
  "distinct (map fst (px_tcp px)) \<Longrightarrow> distinct (map fst (px_tcp (fold start_raw rs px)))"
  "distinct (map fst (px_udp px)) \<Longrightarrow> distinct (map fst (px_udp (fold start_raw rs px)))"
  by (induction rs arbitrary: px) (simp_all add: start_raw_keys)

lemma startListeners_live:
  assumes "\<forall>(p, ls) \<in> set ss. ls_port ls = p"
  shows "\<exists>k. px_live (startListeners L ss px) = px_live px @ take k (map fst ss) \<and>
    (px_errs (startListeners L ss px) = [] \<longrightarrow> take k (map fst ss) = map fst ss)"
  using assms
proof (induction ss arbitrary: px)
  case (Cons e ss)
  obtain p ls where e: "e = (p, ls)" by force
  show ?case
  proof (cases "ls_tls ls \<and> \<not> tls_loads L (ls_cert ls) (ls_key ls)")
    case True
    then show ?thesis by (intro exI [of _ 0]) (simp add: e startListener_eq)
  next
    case False
    obtain k where k: "px_live (startListeners L ss (px\<lparr>px_live := px_live px @ [ls_port ls]\<rparr>)) =
        px_live px @ [ls_port ls] @ take k (map fst ss) \<and>
        (px_errs (startListeners L ss (px\<lparr>px_live := px_live px @ [ls_port ls]\<rparr>)) = [] \<longrightarrow> take k (map fst ss) = map fst ss)"
      using Cons.IH [of "px\<lparr>px_live := px_live px @ [ls_port ls]\<rparr>"] Cons.prems by auto
    with False Cons.prems show ?thesis by (intro exI [of _ "Suc k"]) (simp add: e startListener_eq)
  qed
qed simp

lemma http_step_keys:
  "http_step L h p r st = Inr st' \<Longrightarrow> distinct (map fst (ps_servers st)) \<Longrightarrow> distinct (map fst (ps_servers st'))"
  by (auto simp: http_step_def distinct_update split: if_splits option.splits)

lemma parse_loop_keys:
  "parse_loop L rs st = Inr st' \<Longrightarrow> distinct (map fst (ps_servers st)) \<Longrightarrow> distinct (map fst (ps_servers st'))"
proof (induction rs arbitrary: st)
  case (Cons r rs)
  then obtain st1 where st1: "parse_step L r st = Inr st1" "parse_loop L rs st1 = Inr st'" by (auto split: sum.splits)
  have "distinct (map fst (ps_servers st1))"
    using st1(1) Cons.prems(2) http_step_keys
    by (fastforce simp: parse_step_def Let_def dest: raw_step_result(1) split: sum.splits if_splits)
  with Cons.IH [OF st1(2)] show ?case by simp
qed simp

lemma initProxies_keys: "initProxies L reg otel ss = Inr ss' \<Longrightarrow> map fst ss' = map fst ss"
  by (induction ss arbitrary: ss') (auto split: sum.splits)

lemma initProxies_ports:
  "initProxies L reg otel ss = Inr ss' \<Longrightarrow> \<forall>(p, ls) \<in> set ss. ls_port ls = p \<Longrightarrow> \<forall>(p, ls) \<in> set ss'. ls_port ls = p"
  by (induction ss arbitrary: ss') (fastforce split: sum.splits)+

lemma started_sockets:
  assumes "StartProxy L reg otel rs = Inr px"
  shows "distinct (px_live px)" "set (px_live px) \<subseteq> set (map fst (px_servers px))"
    "px_errs px = [] \<Longrightarrow> px_live px = map fst (px_servers px)"
    "distinct (map fst (px_tcp px))" "distinct (map fst (px_udp px))"
    "set (px_live px) \<inter> set (map fst (px_tcp px)) = {}"
proof -
  obtain st servers where st: "parse_loop L rs parse0 = Inr st" "parsed rs st"
    "initProxies L reg otel (ps_servers st) = Inr servers" "px_servers px = servers"
    by (rule StartProxy_result [OF assms])
  let ?px0 = "\<lparr>px_routes = rs, px_servers = servers, px_tcp = [], px_udp = [], px_live = [],
     px_started = True, px_otel = otel, px_errs = []\<rparr>"
  have px: "px = fold start_raw rs (startListeners L servers ?px0)"
    using assms st by (simp add: StartProxy_def parseProxies_def)
  have d0: "distinct (map fst (ps_servers st))" by (rule parse_loop_keys [OF st(1)]) (simp add: parse0_def)
  have "\<forall>(p, ls) \<in> set (ps_servers st). ls_port ls = p"
    using st(2) d0 by (auto simp: parsed_def parsed_servers_def)
  with initProxies_ports [OF st(3)] have ports: "\<forall>(p, ls) \<in> set servers. ls_port ls = p" by blast
  have d: "distinct (map fst servers)" using d0 initProxies_keys [OF st(3)] by simp
  obtain k where k: "px_live px = take k (map fst servers)" "px_errs px = [] \<longrightarrow> take k (map fst servers) = map fst servers"
    using startListeners_live [OF ports, of L ?px0] by (auto simp: px)
  show "distinct (px_live px)" unfolding k(1) using d by (rule distinct_take)
  show live: "set (px_live px) \<subseteq> set (map fst (px_servers px))" unfolding k(1) st(4) by (rule set_take_subset)
  show "px_errs px = [] \<Longrightarrow> px_live px = map fst (px_servers px)" using k st(4) by simp
  show "distinct (map fst (px_tcp px))" "distinct (map fst (px_udp px))"
    unfolding px by (auto intro!: fold_start_raw_keys simp: frame_simps)
  show "set (px_live px) \<inter> set (map fst (px_tcp px)) = {}"
    using live StartProxy_apart [OF assms] by (force simp: ports_apart_def map_of_eq_None_iff)
qed

text \<open>
  C35: a start that found no bad certificate opens every socket of the configuration, in whatever order the
  goroutines run, provided the system gives the ports out: the program ends only when there is no route at all,
  and the open sockets are exactly one for each HTTP port, each TCP relay and each UDP relay.
\<close>

theorem start_any_order:
  assumes "StartProxy L reg otel rs = Inr px" "px_errs px = []" "mset gs = mset (launched px)"
    and "\<forall>p \<in> set (map fst (px_servers px)) \<union> set (map fst (px_tcp px)). can TCP p" "\<forall>p \<in> set (map fst (px_udp px)). can UDP p"
  shows "program_ends can px gs net0 = (if px_servers px = [] \<and> px_tcp px = [] \<and> px_udp px = [] then [(False, None)] else []) \<and>
    set (nt_bound (schedule can gs net0)) =
      Pair TCP ` (set (map fst (px_servers px)) \<union> set (map fst (px_tcp px))) \<union> Pair UDP ` set (map fst (px_udp px))"
proof -
  define ss where "ss = map (\<lambda>g. the (socket_of g)) gs"
  define ls where "ls = map (Pair TCP) (px_live px) @ map (Pair TCP) (map fst (px_tcp px)) @ map (Pair UDP) (map fst (px_udp px))"
  note so = started_sockets [OF assms(1)]
  have "map (\<lambda>g. the (socket_of g)) (launched px) = ls" by (simp add: launched_def ls_def)
  then have m: "mset ss = mset ls" using assms(3) by (metis mset_map ss_def)
  have "distinct ls" using so(1,4-6) unfolding ls_def by (auto simp: distinct_map inj_on_def)
  then have d: "distinct ss" using m by (metis mset_eq_imp_distinct_iff)
  have set: "set ss = set ls" using m by (rule mset_eq_setD)
  have "\<forall>g \<in> set gs. socket_of g \<noteq> None"
    using mset_eq_setD [OF assms(3)] by (auto simp: launched_def)
  then have some: "map socket_of gs = map Some ss" by (auto simp: ss_def)
  have "\<forall>s \<in> set ss. can (fst s) (snd s) \<and> s \<notin> set (nt_bound net0)"
    using assms(4,5) so(3) [OF assms(2)] by (force simp: set ls_def net0_def)
  with schedule_all_open [OF some d] have "schedule can gs net0 = net0\<lparr>nt_bound := rev ss @ nt_bound net0\<rparr>" by blast
  moreover have "ss = [] \<longleftrightarrow> px_servers px = [] \<and> px_tcp px = [] \<and> px_udp px = []"
    using set so(3) [OF assms(2)] by (cases ss) (auto simp: ls_def)
  ultimately show ?thesis
    using assms(2) so(3) [OF assms(2)] by (auto simp: program_ends_def Let_def shutdown_causes_def net0_def set ls_def)
qed

theorem start_any_order_witness:
  "program_ends (\<lambda>_ _. True) demo_proxy (rev (launched demo_proxy)) net0 = []"
proof -
  have "px_errs demo_proxy = []" "px_tcp demo_proxy \<noteq> []" by code_simp+
  from start_any_order [OF demo_started this(1), of "rev (launched demo_proxy)"] this(2) show ?thesis by simp
qed

text \<open>
  The error can be lost: when no listener comes up, the last goroutine's end and the error are both ready,
  and \<^verbatim>\<open>select\<close> may take the first, so that the program ends as if nothing had gone wrong.
\<close>

lemma only_error_may_be_lost:
  assumes "px_errs px = []" "launched px = [StartServe p]" "\<not> can TCP p"
  shows "\<exists>e. set (program_ends can px (launched px) net0) = {(True, Some e), (False, None)}"
  using assms by (intro exI [of _ "Msg (''server :'' @ p @ '' failed'')"])
    (auto simp: program_ends_def Let_def shutdown_causes_def schedule_def listen_defs net0_def)

text \<open>After \<^verbatim>\<open>ShutdownHTTP\<close> no HTTP listener is open, and the sockets of the relays are as before.\<close>

lemma close_all: "nt_bound (fold (close_socket pr) ps n) = filter (\<lambda>s. \<not> (fst s = pr \<and> snd s \<in> set ps)) (nt_bound n)"
proof (induction ps arbitrary: n)
  case (Cons p ps)
  then show ?case by (auto simp: close_socket_def removeAll_filter_not_eq intro!: filter_cong)
qed simp

lemma ShutdownHTTP_bound:
  "set (nt_bound (ShutdownHTTP px n)) = set (nt_bound n) - Pair TCP ` set (px_live px)"
  by (auto simp: ShutdownHTTP_def close_all)

section \<open>Re-targeting a relay\<close>

definition relaunched :: "ProxyRoute \<Rightarrow> proxy \<Rightarrow> goroutine list" where
  "relaunched r px =
     (let port = port_of r
      in (if isTCP (pr_type r) then (if map_of (px_tcp px) port \<noteq> None then [CloseTCP port] else []) @ [RunTCP port] else []) @
         (if isUDP (pr_type r) then (if map_of (px_udp px) port \<noteq> None then [CloseUDP port] else []) @ [RunUDP port] else []))"

text \<open>
  A new target for a TCP relay is a race. The goroutine that closes the old socket and the one that opens
  the new one are not ordered: if the first runs first the relay goes on, if the second does, the port is still
  taken, the error ends the whole program, and the port is left closed.
\<close>

lemma retarget_race:
  assumes "pr_type r = ''tcp''" "map_of (px_tcp px) (port_of r) \<noteq> None" "px_errs px = []" "nt_errs n = []"
    and "(TCP, port_of r) \<in> set (nt_bound n)" "can TCP (port_of r)"
  shows "\<exists>gs gs'. mset gs = mset (relaunched r px) \<and> mset gs' = mset (relaunched r px) \<and>
    program_ends can px gs n = [] \<and> (TCP, port_of r) \<in> set (nt_bound (schedule can gs n)) \<and>
    (\<exists>e. (True, Some e) \<in> set (program_ends can px gs' n)) \<and> (TCP, port_of r) \<notin> set (nt_bound (schedule can gs' n))"
proof -
  let ?p = "port_of r"
  have ty: "isTCP ''tcp''" "\<not> isUDP ''tcp''" by code_simp+
  then have l: "relaunched r px = [CloseTCP ?p, RunTCP ?p]" using assms(1,2) by (simp add: relaunched_def Let_def)
  have "program_ends can px [CloseTCP ?p, RunTCP ?p] n = []" "(TCP, ?p) \<in> set (nt_bound (schedule can [CloseTCP ?p, RunTCP ?p] n))"
    using assms by (simp_all add: program_ends_def Let_def shutdown_causes_def schedule_def listen_defs)
  moreover have "\<exists>e. (True, Some e) \<in> set (program_ends can px [RunTCP ?p, CloseTCP ?p] n)"
    "(TCP, ?p) \<notin> set (nt_bound (schedule can [RunTCP ?p, CloseTCP ?p] n))"
    unfolding program_ends_error using assms by (simp_all add: schedule_def listen_defs)
  ultimately show ?thesis unfolding l
    by (intro exI [of _ "[CloseTCP ?p, RunTCP ?p]"] exI [of _ "[RunTCP ?p, CloseTCP ?p]"]) simp
qed

lemma retarget_race_witness:
  "\<exists>gs e. mset gs = mset (relaunched (plain_route ''c:9000'' ''tcp'') (fst (RegisterRoute plain_lib [] (plain_route ''c:9000'' ''tcp'') demo_proxy))) \<and>
    (True, Some e) \<in> set (program_ends (\<lambda>_ _. True) (fst (RegisterRoute plain_lib [] (plain_route ''c:9000'' ''tcp'') demo_proxy)) gs
      \<lparr>nt_bound = [(TCP, ''9000'')], nt_errs = []\<rparr>)"
proof -
  let ?r = "plain_route ''c:9000'' ''tcp''"
  let ?px = "fst (RegisterRoute plain_lib [] ?r demo_proxy)"
  have r: "pr_type ?r = ''tcp''" "port_of ?r = ''9000''" by code_simp+
  have px: "px_errs ?px = []" by code_simp
  have "map_of (px_tcp ?px) ''9000'' = Some (''10.0.0.1:80'', ''c:9000'')" by code_simp
  then have "map_of (px_tcp ?px) (port_of ?r) \<noteq> None" by (simp add: r)
  from retarget_race [OF r(1) this px, of "\<lparr>nt_bound = [(TCP, ''9000'')], nt_errs = []\<rparr>" "\<lambda>_ _. True"]
  show ?thesis by (simp add: r) blast
qed

section \<open>A saved route whose port cannot be opened\<close>

text \<open>One plain HTTP route in the body of a POST.\<close>

definition plain_post :: "request \<Rightarrow> string \<Rightarrow> string \<Rightarrow> bool" where
  "plain_post r host port \<longleftrightarrow> bd_ok (rq_body r) \<and> parseHostPort (bd_str (rq_body r) ''url'') = Inr (host, port) \<and>
     bd_str (rq_body r) ''type'' = ''proxy'' \<and> \<not> bd_bool (rq_body r) ''tls'' \<and> bd_int (rq_body r) ''range_end'' = 0"

lemma posted_row:
  assumes "plain_post r host port" "routes_post L now rnd r s = (Respond rs, s1)" "rs_status rs = StatusOK"
    and "splitHostPortNum (bd_str (rq_body r) ''url'') = Some (h, n)" "0 \<le> n" "db_ok (s_db s)"
  shows "\<exists>row. route_lookup (s_db s1) (bd_str (rq_body r) ''url'') = Some row \<and> rt_enabled row \<and> rt_source row = ''ui'' \<and>
    rt_type row = ''proxy'' \<and> db_ok (s_db s1)"
proof -
  let ?url = "bd_str (rq_body r) ''url''"
  obtain d' res where c: "CreateRoute L now (s_db s) ?url (bd_str (rq_body r) ''target'') ''proxy'' False [] [] [] = (d', res)" by force
  have ty: "\<not> isRawType ''proxy''" by (simp add: isRawType_def)
  have post: "(\<exists>u. res = Inr u) \<and> s_db s1 = d'"
    using assms(1-5) c ty
    by (cases res) (auto simp: plain_post_def routes_post_def Let_def respond_defs status_defs case_prod_beta
        split: if_splits sum.splits)
  then obtain row where "res = Inr row" by blast
  with c have row: "row = new_route (routes_seq (s_db s) + 1) now ?url (bd_str (rq_body r) ''target'') ''proxy'' False [] [] ''ui'' []"
    "routes d' = routes (s_db s) @ [row]" by (auto simp: CreateRoute_def Let_def split: if_splits)
  have ok: "db_ok d'" using CreateRoute_ok [OF assms(6), of L now ?url "bd_str (rq_body r) ''target''" "''proxy''" False "[]" "[]" "[]"] c by simp
  then have "distinct (map rt_url (routes d'))" by (simp add: db_ok_def routes_ok_def)
  then have "route_lookup d' ?url = Some row"
    unfolding route_lookup_def by (rule find_unique) (simp_all add: row)
  with row ok post show ?thesis by (simp add: new_route_def)
qed

lemma run_keeps_row:
  assumes "run L now decoded opening migrated d0 = (d, Inr s)" "db_ok d0" "loadConfig decoded = Inr c"
    and "route_lookup d0 url = Some row" "rt_enabled row" "rt_source row = ''ui''" "url \<notin> cr_url ` set (cf_routes c)"
  obtains row' rs where "rt_url row' = url" "rt_type row' = rt_type row" "row' \<in> set rs"
    "StartProxy L (s_registry s) (oc_enabled (cf_otel c)) (map (proxy_route c) rs) = Inr (s_proxy s)"
proof (rule run_cases [OF assms(1)])
  fix c' reg0 d1 d2 rs
  assume r: "loadConfig decoded = Inr c'" "New L now opening migrated d0 = (d1, Inr ())"
    "SyncRoutes L now (dbase (InitAuth (in_call ''InitAuth'' L) now (world0 d1))) (cf_routes c') = (d2, Inr ())"
    "s_world s = RefreshCache (in_call ''RefreshCache'' L) now ((InitAuth (in_call ''InitAuth'' L) now (world0 d1))\<lparr>dbase := protect_admin L now c' d2\<rparr>)"
    "GetAllRoutes L (dbase (s_world s)) = Inr rs"
    "StartProxy L (s_registry s) (oc_enabled (cf_otel c')) (map (proxy_route c') rs) = Inr (s_proxy s)"
  have c: "c' = c" using r(1) assms(3) by simp
  note ok1 = opened_db(1,2) [OF r(2) assms(2)]
  note init = opened_db(4) [OF r(2) assms(2), of "in_call ''InitAuth'' L"]
  have l1: "route_lookup d1 url = Some row" using assms(4) ok1(2) by (simp add: route_lookup_def)
  have "List.find (\<lambda>x. cr_url x = url) (rev (cf_routes c)) = None" using assms(7) by (auto simp: find_none)
  with SyncRoutes_synced [OF r(3), of url] init ok1(1) c l1 assms(6) have l2: "route_lookup d2 url = Some row"
    by (simp add: synced_def)
  have "\<exists>row'. route_lookup (protect_admin L now c d2) url = Some row' \<and> rt_enabled row' \<and> rt_type row' = rt_type row"
    using l2 assms(5) by (auto simp: protect_admin_def EnsureRouteGroup_def route_lookup_update RouteStore.touch_def split: option.split)
  then obtain row' where row': "route_lookup (dbase (s_world s)) url = Some row'" "rt_enabled row'" "rt_type row' = rt_type row"
    by (auto simp: r(4) c)
  then have "row' \<in> set rs" using r(5) by (auto simp: route_lookup_def GetAllRoutes_def dest!: find_in_set split: if_splits)
  with route_lookup_url [OF row'(1)] row'(3) r(6) c show thesis by (intro that) simp_all
qed

text \<open>
  C34: one route whose port cannot be opened (a privileged port, a port of another process, a number that is
  no port) takes the program down for good. The admin API accepts and saves it; from then on every start with
  that database, in whatever order the goroutines run, has the error of a listener waiting that ends it.
\<close>

theorem unopenable_route_is_fatal:
  assumes "plain_post r host port" "routes_post L now rnd r s = (Respond rs, s1)" "rs_status rs = StatusOK" "db_ok (s_db s)"
    and "splitHostPortNum (bd_str (rq_body r) ''url'') = Some (h, n)" "0 \<le> n" "\<not> can TCP port"
    and "run L now' decoded opening migrated (s_db s1) = (d, Inr s2)" "loadConfig decoded = Inr c"
    and "bd_str (rq_body r) ''url'' \<notin> cr_url ` set (cf_routes c)" "mset gs = mset (launched (s_proxy s2))"
  shows "\<exists>e. (True, Some e) \<in> set (program_ends can (s_proxy s2) gs net0)"
proof -
  let ?url = "bd_str (rq_body r) ''url''"
  obtain row where row: "route_lookup (s_db s1) ?url = Some row" "rt_enabled row" "rt_source row = ''ui''"
    "rt_type row = ''proxy''" "db_ok (s_db s1)"
    using posted_row [OF assms(1-3,5,6,4)] by blast
  obtain row' rs2 where r': "rt_url row' = ?url" "rt_type row' = rt_type row" "row' \<in> set rs2"
    "StartProxy L (s_registry s2) (oc_enabled (cf_otel c)) (map (proxy_route c) rs2) = Inr (s_proxy s2)"
    by (rule run_keeps_row [OF assms(8) row(5) assms(9) row(1-3) assms(10)])
  have p: "parseHostPort ?url = Inr (host, port)" using assms(1) by (simp add: plain_post_def)
  have raw: "\<not> isRaw (pr_type (proxy_route c row'))"
    using r'(2) row(4) by (simp add: proxy_route_def) code_simp
  have "port_of (proxy_route c row') = port" by (simp add: port_of_def proxy_route_def r'(1) p)
  with StartProxy_complete [OF r'(4) _ raw] r'(3) have "map_of (px_servers (s_proxy s2)) port \<noteq> None"
    by (auto simp: handler_at_def split: option.splits)
  then have server: "port \<in> set (map fst (px_servers (s_proxy s2)))" by (simp add: map_of_eq_None_iff)
  have "px_errs (s_proxy s2) @ nt_errs (schedule can gs net0) \<noteq> []"
  proof (cases "px_errs (s_proxy s2) = []")
    case True
    with started_sockets(3) [OF r'(4)] server have "StartServe port \<in> set (launched (s_proxy s2))"
      by (auto simp: launched_def)
    then have "StartServe port \<in> set gs" using mset_eq_setD [OF assms(11)] by simp
    from schedule_one_fails [OF this, of "(TCP, port)" can net0] assms(7) show ?thesis by simp
  qed simp
  then show ?thesis by (simp only: program_ends_error not_False_eq_True)
qed

text \<open>A route on port 7, posted over an empty database, and the start after it.\<close>

definition bad_port_post :: request where
  "bad_port_post = post_request ''/api/admin/routes''
     ((\<lambda>_. [])(''url'' := ''h:7'', ''target'' := ''t:1'', ''type'' := ''proxy''))"

definition empty_site :: site where
  "empty_site = demo_site\<lparr>s_world := world0 empty_db, s_proxy := gate_proxy\<rparr>"

definition posted_site :: site where
  "posted_site = snd (routes_post plain_lib 6 [] bad_port_post empty_site)"

definition bare_config :: config where
  "bare_config = boot_config\<lparr>cf_admin := off_page, cf_routes := []\<rparr>"

definition restarted_site :: site where
  "restarted_site = projr (snd (run plain_lib 7 (Some bare_config) (Inr ()) (Inr ()) (s_db posted_site)))"

theorem unopenable_route_is_fatal_witness:
  "\<exists>e. (True, Some e) \<in> set (program_ends (\<lambda>pr p. p \<noteq> ''7'') (s_proxy restarted_site) (launched (s_proxy restarted_site)) net0)"
proof -
  have "plain_post bad_port_post ''h'' ''7''" by code_simp
  moreover have "case fst (routes_post plain_lib 6 [] bad_port_post empty_site) of Respond rs \<Rightarrow> rs_status rs = StatusOK | _ \<Rightarrow> False"
    by code_simp
  then obtain rs where "routes_post plain_lib 6 [] bad_port_post empty_site = (Respond rs, posted_site)" "rs_status rs = StatusOK"
    by (cases "routes_post plain_lib 6 [] bad_port_post empty_site"; cases "fst (routes_post plain_lib 6 [] bad_port_post empty_site)")
      (auto simp: posted_site_def)
  moreover have "splitHostPortNum (bd_str (rq_body bad_port_post) ''url'') = Some (''h'', 7)" by code_simp
  moreover have "db_ok (s_db empty_site)" by (simp add: empty_site_def world0_def empty_db_ok)
  moreover have "\<not> isl (snd (run plain_lib 7 (Some bare_config) (Inr ()) (Inr ()) (s_db posted_site)))" by code_simp
  then obtain d where "run plain_lib 7 (Some bare_config) (Inr ()) (Inr ()) (s_db posted_site) = (d, Inr restarted_site)"
    by (cases "run plain_lib 7 (Some bare_config) (Inr ()) (Inr ()) (s_db posted_site)";
        cases "snd (run plain_lib 7 (Some bare_config) (Inr ()) (Inr ()) (s_db posted_site))") (auto simp: restarted_site_def)
  moreover have "loadConfig (Some bare_config) = Inr (generateAuthAdm (validateConfig bare_config))" by (simp add: loadConfig_def)
  moreover have "bd_str (rq_body bad_port_post) ''url'' \<notin> cr_url ` set (cf_routes (generateAuthAdm (validateConfig bare_config)))"
    by code_simp
  ultimately show ?thesis
    by (intro unopenable_route_is_fatal [where gs = "launched (s_proxy restarted_site)" and port = "''7''"]) auto
qed

end
