(* ===== verification/Shutdown.thy ===== *)
theory Shutdown
  imports Sockets
begin

text \<open>
  The end of the program, statement by statement: \<^verbatim>\<open>cleanShutdown\<close> and the deferred calls of \<open>run\<close> in main.go, with
  what still runs beside them: the raw relays, HTTP handlers in flight, the log drain and the ticker of
  \<^verbatim>\<open>InitAuth\<close>. Deferred calls run in reverse order: the stop function of \<^verbatim>\<open>InitAuth\<close>, the database, the
  telemetry, and last the signal context.
\<close>

section \<open>State\<close>

datatype phase = Selecting | ClosingHTTP | AwaitingServers | ClosingLog | AwaitingDrain | ClosingDB | ClosingOtel | StoppingSignals | Exited

text \<open>
  \<open>en_accepted\<close> and \<open>en_written\<close> are the log entries that have entered the queue and those that have
  been inserted into the table. \<open>en_handlers\<close>: some HTTP handler may still be running.
\<close>

record ending =
  en_world :: world
  en_cancelled :: bool
  en_errs :: "err list"
  en_http :: bool
  en_handlers :: bool
  en_relays :: bool
  en_ticker :: bool
  en_log_closed :: bool
  en_db_closed :: bool
  en_phase :: phase
  en_result :: "err option"
  en_crashed :: bool
  en_accepted :: "logEntry list"
  en_written :: "logEntry list"

definition ending0 :: "world \<Rightarrow> err list \<Rightarrow> bool \<Rightarrow> bool \<Rightarrow> ending" where
  "ending0 w errs http relays = \<lparr>en_world = w, en_cancelled = False, en_errs = errs, en_http = http, en_handlers = http,
     en_relays = relays, en_ticker = True, en_log_closed = False, en_db_closed = False, en_phase = Selecting,
     en_result = None, en_crashed = False, en_accepted = logChan w, en_written = []\<rparr>"

text \<open>A closed database fails every statement.\<close>

definition db_lib :: "lib \<Rightarrow> ending \<Rightarrow> lib" where
  "db_lib L s = (if en_db_closed s then L\<lparr>db_fault := (\<lambda>_. True)\<rparr> else L)"

definition finished :: "ending \<Rightarrow> bool" where
  "finished s \<longleftrightarrow> \<not> en_http s \<and> \<not> en_relays s"

section \<open>Steps\<close>

text \<open>
  The statements of \<open>run\<close>; a signal; the relays ending on the cancelled context; the relays ending without it,
  each by an error of its \<^verbatim>\<open>Accept\<close> or \<^verbatim>\<open>ReadFrom\<close> or because its route is deleted; a connection at a TCP relay; the first datagram of a flow at a UDP relay; a handler that logs an access; one
  entry written by the drain; a tick. A send on the closed queue panics: in a relay's goroutine this ends the
  process, in an HTTP handler \<^verbatim>\<open>net/http\<close> recovers it.
\<close>

datatype end_label =
    Select shutdown_cause | HttpClosed bool | ServersDone | WaitTimeout | LogClosed | Drained | DbClosed | OtelClosed | SignalsStopped
  | Signal | RelaysEnd | RelaysFail | RelayConn time string string string bool | RelayFlow time string string string bool
  | HandlerLogs string string string | DrainOne time | Tick time | TickerStops

text \<open>The connections and the flows that reach a \<^verbatim>\<open>logAccess\<close>.\<close>

definition conn_logs :: "lib \<Rightarrow> time \<Rightarrow> string \<Rightarrow> bool \<Rightarrow> string \<Rightarrow> string \<Rightarrow> world \<Rightarrow> bool" where
  "conn_logs L now addr dial target url w =
     (case fst (handleTCPConn L now addr dial target url w) of
        Refused \<Rightarrow> \<not> fst (check_banned now (client_ip addr) w)
      | TcpPanic \<Rightarrow> False
      | _ \<Rightarrow> authStore w)"

definition flow_logs :: "lib \<Rightarrow> time \<Rightarrow> string \<Rightarrow> bool \<Rightarrow> string \<Rightarrow> world \<Rightarrow> bool" where
  "flow_logs L now addr dial url w =
     (let (banned, w1) = check_banned now (client_ip addr) w
      in \<not> banned \<and> (case fst (authorizeIP L now url (client_ip addr) w1) of
                          None \<Rightarrow> False
                        | Some (authorized, _) \<Rightarrow> authorized \<longrightarrow> dial))"

definition first_datagram ::
  "lib \<Rightarrow> time \<Rightarrow> string \<Rightarrow> bool \<Rightarrow> string \<Rightarrow> string \<Rightarrow> world \<Rightarrow> udp_outcome \<times> world" where
  "first_datagram L now addr dial target url w =
     (let (res, (u, w')) = udp_packet L now addr dial
            (\<lparr>ur_target = target, ur_url = url, ur_open = True, ur_sessions = []\<rparr>, w)
      in (res, w'))"

definition log_conn :: "world \<Rightarrow> world \<Rightarrow> ending \<Rightarrow> ending" where
  "log_conn w w' s = s\<lparr>en_world := w', en_accepted := en_accepted s @ drop (length (logChan w)) (logChan w')\<rparr>"

fun end_step :: "lib \<Rightarrow> end_label \<Rightarrow> ending \<Rightarrow> ending option" where
  "end_step L (Select c) s =
     (if en_phase s = Selecting \<and> c \<in> set (shutdown_causes (en_cancelled s) (en_errs s) (finished s))
      then let (down, res) = cleanShutdown c
        in Some (s\<lparr>en_phase := (if down then ClosingHTTP else ClosingLog), en_result := res\<rparr>)
      else None)"
| "end_step L (HttpClosed all_done) s =
     (if en_phase s = ClosingHTTP
      then Some (s\<lparr>en_phase := AwaitingServers, en_http := False, en_handlers := en_handlers s \<and> \<not> all_done\<rparr>) else None)"
| "end_step L ServersDone s =
     (if en_phase s = AwaitingServers \<and> finished s then Some (s\<lparr>en_phase := ClosingLog\<rparr>) else None)"
| "end_step L WaitTimeout s = (if en_phase s = AwaitingServers then Some (s\<lparr>en_phase := ClosingLog\<rparr>) else None)"
| "end_step L LogClosed s =
     (if en_phase s = ClosingLog then Some (s\<lparr>en_phase := AwaitingDrain, en_log_closed := True\<rparr>) else None)"
| "end_step L Drained s =
     (if en_phase s = AwaitingDrain \<and> logChan (en_world s) = [] then Some (s\<lparr>en_phase := ClosingDB\<rparr>) else None)"
| "end_step L DbClosed s =
     (if en_phase s = ClosingDB then Some (s\<lparr>en_phase := ClosingOtel, en_db_closed := True\<rparr>) else None)"
| "end_step L OtelClosed s = (if en_phase s = ClosingOtel then Some (s\<lparr>en_phase := StoppingSignals\<rparr>) else None)"
| "end_step L SignalsStopped s =
     (if en_phase s = StoppingSignals then Some (s\<lparr>en_phase := Exited, en_cancelled := True\<rparr>) else None)"
| "end_step L Signal s = Some (s\<lparr>en_cancelled := True\<rparr>)"
| "end_step L RelaysEnd s = (if en_cancelled s then Some (s\<lparr>en_relays := False\<rparr>) else None)"
| "end_step L RelaysFail s = Some (s\<lparr>en_relays := False\<rparr>)"
| "end_step L (RelayConn now addr target url dial) s =
     (if \<not> en_relays s then None
      else let (res, w') = handleTCPConn (db_lib L s) now addr dial target url (en_world s)
        in if res = TcpPanic \<or> en_log_closed s \<and> conn_logs (db_lib L s) now addr dial target url (en_world s)
           then Some (s\<lparr>en_crashed := True\<rparr>)
           else Some (log_conn (en_world s) w' s))"
| "end_step L (RelayFlow now addr target url dial) s =
     (if \<not> en_relays s then None
      else let (res, w') = first_datagram (db_lib L s) now addr dial target url (en_world s)
        in if res = UdpPanic \<or> en_log_closed s \<and> flow_logs (db_lib L s) now addr dial url (en_world s)
           then Some (s\<lparr>en_crashed := True\<rparr>)
           else Some (log_conn (en_world s) w' s))"
| "end_step L (HandlerLogs ip user url) s =
     (if \<not> en_handlers s then None
      else if en_log_closed s then Some s
      else Some (log_conn (en_world s) (logAccess ip user url (en_world s)) s))"
| "end_step L (DrainOne now) s =
     (case logChan (en_world s) of
        [] \<Rightarrow> None
      | e # es \<Rightarrow>
          Some (s\<lparr>en_world := drain_log (db_lib L s) now (en_world s),
                  en_written := (if db_fault (db_lib L s) ''LogAccess'' then en_written s else en_written s @ [e])\<rparr>))"
| "end_step L (Tick now) s =
     (if en_ticker s then Some (s\<lparr>en_world := auth_tick (db_lib L s) now (en_world s)\<rparr>) else None)"
| "end_step L TickerStops s = (if en_cancelled s then Some (s\<lparr>en_ticker := False\<rparr>) else None)"

text \<open>After a crash or the exit nothing runs.\<close>

fun end_run :: "lib \<Rightarrow> end_label list \<Rightarrow> ending \<Rightarrow> ending option" where
  "end_run L [] s = Some s"
| "end_run L (l # ls) s =
     (if en_crashed s \<or> en_phase s = Exited then None
      else case end_step L l s of None \<Rightarrow> None | Some t \<Rightarrow> end_run L ls t)"

section \<open>The queue is accounted for\<close>

text \<open>What a relay's work leaves alone: the queue up to new entries, the store and the cache.\<close>

definition undisturbed :: "world \<Rightarrow> world \<Rightarrow> logEntry list \<Rightarrow> bool" where
  "undisturbed w w' es \<longleftrightarrow> logChan w' = logChan w @ es \<and> authStore w' = authStore w \<and> (authCache w' = None \<longleftrightarrow> authCache w = None)"

lemma undisturbed_trans: "undisturbed w w1 es \<Longrightarrow> undisturbed w1 w2 es' \<Longrightarrow> undisturbed w w2 (es @ es')"
  by (simp add: undisturbed_def)

lemma undisturbed_parts [simp]:
  "undisturbed w (record_event now ip r outc w') es = undisturbed w w' es" "undisturbed w (record_failure L now ip w') es = undisturbed w w' es"
  "undisturbed w (signed_in now ip u w') es = undisturbed w w' es"
  by (simp_all add: undisturbed_def record_event_def record_failure_def signed_in_def set_tier_def split: prod.split)

lemma stored_parts [simp]:
  "authStore (record_event now ip r outc w) = authStore w" "authStore (signed_in now ip u w) = authStore w"
  by (simp_all add: record_event_def signed_in_def set_tier_def)

lemma undisturbed_log: "\<exists>es. undisturbed w (logAccess ip u r w) es"
  by (auto simp: undisturbed_def logAccess_def)

lemma undisturbed_log':
  assumes "undisturbed w w' []"
  shows "\<exists>es. undisturbed w (logAccess ip u r w') es"
    and "\<exists>es. undisturbed w (logAccess ip u r (record_event now i x outc (signed_in now i v w'))) es"
proof -
  show "\<exists>es. undisturbed w (logAccess ip u r w') es" for ip u r
    using undisturbed_log [of w' ip u r] undisturbed_trans [OF assms] by blast
  have "undisturbed w (record_event now i x outc (signed_in now i v w')) []" using assms by simp
  from undisturbed_trans [OF this]
  show "\<exists>es. undisturbed w (logAccess ip u r (record_event now i x outc (signed_in now i v w'))) es"
    using undisturbed_log [of "record_event now i x outc (signed_in now i v w')" ip u r] by blast
qed

lemma undisturbed_gate: "undisturbed w (snd (authorizeIP L now url ip (snd (check_banned now ip w)))) []"
  by (auto simp: undisturbed_def authorizeIP_def extend_by_ip_def check_banned_thr Let_def split: option.splits sum.splits)

lemma gate_panics: "fst (authorizeIP L now url ip w) = None \<longleftrightarrow> authCache w = None"
  by (auto simp: authorizeIP_def Let_def split: option.splits sum.splits)

lemma gate_parts:
  obtains b w1 res w2 where "check_banned now ip w = (b, w1)" "authorizeIP L now url ip w1 = (res, w2)"
    "undisturbed w w1 []" "undisturbed w w2 []" "authStore w2 = authStore w" "res = None \<longleftrightarrow> authCache w = None"
proof -
  obtain b w1 where b: "check_banned now ip w = (b, w1)" by force
  obtain res w2 where a: "authorizeIP L now url ip w1 = (res, w2)" by force
  have w1: "undisturbed w w1 []" using b by (auto simp: check_banned_thr undisturbed_def)
  have w2: "undisturbed w w2 []" using undisturbed_gate [of w L now url ip] b a by simp
  from that [OF b a w1 w2] show thesis using gate_panics [of L now url ip w1] a w1 w2 by (simp add: undisturbed_def)
qed

text \<open>A connection and a flow add entries exactly when they log; and a loaded cache does not panic.\<close>

lemma conn_undisturbed:
  assumes "handleTCPConn L now addr dial target url w = (res, w')"
  shows "\<exists>es. undisturbed w w' es \<and> (\<not> conn_logs L now addr dial target url w \<longrightarrow> es = [])"
    and "res = TcpPanic \<Longrightarrow> authCache w = None"
proof -
  obtain b w1 r w2 where g: "check_banned now (client_ip addr) w = (b, w1)" "authorizeIP L now url (client_ip addr) w1 = (r, w2)"
    "undisturbed w w1 []" "undisturbed w w2 []" "authStore w2 = authStore w" "r = None \<longleftrightarrow> authCache w = None"
    by (rule gate_parts)
  show "\<exists>es. undisturbed w w' es \<and> (\<not> conn_logs L now addr dial target url w \<longrightarrow> es = [])"
    using assms g undisturbed_log' [OF g(4)]
    by (auto simp: handleTCPConn_def conn_logs_def raw_reject_def Let_def split: option.splits if_splits)
  show "authCache w = None" if "res = TcpPanic"
    using assms g that by (auto simp: handleTCPConn_def Let_def split: option.splits if_splits)
qed

lemma flow_undisturbed:
  assumes "first_datagram L now addr dial target url w = (res, w')"
  shows "\<exists>es. undisturbed w w' es \<and> (\<not> flow_logs L now addr dial url w \<longrightarrow> es = [])"
    and "res = UdpPanic \<Longrightarrow> authCache w = None"
proof -
  obtain b w1 r w2 where g: "check_banned now (client_ip addr) w = (b, w1)" "authorizeIP L now url (client_ip addr) w1 = (r, w2)"
    "undisturbed w w1 []" "undisturbed w w2 []" "authStore w2 = authStore w" "r = None \<longleftrightarrow> authCache w = None"
    by (rule gate_parts)
  show "\<exists>es. undisturbed w w' es \<and> (\<not> flow_logs L now addr dial url w \<longrightarrow> es = [])"
    using assms g undisturbed_log' [OF g(4)]
    by (auto simp: first_datagram_def udp_packet_def flow_logs_def raw_reject_def Let_def split: option.splits if_splits)
  show "authCache w = None" if "res = UdpPanic"
    using assms g that by (auto simp: first_datagram_def udp_packet_def Let_def split: option.splits if_splits)
qed

lemma auth_tick_undisturbed:
  "logChan (auth_tick L now w) = logChan w" "authStore (auth_tick L now w) = authStore w"
  "authCache w \<noteq> None \<Longrightarrow> authCache (auth_tick L now w) \<noteq> None"
  by (simp_all add: auth_tick_def refreshCache_def Let_def split: sum.split)

lemma drain_undisturbed [simp]: "authStore (drain_log L now w) = authStore w" "authCache (drain_log L now w) = authCache w"
  by (simp_all add: drain_log_def split: list.split)

lemma logAccess_undisturbed [simp]: "authStore (logAccess i u r w) = authStore w" "authCache (logAccess i u r w) = authCache w"
  by (simp_all add: logAccess_def)

text \<open>
  What entered the queue is what was written and what is still queued; the database closes on an empty closed
  queue only.
\<close>

definition log_inv :: "ending \<Rightarrow> bool" where
  "log_inv s \<longleftrightarrow> en_accepted s = en_written s @ logChan (en_world s) \<and>
     (en_log_closed s \<longleftrightarrow> en_phase s \<in> {AwaitingDrain, ClosingDB, ClosingOtel, StoppingSignals, Exited}) \<and>
     (en_db_closed s \<longleftrightarrow> en_phase s \<in> {ClosingOtel, StoppingSignals, Exited}) \<and>
     (en_phase s \<in> {ClosingDB, ClosingOtel, StoppingSignals, Exited} \<longrightarrow> logChan (en_world s) = [])"

lemma ending0_log: "log_inv (ending0 w errs http relays)"
  by (simp add: log_inv_def ending0_def)

text \<open>A step that leaves the phase, the queue and the two flags alone.\<close>

lemma log_inv_frame:
  assumes "log_inv s" "en_phase t = en_phase s" "en_log_closed t = en_log_closed s" "en_db_closed t = en_db_closed s"
    and "logChan (en_world t) = logChan (en_world s) @ es" "en_accepted t = en_accepted s @ es" "en_written t = en_written s"
    and "es = [] \<or> \<not> en_log_closed s"
  shows "log_inv t"
  using assms by (auto simp: log_inv_def)

lemma log_inv_conn:
  "log_inv s \<Longrightarrow> undisturbed (en_world s) w' es \<Longrightarrow> es = [] \<or> \<not> en_log_closed s \<Longrightarrow> log_inv (log_conn (en_world s) w' s)"
  by (rule log_inv_frame [of s _ es]) (simp_all add: log_conn_def undisturbed_def)

definition at_relay :: "end_label \<Rightarrow> bool" where
  "at_relay l = (case l of RelayConn _ _ _ _ _ \<Rightarrow> True | RelayFlow _ _ _ _ _ \<Rightarrow> True | _ \<Rightarrow> False)"

lemma at_relay_cases:
  assumes "at_relay l"
  obtains now addr target url dial where "l = RelayConn now addr target url dial"
  | now addr target url dial where "l = RelayFlow now addr target url dial"
  using assms by (cases l) (simp_all add: at_relay_def)

lemma conn_step:
  assumes "end_step L l s = Some t" "at_relay l"
  obtains "en_relays s" "t = s\<lparr>en_crashed := True\<rparr>" "en_log_closed s \<or> authCache (en_world s) = None"
  | w' es where "t = log_conn (en_world s) w' s" "undisturbed (en_world s) w' es" "es = [] \<or> \<not> en_log_closed s"
  using assms(2)
proof (cases rule: at_relay_cases)
  case l: (1 now addr target url dial)
  obtain res w' where r: "handleTCPConn (db_lib L s) now addr dial target url (en_world s) = (res, w')" by force
  obtain es where es: "undisturbed (en_world s) w' es"
    "\<not> conn_logs (db_lib L s) now addr dial target url (en_world s) \<longrightarrow> es = []" using conn_undisturbed(1) [OF r] by blast
  show thesis using assms(1) l r es conn_undisturbed(2) [OF r] that(1) that(2) [of w' es] by (auto split: if_splits)
next
  case l: (2 now addr target url dial)
  obtain res w' where r: "first_datagram (db_lib L s) now addr dial target url (en_world s) = (res, w')" by force
  obtain es where es: "undisturbed (en_world s) w' es"
    "\<not> flow_logs (db_lib L s) now addr dial url (en_world s) \<longrightarrow> es = []" using flow_undisturbed(1) [OF r] by blast
  show thesis using assms(1) l r es flow_undisturbed(2) [OF r] that(1) that(2) [of w' es] by (auto split: if_splits)
qed

lemma handler_step:
  assumes "end_step L (HandlerLogs ip user url) s = Some t"
  obtains "t = s" | es where "\<not> en_log_closed s" "en_handlers s" "t = log_conn (en_world s) (logAccess ip user url (en_world s)) s"
    "undisturbed (en_world s) (logAccess ip user url (en_world s)) es"
  using assms undisturbed_log [of "en_world s" ip user url] by (auto split: if_splits)

lemma end_step_log:
  assumes "end_step L l s = Some t" "\<not> db_fault L ''LogAccess''" "log_inv s"
  shows "log_inv t"
proof (cases "at_relay l")
  case True
  from assms(1) this show ?thesis
  proof (cases rule: conn_step)
    case 1 with assms(3) show ?thesis by (simp add: log_inv_def)
  next
    case (2 w' es) then show ?thesis using log_inv_conn [OF assms(3) 2(2,3)] by simp
  qed
next
  case gate: False
  show ?thesis
  proof (cases l)
    case (HandlerLogs ip user url)
    with assms(1) have "end_step L (HandlerLogs ip user url) s = Some t" by simp
    then show ?thesis by (cases rule: handler_step) (use assms(3) in \<open>auto intro: log_inv_conn\<close>)
  next
    case (DrainOne now)
    then obtain e es where q: "logChan (en_world s) = e # es" using assms(1) by (auto split: list.splits)
    with assms(3) have "\<not> en_db_closed s" by (auto simp: log_inv_def)
    with DrainOne assms q show ?thesis by (auto simp: log_inv_def db_lib_def drain_log_def)
  next
    case (Tick now)
    then have t: "t = s\<lparr>en_world := auth_tick (db_lib L s) now (en_world s)\<rparr>" using assms(1) by (simp split: if_splits)
    show ?thesis by (rule log_inv_frame [OF assms(3), of t "[]"]) (simp_all add: t auth_tick_undisturbed)
  next
    case (Select c)
    with assms show ?thesis by (cases c) (auto simp: log_inv_def split: if_splits)
  next
    case (HttpClosed b) with assms show ?thesis by (clarsimp simp: log_inv_def split: if_splits)
  next
    case ServersDone with assms show ?thesis by (clarsimp simp: log_inv_def split: if_splits)
  next
    case WaitTimeout with assms show ?thesis by (clarsimp simp: log_inv_def split: if_splits)
  next
    case LogClosed with assms show ?thesis by (clarsimp simp: log_inv_def split: if_splits)
  next
    case Drained with assms show ?thesis by (clarsimp simp: log_inv_def split: if_splits)
  next
    case DbClosed with assms show ?thesis by (clarsimp simp: log_inv_def split: if_splits)
  next
    case OtelClosed with assms show ?thesis by (clarsimp simp: log_inv_def split: if_splits)
  next
    case SignalsStopped with assms show ?thesis by (clarsimp simp: log_inv_def split: if_splits)
  next
    case Signal with assms show ?thesis by (clarsimp simp: log_inv_def split: if_splits)
  next
    case RelaysEnd with assms show ?thesis by (clarsimp simp: log_inv_def split: if_splits)
  next
    case RelaysFail with assms show ?thesis by (clarsimp simp: log_inv_def split: if_splits)
  next
    case TickerStops with assms show ?thesis by (clarsimp simp: log_inv_def split: if_splits)
  next
    case (RelayConn x1 x2 x3 x4 x5) with gate show ?thesis by (simp add: at_relay_def)
  next
    case (RelayFlow x1 x2 x3 x4 x5) with gate show ?thesis by (simp add: at_relay_def)
  qed
qed

section \<open>Who can still log\<close>

text \<open>
  An orderly end: every HTTP handler finishes before the deadline of five seconds, and every listener before
  that of six.
\<close>

definition orderly :: "end_label list \<Rightarrow> bool" where
  "orderly ls \<longleftrightarrow> WaitTimeout \<notin> set ls \<and> HttpClosed False \<notin> set ls"

definition quiet_inv :: "ending \<Rightarrow> bool" where
  "quiet_inv s \<longleftrightarrow> \<not> en_crashed s \<and> authCache (en_world s) \<noteq> None \<and> (\<not> en_http s \<longrightarrow> \<not> en_handlers s) \<and>
     (en_log_closed s \<or> en_phase s \<notin> {Selecting, ClosingHTTP, AwaitingServers} \<longrightarrow> finished s)"

lemma quiet_inv_conn:
  assumes "quiet_inv s" "undisturbed (en_world s) w' es"
  shows "quiet_inv (log_conn (en_world s) w' s)"
  using assms by (simp add: quiet_inv_def undisturbed_def log_conn_def finished_def)

lemma quiet_relays: "quiet_inv s \<Longrightarrow> en_relays s \<Longrightarrow> \<not> en_log_closed s \<and> authCache (en_world s) \<noteq> None"
  by (auto simp: quiet_inv_def finished_def)

lemma end_step_quiet:
  assumes "end_step L l s = Some t" "l \<noteq> WaitTimeout" "l \<noteq> HttpClosed False" "quiet_inv s"
  shows "quiet_inv t"
proof (cases "at_relay l")
  case True
  from assms(1) this show ?thesis
  proof (cases rule: conn_step)
    case 1 with quiet_relays [OF assms(4)] show ?thesis by simp
  next
    case (2 w' es) then show ?thesis using quiet_inv_conn [OF assms(4) 2(2)] by simp
  qed
next
  case gate: False
  show ?thesis
  proof (cases l)
    case (HandlerLogs ip user url)
    with assms(1) have "end_step L (HandlerLogs ip user url) s = Some t" by simp
    then show ?thesis by (cases rule: handler_step) (use assms(4) quiet_inv_conn [OF assms(4)] in auto)
  next
    case (Select c)
    with assms show ?thesis
      by (cases c) (auto simp: quiet_inv_def finished_def shutdown_causes_def split: if_splits list.splits)
  next
    case (HttpClosed b)
    with assms show ?thesis by (cases b) (auto simp: quiet_inv_def finished_def split: if_splits)
  next
    case (Tick now)
    with assms(1,4) show ?thesis
      using auth_tick_undisturbed(3) [of "en_world s"] by (auto simp: quiet_inv_def finished_def split: if_splits)
  next
    case (DrainOne now)
    then obtain e es where "logChan (en_world s) = e # es" using assms(1) by (auto split: list.splits)
    with DrainOne assms(1,4) show ?thesis by (auto simp: quiet_inv_def finished_def)
  next
    case ServersDone with assms show ?thesis by (auto simp: quiet_inv_def finished_def split: if_splits)
  next
    case LogClosed with assms show ?thesis by (auto simp: quiet_inv_def finished_def split: if_splits)
  next
    case Drained with assms show ?thesis by (auto simp: quiet_inv_def finished_def split: if_splits)
  next
    case DbClosed with assms show ?thesis by (auto simp: quiet_inv_def finished_def split: if_splits)
  next
    case OtelClosed with assms show ?thesis by (auto simp: quiet_inv_def finished_def split: if_splits)
  next
    case SignalsStopped with assms show ?thesis by (auto simp: quiet_inv_def finished_def split: if_splits)
  next
    case Signal with assms show ?thesis by (auto simp: quiet_inv_def finished_def split: if_splits)
  next
    case RelaysEnd with assms show ?thesis by (auto simp: quiet_inv_def finished_def split: if_splits)
  next
    case RelaysFail with assms show ?thesis by (auto simp: quiet_inv_def finished_def)
  next
    case TickerStops with assms show ?thesis by (auto simp: quiet_inv_def finished_def split: if_splits)
  next
    case WaitTimeout with assms(2) show ?thesis by simp
  next
    case (RelayConn x1 x2 x3 x4 x5) with gate show ?thesis by (simp add: at_relay_def)
  next
    case (RelayFlow x1 x2 x3 x4 x5) with gate show ?thesis by (simp add: at_relay_def)
  qed
qed

text \<open>Without a signal, relays that do not fail run on.\<close>

definition unsignalled :: "ending \<Rightarrow> bool" where
  "unsignalled s \<longleftrightarrow> en_relays s \<and> authStore (en_world s) \<and> (en_cancelled s \<longrightarrow> en_phase s = Exited)"

lemma unsignalled_conn:
  "unsignalled s \<Longrightarrow> undisturbed (en_world s) w' es \<Longrightarrow> unsignalled (log_conn (en_world s) w' s)"
  by (simp add: unsignalled_def undisturbed_def log_conn_def)

lemma end_step_unsignalled:
  assumes "end_step L l s = Some t" "l \<noteq> Signal" "unsignalled s" "en_phase s \<noteq> Exited"
    and ends: "l \<noteq> RelaysFail"
  shows "unsignalled t"
proof (cases "at_relay l")
  case True
  from assms(1) this show ?thesis
  proof (cases rule: conn_step)
    case 1 with assms(3) show ?thesis by (simp add: unsignalled_def)
  next
    case (2 w' es) then show ?thesis using unsignalled_conn [OF assms(3) 2(2)] by simp
  qed
next
  case gate: False
  show ?thesis
  proof (cases l)
    case (HandlerLogs ip user url)
    with assms(1) have "end_step L (HandlerLogs ip user url) s = Some t" by simp
    then show ?thesis by (cases rule: handler_step) (use assms(3) unsignalled_conn [OF assms(3)] in auto)
  next
    case (Select c)
    with assms show ?thesis by (cases c) (auto simp: unsignalled_def split: if_splits)
  next
    case (DrainOne now)
    then obtain e es where "logChan (en_world s) = e # es" using assms(1) by (auto split: list.splits)
    with DrainOne assms(1,3) show ?thesis by (auto simp: unsignalled_def)
  next
    case (Tick now)
    with assms(1,3) show ?thesis by (auto simp: unsignalled_def auth_tick_undisturbed split: if_splits)
  next
    case (HttpClosed b)
    with assms show ?thesis by (auto simp: unsignalled_def split: if_splits)
  next
    case WaitTimeout with assms show ?thesis by (auto simp: unsignalled_def split: if_splits)
  next
    case ServersDone with assms show ?thesis by (auto simp: unsignalled_def split: if_splits)
  next
    case LogClosed with assms show ?thesis by (auto simp: unsignalled_def split: if_splits)
  next
    case Drained with assms show ?thesis by (auto simp: unsignalled_def split: if_splits)
  next
    case DbClosed with assms show ?thesis by (auto simp: unsignalled_def split: if_splits)
  next
    case OtelClosed with assms show ?thesis by (auto simp: unsignalled_def split: if_splits)
  next
    case SignalsStopped with assms show ?thesis by (auto simp: unsignalled_def split: if_splits)
  next
    case Signal with assms show ?thesis by (auto simp: unsignalled_def split: if_splits)
  next
    case RelaysEnd with assms show ?thesis by (auto simp: unsignalled_def split: if_splits)
  next
    case RelaysFail with ends show ?thesis by simp
  next
    case TickerStops with assms show ?thesis by (auto simp: unsignalled_def split: if_splits)
  next
    case (RelayConn x1 x2 x3 x4 x5) with gate show ?thesis by (simp add: at_relay_def)
  next
    case (RelayFlow x1 x2 x3 x4 x5) with gate show ?thesis by (simp add: at_relay_def)
  qed
qed

lemma end_run_log: "end_run L ls s = Some t \<Longrightarrow> \<not> db_fault L ''LogAccess'' \<Longrightarrow> log_inv s \<Longrightarrow> log_inv t"
  by (induction ls arbitrary: s) (auto dest: end_step_log split: if_splits option.splits)

lemma end_run_quiet: "end_run L ls s = Some t \<Longrightarrow> orderly ls \<Longrightarrow> quiet_inv s \<Longrightarrow> quiet_inv t"
proof (induction ls arbitrary: s)
  case (Cons l ls)
  then obtain s1 where s1: "end_step L l s = Some s1" "end_run L ls s1 = Some t" by (auto split: if_splits option.splits)
  have "quiet_inv s1" using end_step_quiet [OF s1(1)] Cons.prems(2,3) by (auto simp: orderly_def)
  with Cons.IH [OF s1(2)] Cons.prems(2) show ?case by (simp add: orderly_def)
qed simp

lemma end_run_unsignalled: "end_run L ls s = Some t \<Longrightarrow> {Signal, RelaysFail} \<inter> set ls = {} \<Longrightarrow> unsignalled s \<Longrightarrow> unsignalled t"
proof (induction ls arbitrary: s)
  case (Cons l ls)
  then obtain s1 where s1: "end_step L l s = Some s1" "end_run L ls s1 = Some t" "en_phase s \<noteq> Exited"
    by (auto split: if_splits option.splits)
  have "unsignalled s1" using end_step_unsignalled [OF s1(1) _ _ s1(3)] Cons.prems(2,3) by auto
  with Cons.IH [OF s1(2)] Cons.prems(2) show ?case by simp
qed simp

text \<open>While a relay runs the wait for the servers does not end.\<close>

lemma end_run_waits: "end_run L ls s = Some t \<Longrightarrow> {Signal, RelaysFail} \<inter> set ls = {} \<Longrightarrow> unsignalled s \<Longrightarrow> ServersDone \<notin> set ls"
proof (induction ls arbitrary: s)
  case (Cons l ls)
  then obtain s1 where s1: "end_step L l s = Some s1" "end_run L ls s1 = Some t" "en_phase s \<noteq> Exited"
    by (auto split: if_splits option.splits)
  have "l \<noteq> ServersDone" using s1(1) Cons.prems(3) by (auto simp: unsignalled_def finished_def)
  moreover have "unsignalled s1" using end_step_unsignalled [OF s1(1) _ _ s1(3)] Cons.prems(2,3) by auto
  ultimately show ?case using Cons.IH [OF s1(2)] Cons.prems(2) by simp
qed simp

text \<open>A connection of a client that is not banned logs, or panics at once.\<close>

lemma conn_logs_not_banned:
  assumes "\<not> fst (check_banned now (client_ip addr) w)" "authStore w"
  shows "fst (handleTCPConn L now addr dial target url w) = TcpPanic \<or> conn_logs L now addr dial target url w"
  using assms by (auto simp: conn_logs_def split: tcp_outcome.split)

lemma end_run_append:
  "end_run L (ls @ ms) s = (case end_run L ls s of None \<Rightarrow> None | Some t \<Rightarrow> end_run L ms t)"
  by (induction ls arbitrary: s) (auto split: option.splits)

text \<open>
  C16: an end of the program loses no access entry that it has taken. However its goroutines are scheduled, once
  the database is closed every entry that had entered the log queue has been inserted into the table, in order;
  and when the servers end before the deadlines, the process does not crash on the way.
\<close>

theorem shutdown_keeps_log:
  assumes "end_run L ls (ending0 w errs http relays) = Some s" "\<not> db_fault L ''LogAccess''"
  shows "(en_db_closed s \<longrightarrow> en_written s = en_accepted s) \<and>
    (orderly ls \<and> authCache w \<noteq> None \<longrightarrow> \<not> en_crashed s)"
proof -
  have "log_inv s" by (rule end_run_log [OF assms ending0_log])
  moreover have "quiet_inv s" if "orderly ls" "authCache w \<noteq> None"
    using end_run_quiet [OF assms(1) that(1)] that(2) by (simp add: quiet_inv_def ending0_def)
  ultimately show ?thesis by (auto simp: log_inv_def quiet_inv_def)
qed

definition signalled_end :: "end_label list" where
  "signalled_end = [HandlerLogs ''lan'' ''bob'' ''a.b:80'', Signal, Select CtxDone, HttpClosed True, RelaysEnd,
     ServersDone, LogClosed, DrainOne 51, Drained, DbClosed, OtelClosed, SignalsStopped]"

lemma sample_log: "logChan sample_world = []" "\<not> db_fault plain_lib op"
  by (simp_all add: sample_world_def world0_def plain_lib_def)

theorem shutdown_keeps_log_witness:
  "\<exists>s. end_run plain_lib signalled_end (ending0 sample_world [] True True) = Some s \<and> \<not> en_crashed s \<and>
     map le_ip (en_accepted s) = [''lan''] \<and> en_written s = en_accepted s"
proof -
  let ?r = "end_run plain_lib signalled_end (ending0 sample_world [] True True)"
  obtain s where s: "?r = Some s" and f: "en_db_closed s" "map le_ip (en_accepted s) = [''lan'']"
    by (simp add: signalled_end_def ending0_def shutdown_causes_def finished_def log_conn_def logAccess_def drain_log_def
        db_lib_def sample_log)
  have "orderly signalled_end" "authCache sample_world \<noteq> None" by (simp_all add: orderly_def signalled_end_def sample_facts)
  then have o: "orderly signalled_end \<and> authCache sample_world \<noteq> None" by (rule conjI)
  note k = shutdown_keeps_log [OF s sample_log(2)]
  show ?thesis
    by (intro exI conjI) (rule s, rule mp [OF conjunct2 [OF k] o], rule f(2), rule mp [OF conjunct1 [OF k] f(1)])
qed

text \<open>
  C17: the error of a listener ends the program under the relays' feet. Nothing cancels the context, so a raw
  relay is not told to stop. As long as none has ended by itself (an error of its own, or its route deleted at
  that moment), the wait for the servers runs into its deadline and the log queue is closed while a relay accepts
  connections: from then on, whatever happened before, a connection of a client that is not banned crashes the
  process, and the program ends with a panic instead of the listener's error.
\<close>

theorem listener_error_crashes:
  assumes "end_run L ls (ending0 w errs http True) = Some s" "{Signal, RelaysFail} \<inter> set ls = {}" "authStore w"
    and "en_log_closed s" "en_phase s \<noteq> Exited" "\<not> en_crashed s"
    and "\<not> fst (check_banned now (client_ip addr) (en_world s))"
  shows "\<exists>t. end_run L (ls @ [RelayConn now addr target url dial]) (ending0 w errs http True) = Some t \<and>
    en_crashed t \<and> ServersDone \<notin> set ls"
proof -
  have "unsignalled (ending0 w errs http True)" using assms(3) by (simp add: unsignalled_def ending0_def)
  note u = end_run_unsignalled [OF assms(1,2) this]
  have "ServersDone \<notin> set ls"
    by (rule end_run_waits [OF assms(1,2) \<open>unsignalled (ending0 w errs http True)\<close>])
  moreover have "\<exists>t. end_step L (RelayConn now addr target url dial) s = Some t \<and> en_crashed t"
    using conn_logs_not_banned [OF assms(7), of "db_lib L s" dial target url] u assms(4)
    by (auto simp: unsignalled_def split: prod.split)
  moreover have "end_run L ls (ending0 w errs http True) = Some s" "en_relays s" using assms(1) u by (simp_all add: unsignalled_def)
  ultimately show ?thesis using assms(5,6) by (auto simp: end_run_append simp del: end_step.simps)
qed

theorem listener_error_crashes_witness:
  "\<exists>t. end_run plain_lib ([Select (ListenerError (Msg ''refused'')), HttpClosed True, WaitTimeout, LogClosed] @
      [RelayConn 50 ''[lan]:5'' ''t:1'' ''a.b:22'' True]) (ending0 sample_world [Msg ''refused''] True True) = Some t \<and> en_crashed t"
proof -
  let ?ls = "[Select (ListenerError (Msg ''refused'')), HttpClosed True, WaitTimeout, LogClosed]"
  let ?r = "end_run plain_lib ?ls (ending0 sample_world [Msg ''refused''] True True)"
  have "?r \<noteq> None" by code_simp
  then obtain s where s: "?r = Some s" by blast
  have "en_log_closed s" "en_phase s = AwaitingDrain" "\<not> en_crashed s" "en_world s = sample_world"
    using s by (auto simp: ending0_def shutdown_causes_def)
  moreover have "\<not> fst (check_banned 50 (client_ip ''[lan]:5'') sample_world)" by (simp add: check_banned_sel sample_facts)
  ultimately show ?thesis
    using listener_error_crashes [OF s, of 50 "''[lan]:5''" "''t:1''" "''a.b:22''" True] sample_facts(1) by simp
qed

end
