(* ===== verification/Telemetry.thy ===== *)
theory Telemetry
  imports Boot
begin

text \<open>
  otel.go and logging.go, and what \<open>run\<close> of main.go does with them. The OpenTelemetry SDK is the record
  \<open>sdk\<close>, an argument: which of its constructors succeed, and what a \<^verbatim>\<open>Shutdown\<close> method does to its state.
\<close>

section \<open>Setting up\<close>

text \<open>What has a \<^verbatim>\<open>Shutdown\<close> method.\<close>

datatype component = TraceExporter | TracerProvider | MetricExporter | MeterProvider

record 's sdk =
  sdk_resource :: "string \<Rightarrow> bool"
  sdk_trace_exporter :: "string \<Rightarrow> bool"
  sdk_metric_exporter :: "string \<Rightarrow> bool"
  sdk_shutdown :: "component \<Rightarrow> 's \<Rightarrow> err option \<times> 's"

text \<open>
  The global providers: the propagator, the batch timeout of the tracer provider and the interval of the
  meter provider; and the list the returned function closes over.
\<close>

record telemetry =
  tm_propagator :: bool
  tm_tracer :: "duration option"
  tm_meter :: "duration option"
  tm_shutdowns :: "component list"

definition telemetry0 :: telemetry where
  "telemetry0 = \<lparr>tm_propagator = False, tm_tracer = None, tm_meter = None, tm_shutdowns = []\<rparr>"

definition setupOTelSDK :: "'s sdk \<Rightarrow> otel_config \<Rightarrow> telemetry \<times> (err + unit)" where
  "setupOTelSDK S c =
     (let interval = dur_mul (oc_interval c) Second; t0 = telemetry0
      in if \<not> sdk_resource S (oc_name c) then (t0, Inl (Msg ''create otel resource''))
         else let t1 = t0\<lparr>tm_propagator := True\<rparr>
           in if \<not> sdk_trace_exporter S (oc_endpoint c) then (t1, Inl (Msg ''create trace exporter''))
              else let t2 = t1\<lparr>tm_tracer := Some interval, tm_shutdowns := [TraceExporter, TracerProvider]\<rparr>
                in if \<not> sdk_metric_exporter S (oc_endpoint c) then (t2, Inl (Msg ''create metric exporter''))
                   else (t2\<lparr>tm_meter := Some interval,
                           tm_shutdowns := tm_shutdowns t2 @ [MetricExporter, MeterProvider]\<rparr>, Inr ()))"

section \<open>Shutting down\<close>

text \<open>Every function is called, in the order of the list; the errors are collected.\<close>

fun shut_all :: "'s sdk \<Rightarrow> component list \<Rightarrow> 's \<Rightarrow> err list \<times> 's" where
  "shut_all S [] s = ([], s)"
| "shut_all S (c # cs) s =
     (let (e, s1) = sdk_shutdown S c s; (es, s2) = shut_all S cs s1
      in (case e of None \<Rightarrow> es | Some x \<Rightarrow> x # es, s2))"

definition otel_shutdown :: "'s sdk \<Rightarrow> telemetry \<Rightarrow> 's \<Rightarrow> err list option \<times> 's" where
  \<comment> \<open>the joined errors, \<^verbatim>\<open>nil\<close> when there are none\<close>
  "otel_shutdown S t s =
     (let (errs, s') = shut_all S (tm_shutdowns t) s in (if errs \<noteq> [] then Some errs else None, s'))"

text \<open>
  \<open>run\<close>: with telemetry on, a failed setup ends the program; else the rest runs, and then the deferred
  function shuts the SDK down. It assigns its error to the block's own \<^verbatim>\<open>err\<close>, which nobody reads, so
  \<open>run\<close> returns what the rest returned.
\<close>

definition with_telemetry :: "'s sdk \<Rightarrow> otel_config \<Rightarrow> (unit \<Rightarrow> err option) \<Rightarrow> 's \<Rightarrow> err option \<times> 's" where
  "with_telemetry S c rest s =
     (if \<not> oc_enabled c then (rest (), s)
      else case setupOTelSDK S c of
          (t, Inl e) \<Rightarrow> (Some e, s)
        | (t, Inr u) \<Rightarrow> (let res = rest (); (errs, s') = otel_shutdown S t s in (res, s')))"

section \<open>Logging\<close>

text \<open>A value of a log record: an error, with its text and the frames of its trace, or anything else.\<close>

record frame =
  fr_func :: string
  fr_file :: string
  fr_line :: int

datatype attr_value = PlainValue string | ErrorValue string "frame list" | GroupValue string "(string \<times> string \<times> int) list"

text \<open>\<^verbatim>\<open>filepath.Base\<close>: trailing slashes removed, then what follows the last one.\<close>

definition filepath_base :: "string \<Rightarrow> string" where
  "filepath_base p =
     (if p = [] then ''.''
      else let q = rev (dropWhile (\<lambda>c. c = CHR ''/'') (rev p))
        in if q = [] then ''/'' else rev (takeWhile (\<lambda>c. c \<noteq> CHR ''/'') (rev q)))"

definition getFrames :: "frame list \<Rightarrow> (string \<times> string \<times> int) list" where
  "getFrames fs = map (\<lambda>f. (filepath_base (fr_func f), filepath_base (fr_file f), fr_line f)) fs"

fun ReplaceAttr :: "attr_value \<Rightarrow> attr_value" where
  "ReplaceAttr (ErrorValue msg fs) = GroupValue msg (getFrames fs)"
| "ReplaceAttr v = v"

section \<open>What holds\<close>

lemma setup_shutdowns:
  "setupOTelSDK S c = (t, Inr u) \<Longrightarrow> tm_shutdowns t = [TraceExporter, TracerProvider, MetricExporter, MeterProvider]"
  by (auto simp: setupOTelSDK_def Let_def split: if_splits)

text \<open>Only a complete setup sets the meter provider; a setup that fails leaves what was registered before.\<close>

lemma setup_failed:
  "setupOTelSDK S c = (t, Inl e) \<Longrightarrow> tm_meter t = None \<and> tm_shutdowns t \<in> {[], [TraceExporter, TracerProvider]}"
  by (auto simp: setupOTelSDK_def Let_def telemetry0_def split: if_splits)

lemma shut_all_append:
  "shut_all S (as @ bs) s =
     (let (es1, s1) = shut_all S as s; (es2, s2) = shut_all S bs s1 in (es1 @ es2, s2))"
  by (induction as arbitrary: s) (auto split: prod.splits option.splits)

text \<open>The base name has no slash, unless the path is nothing but slashes.\<close>

lemma base_no_slash: "CHR ''/'' \<in> set (filepath_base p) \<Longrightarrow> filepath_base p = ''/''"
proof -
  let ?q = "rev (dropWhile (\<lambda>c. c = CHR ''/'') (rev p))"
  have "CHR ''/'' \<notin> set (rev (takeWhile (\<lambda>c. c \<noteq> CHR ''/'') (rev ?q)))" by (auto dest: set_takeWhileD)
  then show "CHR ''/'' \<in> set (filepath_base p) \<Longrightarrow> filepath_base p = ''/''"
    by (auto simp: filepath_base_def Let_def split: if_splits)
qed

text \<open>
  The specification of OpenTelemetry: after its \<^verbatim>\<open>Shutdown\<close> an exporter accepts nothing more, and a provider's
  \<^verbatim>\<open>Shutdown\<close> exports what it still holds, failing when the exporter refuses it. \<open>held\<close> and \<open>sent\<close> read
  the state for the exporter that is given.
\<close>

definition obeys_spec ::
  "'s sdk \<Rightarrow> component \<Rightarrow> component \<Rightarrow> ('s \<Rightarrow> bool) \<Rightarrow> ('s \<Rightarrow> nat) \<Rightarrow> ('s \<Rightarrow> nat) \<Rightarrow> bool" where
  "obeys_spec S exporter provider isopen held sent \<longleftrightarrow>
     (\<forall>s. \<not> isopen (snd (sdk_shutdown S exporter s)) \<and> held (snd (sdk_shutdown S exporter s)) = held s \<and>
       sent (snd (sdk_shutdown S exporter s)) = sent s) \<and>
     (\<forall>s. (if isopen s then sent (snd (sdk_shutdown S provider s)) = sent s + held s
           else sent (snd (sdk_shutdown S provider s)) = sent s \<and>
                (0 < held s \<longrightarrow> fst (sdk_shutdown S provider s) \<noteq> None))) \<and>
     (\<forall>c s. c \<notin> {exporter, provider} \<longrightarrow> isopen (snd (sdk_shutdown S c s)) = isopen s \<and>
        held (snd (sdk_shutdown S c s)) = held s \<and> sent (snd (sdk_shutdown S c s)) = sent s)"

text \<open>
  The telemetry of the last interval is lost, silently. The exporters are shut down before the providers
  that still hold data for them, so, with an SDK that follows the OpenTelemetry specification, nothing that is
  held when the program ends is ever sent: neither the last spans nor the last metrics. The shutdown reports the
  error, and the program returns what it would have returned without it.
\<close>

lemma telemetry_lost_at_exit:
  assumes "obeys_spec S TraceExporter TracerProvider open_t held_t sent_t" "0 < held_t s"
    and "obeys_spec S MetricExporter MeterProvider open_m held_m sent_m"
    and "oc_enabled c" "setupOTelSDK S c = (t, Inr ())"
  shows "\<exists>s'. with_telemetry S c rest s = (rest (), s') \<and> sent_t s' = sent_t s \<and> sent_m s' = sent_m s \<and>
    (\<exists>es. otel_shutdown S t s = (Some es, s'))"
proof -
  obtain e1 s1 where 1: "sdk_shutdown S TraceExporter s = (e1, s1)" by force
  obtain e2 s2 where 2: "sdk_shutdown S TracerProvider s1 = (e2, s2)" by force
  obtain e3 s3 where 3: "sdk_shutdown S MetricExporter s2 = (e3, s3)" by force
  obtain e4 s4 where 4: "sdk_shutdown S MeterProvider s3 = (e4, s4)" by force
  have trace: "\<not> open_t s1" "held_t s1 = held_t s" "sent_t s1 = sent_t s"
    "sent_t s2 = sent_t s1" "e2 \<noteq> None" "sent_t s3 = sent_t s2" "sent_t s4 = sent_t s3"
  proof -
    note o = assms(1)[unfolded obeys_spec_def]
    show a: "\<not> open_t s1" "held_t s1 = held_t s" "sent_t s1 = sent_t s"
      using conjunct1 [OF o, rule_format, of s] by (simp_all add: 1)
    show "sent_t s2 = sent_t s1" "e2 \<noteq> None"
      using conjunct1 [OF conjunct2 [OF o], rule_format, of s1] a assms(2) by (simp_all add: 2)
    show "sent_t s3 = sent_t s2" "sent_t s4 = sent_t s3"
      using conjunct2 [OF conjunct2 [OF o], rule_format, of MetricExporter s2]
        conjunct2 [OF conjunct2 [OF o], rule_format, of MeterProvider s3] by (simp_all add: 3 4)
  qed
  have meter: "sent_m s1 = sent_m s" "sent_m s2 = sent_m s1" "\<not> open_m s3" "sent_m s3 = sent_m s2" "sent_m s4 = sent_m s3"
  proof -
    note o = assms(3)[unfolded obeys_spec_def]
    show "sent_m s1 = sent_m s" "sent_m s2 = sent_m s1"
      using conjunct2 [OF conjunct2 [OF o], rule_format, of TraceExporter s]
        conjunct2 [OF conjunct2 [OF o], rule_format, of TracerProvider s1] by (simp_all add: 1 2)
    show a: "\<not> open_m s3" "sent_m s3 = sent_m s2" using conjunct1 [OF o, rule_format, of s2] by (simp_all add: 3)
    show "sent_m s4 = sent_m s3"
      using conjunct1 [OF conjunct2 [OF o], rule_format, of s3] a by (simp add: 4)
  qed
  obtain x where "e2 = Some x" using trace(5) by blast
  then have "fst (shut_all S (tm_shutdowns t) s) \<noteq> []" "snd (shut_all S (tm_shutdowns t) s) = s4"
    by (simp_all add: setup_shutdowns [OF assms(5)] 1 2 3 4 split: option.split)
  then obtain es where "otel_shutdown S t s = (Some es, s4)" by (auto simp: otel_shutdown_def case_prod_beta)
  then show ?thesis using assms(4,5) trace meter by (intro exI [of _ s4]) (simp add: with_telemetry_def)
qed

text \<open>A state that follows the specification: for traces and metrics, an open flag, what is held and what is sent.\<close>

type_synonym pipe = "bool \<times> nat \<times> nat"

fun small_shutdown :: "component \<Rightarrow> pipe \<times> pipe \<Rightarrow> err option \<times> (pipe \<times> pipe)" where
  "small_shutdown TraceExporter ((b, n, m), q) = (None, ((False, n, m), q))"
| "small_shutdown TracerProvider ((b, n, m), q) =
     (if b \<or> n = 0 then None else Some (Msg ''exporter is shut down''), ((b, if b then 0 else n, if b then m + n else m), q))"
| "small_shutdown MetricExporter (p, (b, n, m)) = (None, (p, (False, n, m)))"
| "small_shutdown MeterProvider (p, (b, n, m)) =
     (if b \<or> n = 0 then None else Some (Msg ''exporter is shut down''), (p, (b, if b then 0 else n, if b then m + n else m)))"

definition small_sdk :: "(pipe \<times> pipe) sdk" where
  "small_sdk = \<lparr>sdk_resource = (\<lambda>_. True), sdk_trace_exporter = (\<lambda>_. True), sdk_metric_exporter = (\<lambda>_. True),
     sdk_shutdown = small_shutdown\<rparr>"

lemma small_sdk_obeys:
  "obeys_spec small_sdk TraceExporter TracerProvider (fst \<circ> fst) (fst \<circ> snd \<circ> fst) (snd \<circ> snd \<circ> fst)"
  "obeys_spec small_sdk MetricExporter MeterProvider (fst \<circ> snd) (fst \<circ> snd \<circ> snd) (snd \<circ> snd \<circ> snd)"
proof -
  have other: "c \<notin> {TraceExporter, TracerProvider} \<longleftrightarrow> c = MetricExporter \<or> c = MeterProvider"
    "c \<notin> {MetricExporter, MeterProvider} \<longleftrightarrow> c = TraceExporter \<or> c = TracerProvider" for c
    by (cases c; simp)+
  show "obeys_spec small_sdk TraceExporter TracerProvider (fst \<circ> fst) (fst \<circ> snd \<circ> fst) (snd \<circ> snd \<circ> fst)"
    "obeys_spec small_sdk MetricExporter MeterProvider (fst \<circ> snd) (fst \<circ> snd \<circ> snd) (snd \<circ> snd \<circ> snd)"
    unfolding obeys_spec_def other by (auto simp: small_sdk_def)
qed

definition otel_on :: otel_config where
  "otel_on = \<lparr>oc_enabled = True, oc_endpoint = ''collector:4317'', oc_name = ''remazarin'', oc_interval = 15, oc_runtime = 30\<rparr>"

lemma telemetry_lost_at_exit_witness:
  "\<exists>s'. with_telemetry small_sdk otel_on (\<lambda>_. None) ((True, 3, 0), (True, 1, 0)) = (None, s') \<and>
     snd (snd (fst s')) = 0 \<and> snd (snd (snd s')) = 0"
proof -
  obtain t where "setupOTelSDK small_sdk otel_on = (t, Inr ())"
    by (auto simp: setupOTelSDK_def small_sdk_def Let_def)
  with telemetry_lost_at_exit [OF small_sdk_obeys(1) _ small_sdk_obeys(2), of "((True, 3, 0), (True, 1, 0))" otel_on t "\<lambda>_. None"]
  show ?thesis by (auto simp: otel_on_def)
qed

end
