(* ===== verification/RelayPipe.thy ===== *)
theory RelayPipe
  imports RawRelay "HOL-Library.Sublist"
begin

text \<open>
  The copying half of proxy/tcp.go's \<^verbatim>\<open>handleTCPConn\<close>, statement by statement: two goroutines copy, one closes
  both connections when the context is done, and the handler waits for the two. They interleave freely with
  each other and with the peers. A connection keeps, beside what the proxy sees of it, the whole stream its
  peer has sent.
\<close>

section \<open>State\<close>

type_synonym bytes = "8 word list"

record conn =
  cn_sent :: bytes
  cn_in :: bytes
  cn_eof :: bool
  cn_reset :: bool
  cn_out :: bytes
  cn_closed :: bool

datatype copier = Copying | Holding bytes | CopyReturned | Finished

datatype closer = Waiting | ClosedClient | ClosedBoth

record pipe =
  pp_client :: conn
  pp_target :: conn
  pp_up :: copier
  pp_down :: copier
  pp_cancelled :: bool
  pp_closer :: closer
  pp_returned :: bool

text \<open>\<open>Up\<close> copies from the client to the target, \<open>Down\<close> back.\<close>

datatype dir = Up | Down

fun source :: "dir \<Rightarrow> pipe \<Rightarrow> conn" where
  "source Up p = pp_client p" | "source Down p = pp_target p"

fun sink :: "dir \<Rightarrow> pipe \<Rightarrow> conn" where
  "sink Up p = pp_target p" | "sink Down p = pp_client p"

fun copier_of :: "dir \<Rightarrow> pipe \<Rightarrow> copier" where
  "copier_of Up p = pp_up p" | "copier_of Down p = pp_down p"

fun set_copier :: "dir \<Rightarrow> copier \<Rightarrow> pipe \<Rightarrow> pipe" where
  "set_copier Up c p = p\<lparr>pp_up := c\<rparr>" | "set_copier Down c p = p\<lparr>pp_down := c\<rparr>"

fun set_source :: "dir \<Rightarrow> conn \<Rightarrow> pipe \<Rightarrow> pipe" where
  "set_source Up c p = p\<lparr>pp_client := c\<rparr>" | "set_source Down c p = p\<lparr>pp_target := c\<rparr>"

fun set_sink :: "dir \<Rightarrow> conn \<Rightarrow> pipe \<Rightarrow> pipe" where
  "set_sink Up c p = p\<lparr>pp_target := c\<rparr>" | "set_sink Down c p = p\<lparr>pp_client := c\<rparr>"

definition fresh_conn :: conn where
  "fresh_conn = \<lparr>cn_sent = [], cn_in = [], cn_eof = False, cn_reset = False, cn_out = [], cn_closed = False\<rparr>"

definition pipe0 :: pipe where
  "pipe0 = \<lparr>pp_client = fresh_conn, pp_target = fresh_conn, pp_up = Copying, pp_down = Copying,
     pp_cancelled = False, pp_closer = Waiting, pp_returned = False\<rparr>"

section \<open>Steps\<close>

text \<open>
  The peers, named by the direction they feed, send, finish or reset; \<open>StopRelay\<close> is the relay's own context
  ending. The rest are statements of the handler and its goroutines. \<^verbatim>\<open>io.Copy\<close> reads up to \<open>n\<close> bytes and
  writes them, all at once or in parts, of which a later one may fail; it returns at the end of its source or at
  the first error. A step that is not enabled is \<open>None\<close>.
\<close>

datatype label =
    PeerSends dir bytes | PeerFinishes dir | PeerResets dir | StopRelay
  | CopyRead dir nat | CopyEof dir | CopyReadFails dir | CopyWrite dir | CopyWritePart dir nat | CopyWriteFails dir
  | CancelCopy dir | CloseClient | CloseTarget | HandlerReturns

definition broken :: "conn \<Rightarrow> bool" where
  "broken c \<longleftrightarrow> cn_closed c \<or> cn_reset c"

fun pipe_step :: "label \<Rightarrow> pipe \<Rightarrow> pipe option" where
  "pipe_step (PeerSends d bs) p =
     (let c = source d p
      in if cn_eof c \<or> broken c then None
         else Some (set_source d (c\<lparr>cn_sent := cn_sent c @ bs, cn_in := cn_in c @ bs\<rparr>) p))"
| "pipe_step (PeerFinishes d) p =
     (let c = source d p in if broken c then None else Some (set_source d (c\<lparr>cn_eof := True\<rparr>) p))"
| "pipe_step (PeerResets d) p = Some (set_source d ((source d p)\<lparr>cn_reset := True\<rparr>) p)"
| "pipe_step StopRelay p = Some (p\<lparr>pp_cancelled := True\<rparr>)"
| "pipe_step (CopyRead d n) p =
     (let c = source d p
      in if copier_of d p = Copying \<and> \<not> broken c \<and> 0 < n \<and> n \<le> length (cn_in c)
         then Some (set_copier d (Holding (take n (cn_in c))) (set_source d (c\<lparr>cn_in := drop n (cn_in c)\<rparr>) p)) else None)"
| "pipe_step (CopyEof d) p =
     (let c = source d p
      in if copier_of d p = Copying \<and> \<not> broken c \<and> cn_in c = [] \<and> cn_eof c then Some (set_copier d CopyReturned p) else None)"
| "pipe_step (CopyReadFails d) p =
     (if copier_of d p = Copying \<and> broken (source d p) then Some (set_copier d CopyReturned p) else None)"
| "pipe_step (CopyWrite d) p =
     (case copier_of d p of
        Holding bs \<Rightarrow>
          let c = sink d p
          in if broken c then None else Some (set_copier d Copying (set_sink d (c\<lparr>cn_out := cn_out c @ bs\<rparr>) p))
      | _ \<Rightarrow> None)"
| "pipe_step (CopyWritePart d n) p =
     (case copier_of d p of
        Holding bs \<Rightarrow>
          let c = sink d p
          in if broken c \<or> n = 0 \<or> length bs \<le> n then None
             else Some (set_copier d (Holding (drop n bs)) (set_sink d (c\<lparr>cn_out := cn_out c @ take n bs\<rparr>) p))
      | _ \<Rightarrow> None)"
| "pipe_step (CopyWriteFails d) p =
     (case copier_of d p of
        Holding bs \<Rightarrow> if broken (sink d p) then Some (set_copier d CopyReturned p) else None
      | _ \<Rightarrow> None)"
| "pipe_step (CancelCopy d) p =
     (if copier_of d p = CopyReturned then Some (set_copier d Finished (p\<lparr>pp_cancelled := True\<rparr>)) else None)"
| "pipe_step CloseClient p =
     (if pp_closer p = Waiting \<and> pp_cancelled p
      then Some (p\<lparr>pp_client := (pp_client p)\<lparr>cn_closed := True\<rparr>, pp_closer := ClosedClient\<rparr>) else None)"
| "pipe_step CloseTarget p =
     (if pp_closer p = ClosedClient
      then Some (p\<lparr>pp_target := (pp_target p)\<lparr>cn_closed := True\<rparr>, pp_closer := ClosedBoth\<rparr>) else None)"
| "pipe_step HandlerReturns p =
     (if pp_up p = Finished \<and> pp_down p = Finished \<and> \<not> pp_returned p
      then Some (p\<lparr>pp_cancelled := True, pp_returned := True,
          pp_client := (pp_client p)\<lparr>cn_closed := True\<rparr>, pp_target := (pp_target p)\<lparr>cn_closed := True\<rparr>\<rparr>) else None)"

fun pipe_run :: "label list \<Rightarrow> pipe \<Rightarrow> pipe option" where
  "pipe_run [] p = Some p"
| "pipe_run (l # ls) p = (case pipe_step l p of None \<Rightarrow> None | Some q \<Rightarrow> pipe_run ls q)"

text \<open>The steps of the program, as against those of its surroundings.\<close>

fun own :: "label \<Rightarrow> bool" where
  "own (PeerSends d bs) \<longleftrightarrow> False"
| "own (PeerFinishes d) \<longleftrightarrow> False"
| "own (PeerResets d) \<longleftrightarrow> False"
| "own StopRelay \<longleftrightarrow> False"
| "own l \<longleftrightarrow> True"

section \<open>Only what was sent, in order\<close>

fun held :: "copier \<Rightarrow> bytes" where
  "held (Holding bs) = bs"
| "held c = []"

text \<open>
  The stream of a direction is what was delivered, what the copier holds and what it has not read; once the
  copier has returned, what was delivered is a prefix.
\<close>

definition stream_ok :: "dir \<Rightarrow> pipe \<Rightarrow> bool" where
  "stream_ok d p \<longleftrightarrow> prefix (cn_out (sink d p)) (cn_sent (source d p)) \<and>
     (copier_of d p \<notin> {CopyReturned, Finished} \<longrightarrow>
        cn_sent (source d p) = cn_out (sink d p) @ held (copier_of d p) @ cn_in (source d p))"

definition pipe_ok :: "pipe \<Rightarrow> bool" where
  "pipe_ok p \<longleftrightarrow> stream_ok Up p \<and> stream_ok Down p"

lemma pipe0_ok: "pipe_ok pipe0"
  by (simp add: pipe_ok_def stream_ok_def pipe0_def fresh_conn_def)

lemma prefix_take [simp]: "prefix (take n bs) (bs @ cs)"
  by (metis append_take_drop_id append.assoc prefixI)

lemmas pipe_simps = pipe_ok_def stream_ok_def Let_def

lemma pipe_step_ok:
  assumes "pipe_step l p = Some q" "pipe_ok p"
  shows "pipe_ok q"
proof (cases l)
  case (PeerSends d bs) with assms show ?thesis by (cases d) (auto simp: pipe_simps split: if_splits)
next
  case (PeerFinishes d) with assms show ?thesis by (cases d) (auto simp: pipe_simps split: if_splits)
next
  case (PeerResets d) with assms show ?thesis by (cases d) (auto simp: pipe_simps)
next
  case (CopyRead d n) with assms show ?thesis by (cases d) (auto simp: pipe_simps split: if_splits)
next
  case (CopyEof d) with assms show ?thesis by (cases d) (auto simp: pipe_simps split: if_splits)
next
  case (CopyReadFails d) with assms show ?thesis by (cases d) (auto simp: pipe_simps split: if_splits)
next
  case (CopyWrite d) with assms show ?thesis by (cases d) (auto simp: pipe_simps split: if_splits copier.splits)
next
  case (CopyWritePart d n) with assms show ?thesis by (cases d) (auto simp: pipe_simps split: if_splits copier.splits)
next
  case (CopyWriteFails d) with assms show ?thesis by (cases d) (auto simp: pipe_simps split: if_splits copier.splits)
next
  case (CancelCopy d) with assms show ?thesis by (cases d) (auto simp: pipe_simps split: if_splits)
qed (use assms in \<open>auto simp: pipe_simps split: if_splits\<close>)

lemma pipe_run_ok: "pipe_run ls p = Some q \<Longrightarrow> pipe_ok p \<Longrightarrow> pipe_ok q"
  by (induction ls arbitrary: p) (auto dest: pipe_step_ok split: option.splits)

section \<open>The end of a connection\<close>

text \<open>
  The work that is left for the program: a copier has up to three steps for each unread byte, and three more,
  the closer has two, and the handler returns once.
\<close>

fun copier_work :: "copier \<Rightarrow> nat" where
  "copier_work Copying = 3"
| "copier_work (Holding bs) = 4 + length bs"
| "copier_work CopyReturned = 1"
| "copier_work Finished = 0"

fun closer_work :: "closer \<Rightarrow> nat" where
  "closer_work Waiting = 2"
| "closer_work ClosedClient = 1"
| "closer_work ClosedBoth = 0"

definition work :: "pipe \<Rightarrow> nat" where
  "work p = 3 * length (cn_in (pp_client p)) + copier_work (pp_up p) + 3 * length (cn_in (pp_target p)) +
     copier_work (pp_down p) + closer_work (pp_closer p) + (if pp_returned p then 0 else 1)"

lemma own_step_works:
  assumes "pipe_step l p = Some q" "own l"
  shows "work q < work p"
proof (cases l)
  case (CopyRead d n) with assms show ?thesis by (cases d) (auto simp: work_def Let_def split: if_splits)
next
  case (CopyEof d) with assms show ?thesis by (cases d) (auto simp: work_def Let_def split: if_splits)
next
  case (CopyReadFails d) with assms show ?thesis by (cases d) (auto simp: work_def split: if_splits)
next
  case (CopyWrite d) with assms show ?thesis by (cases d) (auto simp: work_def Let_def split: if_splits copier.splits)
next
  case (CopyWritePart d n) with assms show ?thesis by (cases d) (auto simp: work_def Let_def split: if_splits copier.splits)
next
  case (CopyWriteFails d) with assms show ?thesis by (cases d) (auto simp: work_def split: if_splits copier.splits)
next
  case (CancelCopy d) with assms show ?thesis by (cases d) (auto simp: work_def split: if_splits)
qed (use assms in \<open>auto simp: work_def split: if_splits\<close>)

text \<open>As long as the handler has not returned after a cancel, some statement can run.\<close>

definition ended :: "pipe \<Rightarrow> bool" where
  "ended p \<longleftrightarrow> pp_returned p \<and> cn_closed (pp_client p) \<and> cn_closed (pp_target p)"

text \<open>The flags move forward only, and the closer's progress is what it has closed.\<close>

definition flags_ok :: "pipe \<Rightarrow> bool" where
  "flags_ok p \<longleftrightarrow>
     (pp_closer p \<noteq> Waiting \<longrightarrow> cn_closed (pp_client p)) \<and> (pp_closer p = ClosedBoth \<longrightarrow> cn_closed (pp_target p)) \<and>
     (pp_returned p \<longrightarrow> pp_up p = Finished \<and> pp_down p = Finished \<and> cn_closed (pp_client p) \<and> cn_closed (pp_target p)) \<and>
     (pp_up p = Finished \<or> pp_down p = Finished \<longrightarrow> pp_cancelled p)"

lemma pipe0_flags: "flags_ok pipe0"
  by (simp add: flags_ok_def pipe0_def fresh_conn_def)

text \<open>Most steps touch no flag.\<close>

lemma flags_frame:
  assumes "flags_ok p" "pp_closer q = pp_closer p" "pp_returned q = pp_returned p" "pp_cancelled q = pp_cancelled p"
    and "cn_closed (pp_client q) = cn_closed (pp_client p)" "cn_closed (pp_target q) = cn_closed (pp_target p)"
    and "pp_up q = Finished \<longleftrightarrow> pp_up p = Finished" "pp_down q = Finished \<longleftrightarrow> pp_down p = Finished"
  shows "flags_ok q \<and> (pp_cancelled p \<longrightarrow> pp_cancelled q)"
  using assms by (simp add: flags_ok_def)

lemma pipe_step_flags:
  assumes "pipe_step l p = Some q" "flags_ok p"
  shows "flags_ok q \<and> (pp_cancelled p \<longrightarrow> pp_cancelled q)"
proof (cases l)
  case (PeerSends d bs)
  show ?thesis by (rule flags_frame [OF assms(2)]; cases d; use assms(1) PeerSends in \<open>force simp: Let_def split: if_splits\<close>)
next
  case (PeerFinishes d)
  show ?thesis by (rule flags_frame [OF assms(2)]; cases d; use assms(1) PeerFinishes in \<open>force simp: Let_def split: if_splits\<close>)
next
  case (PeerResets d)
  show ?thesis by (rule flags_frame [OF assms(2)]; cases d; use assms(1) PeerResets in \<open>force simp: Let_def split: if_splits\<close>)
next
  case (CopyRead d n)
  show ?thesis by (rule flags_frame [OF assms(2)]; cases d; use assms(1) CopyRead in \<open>force simp: Let_def split: if_splits\<close>)
next
  case (CopyEof d)
  show ?thesis by (rule flags_frame [OF assms(2)]; cases d; use assms(1) CopyEof in \<open>force simp: Let_def split: if_splits\<close>)
next
  case (CopyReadFails d)
  show ?thesis by (rule flags_frame [OF assms(2)]; cases d; use assms(1) CopyReadFails in \<open>force split: if_splits\<close>)
next
  case (CopyWrite d)
  show ?thesis by (rule flags_frame [OF assms(2)]; cases d; use assms(1) CopyWrite in \<open>force simp: Let_def split: if_splits copier.splits\<close>)
next
  case (CopyWritePart d n)
  show ?thesis by (rule flags_frame [OF assms(2)]; cases d; use assms(1) CopyWritePart in \<open>force simp: Let_def split: if_splits copier.splits\<close>)
next
  case (CopyWriteFails d)
  show ?thesis by (rule flags_frame [OF assms(2)]; cases d; use assms(1) CopyWriteFails in \<open>force split: if_splits copier.splits\<close>)
next
  case (CancelCopy d)
  then have "q = set_copier d Finished (p\<lparr>pp_cancelled := True\<rparr>)" "copier_of d p = CopyReturned"
    using assms(1) by (simp_all split: if_splits)
  with assms(2) show ?thesis by (cases d) (simp_all add: flags_ok_def)
next
  case CloseClient
  then have "q = p\<lparr>pp_client := (pp_client p)\<lparr>cn_closed := True\<rparr>, pp_closer := ClosedClient\<rparr>" "pp_cancelled p"
    using assms(1) by (simp_all split: if_splits)
  with assms(2) show ?thesis by (simp add: flags_ok_def)
next
  case CloseTarget
  then have "q = p\<lparr>pp_target := (pp_target p)\<lparr>cn_closed := True\<rparr>, pp_closer := ClosedBoth\<rparr>" "pp_closer p = ClosedClient"
    using assms(1) by (simp_all split: if_splits)
  with assms(2) show ?thesis by (simp add: flags_ok_def)
next
  case HandlerReturns
  with assms show ?thesis by (auto simp: flags_ok_def split: if_splits)
next
  case StopRelay
  with assms show ?thesis by (auto simp: flags_ok_def)
qed

lemma pipe_run_flags:
  "pipe_run ls p = Some q \<Longrightarrow> flags_ok p \<Longrightarrow> flags_ok q \<and> (pp_cancelled p \<longrightarrow> pp_cancelled q)"
  by (induction ls arbitrary: p) (auto dest: pipe_step_flags split: option.splits)

lemma copier_can_run:
  assumes "copier_of d p \<noteq> Finished" "broken (source d p)"
  shows "\<exists>l q. own l \<and> pipe_step l p = Some q"
proof (cases "copier_of d p")
  case Copying
  with assms show ?thesis by (intro exI [of _ "CopyReadFails d"]) simp
next
  case (Holding bs)
  then show ?thesis
    by (cases "broken (sink d p)") (intro exI [of _ "CopyWriteFails d"], simp, intro exI [of _ "CopyWrite d"], simp add: Let_def)
next
  case CopyReturned
  then show ?thesis by (intro exI [of _ "CancelCopy d"]) simp
qed (use assms in simp)

lemma cancelled_progress:
  assumes "pp_cancelled p" "flags_ok p" "\<not> ended p"
  shows "\<exists>l q. own l \<and> pipe_step l p = Some q"
proof (cases "pp_closer p")
  case Waiting
  with assms show ?thesis by (intro exI [of _ CloseClient]) simp
next
  case ClosedClient
  then show ?thesis by (intro exI [of _ CloseTarget]) simp
next
  case ClosedBoth
  with assms(2) have b: "broken (source d p)" for d by (cases d) (auto simp: flags_ok_def broken_def)
  show ?thesis
  proof (cases "pp_up p = Finished \<and> pp_down p = Finished")
    case True
    with assms(2,3) have "\<not> pp_returned p" by (auto simp: flags_ok_def ended_def)
    with True show ?thesis by (intro exI [of _ HandlerReturns]) simp
  next
    case False
    then have "\<exists>d. copier_of d p \<noteq> Finished" by (metis copier_of.simps)
    with b copier_can_run show ?thesis by blast
  qed
qed

lemma own_run_bounded: "pipe_run ls p = Some q \<Longrightarrow> \<forall>l \<in> set ls. own l \<Longrightarrow> length ls + work q \<le> work p"
proof (induction ls arbitrary: p)
  case (Cons l ls)
  then obtain p1 where p1: "pipe_step l p = Some p1" "pipe_run ls p1 = Some q" by (auto split: option.splits)
  with Cons.IH [OF p1(2)] own_step_works [OF p1(1)] Cons.prems(2) show ?case by simp
qed simp

text \<open>
  C12: a TCP relay passes on exactly what it received. In any interleaving of its goroutines with the peers,
  with resets and with a cancel, what either side has been given is a prefix of what the other side sent, and
  as long as a direction's copier is at work not a byte of it is lost: what is delivered and what is still to be
  read are the whole stream.
\<close>

theorem relay_pipes_streams:
  assumes "pipe_run ls pipe0 = Some p"
  shows "prefix (cn_out (sink d p)) (cn_sent (source d p)) \<and>
    (copier_of d p = Copying \<longrightarrow> cn_sent (source d p) = cn_out (sink d p) @ cn_in (source d p))"
  using pipe_run_ok [OF assms pipe0_ok] by (cases d) (auto simp: pipe_ok_def stream_ok_def)

definition short_talk :: "label list" where
  "short_talk = [PeerSends Up [1, 2, 3], CopyRead Up 2, PeerSends Down [9], CopyWrite Up, CopyRead Down 1, CopyWrite Down]"

theorem relay_pipes_streams_witness:
  "\<exists>p. pipe_run short_talk pipe0 = Some p \<and> prefix (cn_out (sink Up p)) [1, 2, 3] \<and> cn_out (sink Up p) = [1, 2]"
proof -
  have "pipe_run short_talk pipe0 \<noteq> None" by code_simp
  then obtain p where p: "pipe_run short_talk pipe0 = Some p" by blast
  have "cn_sent (source Up (the (pipe_run short_talk pipe0))) = [1, 2, 3] \<and>
    cn_out (sink Up (the (pipe_run short_talk pipe0))) = [1, 2]" by code_simp
  with relay_pipes_streams [OF p, of Up] p show ?thesis by auto
qed

text \<open>
  No relayed connection outlives its end. Once one direction has ended, or the relay has been stopped, the
  goroutines of the connection finish within a number of statements fixed by what is still unread, whatever the
  schedule: they are never stuck before the handler has returned and both connections are closed.
\<close>

lemma relay_ends:
  assumes "pipe_run before pipe0 = Some p" "pp_cancelled p"
    and "pipe_run ls p = Some q" "\<forall>l \<in> set ls. own l"
  shows "length ls \<le> work p \<and> ((\<forall>l. own l \<longrightarrow> pipe_step l q = None) \<longrightarrow> ended q)"
proof
  show "length ls \<le> work p" using own_run_bounded [OF assms(3,4)] by simp
  have "flags_ok p" using pipe_run_flags [OF assms(1) pipe0_flags] by simp
  with pipe_run_flags [OF assms(3)] assms(2) have "flags_ok q" "pp_cancelled q" by auto
  with cancelled_progress [of q] show "(\<forall>l. own l \<longrightarrow> pipe_step l q = None) \<longrightarrow> ended q" by fastforce
qed

definition winding_up :: "label list" where
  "winding_up = [CloseClient, CopyReadFails Up, CloseTarget, CopyReadFails Down, CancelCopy Down, CancelCopy Up, HandlerReturns]"

lemma relay_ends_witness:
  "length winding_up \<le> work (the (pipe_run [StopRelay] pipe0)) \<and>
   ended (the (pipe_run (StopRelay # winding_up) pipe0))"
proof -
  obtain p where p: "pipe_run [StopRelay] pipe0 = Some p" by simp
  have c: "pp_cancelled (the (pipe_run [StopRelay] pipe0))" "pipe_run winding_up (the (pipe_run [StopRelay] pipe0)) \<noteq> None"
    "list_all own winding_up" "ended (the (pipe_run winding_up (the (pipe_run [StopRelay] pipe0))))"
    by code_simp+
  then obtain q where "pipe_run winding_up p = Some q" using p by auto
  with relay_ends [OF p, of winding_up q] c p show ?thesis by (auto simp: list_all_iff)
qed

text \<open>Nothing reaches a closed connection.\<close>

lemma closed_client_gets_nothing:
  assumes "pipe_step l p = Some q" "cn_closed (pp_client p)"
  shows "cn_closed (pp_client q) \<and> cn_out (pp_client q) = cn_out (pp_client p)"
proof (cases l)
  case (PeerSends d bs) with assms show ?thesis by (cases d) (auto simp: Let_def split: if_splits)
next
  case (PeerFinishes d) with assms show ?thesis by (cases d) (auto simp: Let_def split: if_splits)
next
  case (PeerResets d) with assms show ?thesis by (cases d) auto
next
  case (CopyRead d n) with assms show ?thesis by (cases d) (auto simp: Let_def split: if_splits)
next
  case (CopyEof d) with assms show ?thesis by (cases d) (auto simp: Let_def split: if_splits)
next
  case (CopyReadFails d) with assms show ?thesis by (cases d) (auto split: if_splits)
next
  case (CopyWrite d)
  with assms show ?thesis by (cases d) (auto simp: Let_def broken_def split: if_splits copier.splits)
next
  case (CopyWritePart d n)
  with assms show ?thesis by (cases d) (auto simp: Let_def broken_def split: if_splits copier.splits)
next
  case (CopyWriteFails d) with assms show ?thesis by (cases d) (auto split: if_splits copier.splits)
next
  case (CancelCopy d) with assms show ?thesis by (cases d) (auto split: if_splits)
qed (use assms in \<open>auto split: if_splits\<close>)

lemma closed_client_run:
  "pipe_run ls p = Some q \<Longrightarrow> cn_closed (pp_client p) \<Longrightarrow> cn_out (pp_client q) = cn_out (pp_client p)"
  by (induction ls arbitrary: p) (auto dest: closed_client_gets_nothing split: option.splits)

text \<open>
  A half-close costs the answer. When a client has sent its request and closed its sending side, three
  statements of the proxy, which wait for nothing, close its connection altogether: from then on, whatever the
  target answers and in whatever order the rest runs, the client receives no further byte.
\<close>

lemma half_close_loses_answer:
  assumes "pp_up p = Copying" "cn_eof (pp_client p)" "cn_in (pp_client p) = []" "\<not> broken (pp_client p)" "pp_closer p = Waiting"
  shows "\<exists>q. pipe_run [CopyEof Up, CancelCopy Up, CloseClient] p = Some q \<and> pp_target q = pp_target p \<and>
    (\<forall>ls r. pipe_run ls q = Some r \<longrightarrow> cn_out (pp_client r) = cn_out (pp_client p))"
proof -
  obtain q where q: "pipe_run [CopyEof Up, CancelCopy Up, CloseClient] p = Some q" "pp_target q = pp_target p"
    "cn_closed (pp_client q)" "cn_out (pp_client q) = cn_out (pp_client p)"
    using assms by (auto simp: Let_def)
  with closed_client_run [of _ q] show ?thesis by (intro exI [of _ q]) simp
qed

text \<open>The request is at the target, the client has finished, and nothing has been answered.\<close>

definition asked :: pipe where
  "asked = the (pipe_run [PeerSends Up [71, 69, 84], PeerFinishes Up, CopyRead Up 3, CopyWrite Up] pipe0)"

lemma half_close_loses_answer_witness:
  "\<exists>q. pipe_run [CopyEof Up, CancelCopy Up, CloseClient] asked = Some q \<and> cn_out (pp_target q) = [71, 69, 84] \<and>
     (\<forall>r. pipe_run [PeerSends Down [79, 75], CopyRead Down 2, CopyWriteFails Down] q = Some r \<longrightarrow> cn_out (pp_client r) = [])"
proof -
  have a: "pp_up asked = Copying" "cn_eof (pp_client asked)" "cn_in (pp_client asked) = []" "\<not> broken (pp_client asked)"
    "pp_closer asked = Waiting" "cn_out (pp_target asked) = [71, 69, 84]" "cn_out (pp_client asked) = []"
    by code_simp+
  obtain q where q: "pipe_run [CopyEof Up, CancelCopy Up, CloseClient] asked = Some q" "pp_target q = pp_target asked"
    "\<forall>ls r. pipe_run ls q = Some r \<longrightarrow> cn_out (pp_client r) = cn_out (pp_client asked)"
    using half_close_loses_answer [OF a(1-5)] by blast
  show ?thesis
  proof (intro exI [of _ q] conjI allI impI)
    show "cn_out (pp_target q) = [71, 69, 84]" using q(2) a(6) by simp
    show "cn_out (pp_client r) = []" if "pipe_run [PeerSends Down [79, 75], CopyRead Down 2, CopyWriteFails Down] q = Some r" for r
      using q(3) [rule_format, OF that] a(7) by simp
  qed (rule q(1))
qed

end
