(* ===== verification/UdpFlows.thy ===== *)
theory UdpFlows
  imports RawRelay
begin

text \<open>
  The goroutines of proxy/udp.go's \<^verbatim>\<open>runUDPProxy\<close>, statement by statement: the loop that reads the listen
  socket, the reaper, one reply pump for each flow, and the one that closes the listen socket. A flow is a
  heap object: its number is the pointer that the loop, the map and its pump hold. What runs under the mutex is
  one step. Whether a new client is admitted (the checks and the dial of \<open>udp_packet\<close>) comes with the packet.
\<close>

section \<open>State\<close>

type_synonym datagram = "8 word list"

datatype pump = Pumping | Carrying datagram | Bumped datagram | PumpReturned | SocketClosed | PumpGone

text \<open>\<open>fl_sent\<close> is what was written to the target socket, with the client it came from.\<close>

record flow =
  fl_key :: string
  fl_last :: int
  fl_closed :: bool
  fl_pump :: pump
  fl_in :: "datagram list"
  fl_sent :: "(string \<times> datagram) list"

datatype loop = Reading | HasFlow nat string datagram | BumpedFlow nat string datagram | Stopping | WaitingForAll | LoopReturned

record relay_state =
  rs_flows :: "flow list"
  rs_map :: "string \<Rightarrow> nat option"
  rs_loop :: loop
  rs_reaper :: bool
  rs_cancelled :: bool
  rs_listening :: bool
  rs_replies :: "(string \<times> datagram) list"

definition relay0 :: relay_state where
  "relay0 = \<lparr>rs_flows = [], rs_map = (\<lambda>_. None), rs_loop = Reading, rs_reaper = True, rs_cancelled = False,
     rs_listening = True, rs_replies = []\<rparr>"

definition new_flow :: "string \<Rightarrow> time \<Rightarrow> flow" where
  "new_flow key now = \<lparr>fl_key = key, fl_last = now, fl_closed = False, fl_pump = Pumping, fl_in = [], fl_sent = []\<rparr>"

definition upd_flow :: "nat \<Rightarrow> (flow \<Rightarrow> flow) \<Rightarrow> relay_state \<Rightarrow> relay_state" where
  "upd_flow i f s = s\<lparr>rs_flows := (rs_flows s)[i := f (rs_flows s ! i)]\<rparr>"

section \<open>Steps\<close>

datatype udp_label =
    Arrives string datagram time bool | TargetSends nat datagram | TargetUnreachable nat | ReaperTicks time | CancelRelay
  | LoopBumps time | LoopWrites | PumpReads nat | PumpReadFails nat | PumpBumps nat time | PumpWrites nat
  | PumpCloses nat | PumpDeletes nat | ListenCloses | LoopStops | LoopReadFails | LoopClosesAll | ReaperStops | LoopReturns

definition is_pump :: "nat \<Rightarrow> pump \<Rightarrow> relay_state \<Rightarrow> bool" where
  "is_pump i ph s \<longleftrightarrow> i < length (rs_flows s) \<and> fl_pump (rs_flows s ! i) = ph"

definition idle_since :: "int \<Rightarrow> relay_state \<Rightarrow> nat \<Rightarrow> bool" where
  "idle_since cutoff s i \<longleftrightarrow> rs_map s (fl_key (rs_flows s ! i)) = Some i \<and> fl_last (rs_flows s ! i) < cutoff"

definition close_flows :: "(nat \<Rightarrow> bool) \<Rightarrow> relay_state \<Rightarrow> flow list" where
  "close_flows P s = map (\<lambda>i. if P i then (rs_flows s ! i)\<lparr>fl_closed := True\<rparr> else rs_flows s ! i) [0..<length (rs_flows s)]"

fun flow_step :: "udp_label \<Rightarrow> relay_state \<Rightarrow> relay_state option" where
  "flow_step (Arrives key d now admitted) s =
     (if rs_loop s \<noteq> Reading \<or> \<not> rs_listening s then None
      else case rs_map s key of
          Some i \<Rightarrow> Some (s\<lparr>rs_loop := HasFlow i key d\<rparr>)
        | None \<Rightarrow>
            if \<not> admitted then Some s
            else Some (s\<lparr>rs_flows := rs_flows s @ [new_flow key now],
                         rs_map := (rs_map s)(key \<mapsto> length (rs_flows s)),
                         rs_loop := HasFlow (length (rs_flows s)) key d\<rparr>))"
| "flow_step (LoopBumps now) s =
     (case rs_loop s of HasFlow i key d \<Rightarrow> Some ((upd_flow i (\<lambda>f. f\<lparr>fl_last := now\<rparr>) s)\<lparr>rs_loop := BumpedFlow i key d\<rparr>) | _ \<Rightarrow> None)"
| "flow_step LoopWrites s =
     (case rs_loop s of
        BumpedFlow i key d \<Rightarrow>
          Some ((upd_flow i (\<lambda>f. if fl_closed f then f else f\<lparr>fl_sent := fl_sent f @ [(key, d)]\<rparr>) s)\<lparr>rs_loop := Reading\<rparr>)
      | _ \<Rightarrow> None)"
| "flow_step (TargetSends i d) s =
     (if i < length (rs_flows s) \<and> \<not> fl_closed (rs_flows s ! i)
      then Some (upd_flow i (\<lambda>f. f\<lparr>fl_in := fl_in f @ [d]\<rparr>) s) else None)"
| "flow_step (TargetUnreachable i) s =
     (if is_pump i Pumping s then Some (upd_flow i (\<lambda>f. f\<lparr>fl_pump := PumpReturned\<rparr>) s) else None)"
| "flow_step (PumpReads i) s =
     (if is_pump i Pumping s \<and> \<not> fl_closed (rs_flows s ! i) then
        (case fl_in (rs_flows s ! i) of
           [] \<Rightarrow> None
         | d # ds \<Rightarrow> Some (upd_flow i (\<lambda>f. f\<lparr>fl_pump := Carrying d, fl_in := ds\<rparr>) s))
      else None)"
| "flow_step (PumpReadFails i) s =
     (if is_pump i Pumping s \<and> fl_closed (rs_flows s ! i)
      then Some (upd_flow i (\<lambda>f. f\<lparr>fl_pump := PumpReturned\<rparr>) s) else None)"
| "flow_step (PumpBumps i now) s =
     (if i < length (rs_flows s) then
        (case fl_pump (rs_flows s ! i) of
           Carrying d \<Rightarrow> Some (upd_flow i (\<lambda>f. f\<lparr>fl_last := now, fl_pump := Bumped d\<rparr>) s) | _ \<Rightarrow> None)
      else None)"
| "flow_step (PumpWrites i) s =
     (if i < length (rs_flows s) then
        (case fl_pump (rs_flows s ! i) of
           Bumped d \<Rightarrow>
             if rs_listening s
             then Some ((upd_flow i (\<lambda>f. f\<lparr>fl_pump := Pumping\<rparr>) s)\<lparr>rs_replies := rs_replies s @ [(fl_key (rs_flows s ! i), d)]\<rparr>)
             else Some (upd_flow i (\<lambda>f. f\<lparr>fl_pump := PumpReturned\<rparr>) s)
         | _ \<Rightarrow> None)
      else None)"
| "flow_step (PumpCloses i) s =
     (if is_pump i PumpReturned s then Some (upd_flow i (\<lambda>f. f\<lparr>fl_closed := True, fl_pump := SocketClosed\<rparr>) s) else None)"
| "flow_step (PumpDeletes i) s =
     (if is_pump i SocketClosed s then
        Some ((upd_flow i (\<lambda>f. f\<lparr>fl_pump := PumpGone\<rparr>) s)\<lparr>rs_map :=
          (if rs_map s (fl_key (rs_flows s ! i)) = Some i then (rs_map s)(fl_key (rs_flows s ! i) := None) else rs_map s)\<rparr>)
      else None)"
| "flow_step (ReaperTicks now) s =
     (if \<not> rs_reaper s then None
      else let idle = idle_since (now - udpSessionTimeout) s
        in Some (s\<lparr>rs_flows := close_flows idle s,
                   rs_map := (\<lambda>k. case rs_map s k of None \<Rightarrow> None | Some i \<Rightarrow> if idle i then None else Some i)\<rparr>))"
| "flow_step CancelRelay s = Some (s\<lparr>rs_cancelled := True\<rparr>)"
| "flow_step ListenCloses s =
     (if rs_cancelled s \<and> rs_listening s then Some (s\<lparr>rs_listening := False\<rparr>) else None)"
| "flow_step LoopStops s =
     (if rs_loop s = Reading \<and> \<not> rs_listening s then Some (s\<lparr>rs_loop := Stopping\<rparr>) else None)"
| "flow_step LoopReadFails s = (if rs_loop s = Reading then Some (s\<lparr>rs_loop := Stopping\<rparr>) else None)"
| "flow_step LoopClosesAll s =
     (if rs_loop s = Stopping
      then Some (s\<lparr>rs_flows := close_flows (\<lambda>i. rs_map s (fl_key (rs_flows s ! i)) = Some i) s, rs_loop := WaitingForAll\<rparr>)
      else None)"
| "flow_step ReaperStops s = (if rs_cancelled s \<and> rs_reaper s then Some (s\<lparr>rs_reaper := False\<rparr>) else None)"
| "flow_step LoopReturns s =
     (if rs_loop s = WaitingForAll \<and> \<not> rs_reaper s \<and> list_all (\<lambda>f. fl_pump f = PumpGone) (rs_flows s)
      then Some (s\<lparr>rs_loop := LoopReturned, rs_listening := False\<rparr>) else None)"

fun flow_run :: "udp_label list \<Rightarrow> relay_state \<Rightarrow> relay_state option" where
  "flow_run [] s = Some s"
| "flow_run (l # ls) s = (case flow_step l s of None \<Rightarrow> None | Some t \<Rightarrow> flow_run ls t)"

text \<open>
  The statements of the program, as against clients, targets, timers, the cancel and an error of \<^verbatim>\<open>ReadFrom\<close>, which
  ends the loop with the context live and the socket open.
\<close>

fun own_statement :: "udp_label \<Rightarrow> bool" where
  "own_statement (Arrives k d now b) \<longleftrightarrow> False"
| "own_statement (TargetSends i d) \<longleftrightarrow> False"
| "own_statement (TargetUnreachable i) \<longleftrightarrow> False"
| "own_statement (ReaperTicks now) \<longleftrightarrow> False"
| "own_statement CancelRelay \<longleftrightarrow> False"
| "own_statement LoopReadFails \<longleftrightarrow> False"
| "own_statement l \<longleftrightarrow> True"

section \<open>The map and the flows\<close>

fun loop_flow :: "loop \<Rightarrow> (nat \<times> string) option" where
  "loop_flow (HasFlow i key d) = Some (i, key)"
| "loop_flow (BumpedFlow i key d) = Some (i, key)"
| "loop_flow l = None"

text \<open>
  A map entry is a flow of its own key; an open flow is the entry of its key, so that it will be reaped and
  closed; and the datagrams in a flow's target socket are its own client's.
\<close>

definition flow_at :: "relay_state \<Rightarrow> nat \<Rightarrow> flow \<Rightarrow> bool" where
  "flow_at s i f \<longleftrightarrow> (\<not> fl_closed f \<longrightarrow> rs_map s (fl_key f) = Some i) \<and>
     (fl_pump f \<in> {SocketClosed, PumpGone} \<longrightarrow> fl_closed f) \<and> fst ` set (fl_sent f) \<subseteq> {fl_key f} \<and>
     (rs_loop s \<in> {WaitingForAll, LoopReturned} \<longrightarrow> fl_closed f)"

definition flows_inv :: "relay_state \<Rightarrow> bool" where
  "flows_inv s \<longleftrightarrow>
     (\<forall>k i. rs_map s k = Some i \<longrightarrow> i < length (rs_flows s) \<and> fl_key (rs_flows s ! i) = k) \<and>
     (\<forall>i < length (rs_flows s). flow_at s i (rs_flows s ! i)) \<and>
     (\<forall>i key. loop_flow (rs_loop s) = Some (i, key) \<longrightarrow> i < length (rs_flows s) \<and> fl_key (rs_flows s ! i) = key)"

lemma flows_invI:
  assumes "\<And>k i. rs_map s k = Some i \<Longrightarrow> i < length (rs_flows s) \<and> fl_key (rs_flows s ! i) = k"
    and "\<And>i. i < length (rs_flows s) \<Longrightarrow> flow_at s i (rs_flows s ! i)"
    and "\<And>i key. loop_flow (rs_loop s) = Some (i, key) \<Longrightarrow> i < length (rs_flows s) \<and> fl_key (rs_flows s ! i) = key"
  shows "flows_inv s"
  using assms unfolding flows_inv_def by blast

lemma flows_invD:
  assumes "flows_inv s"
  shows inv_map: "\<And>k i. rs_map s k = Some i \<Longrightarrow> i < length (rs_flows s)" "\<And>k i. rs_map s k = Some i \<Longrightarrow> fl_key (rs_flows s ! i) = k"
    and inv_flow: "\<And>i. i < length (rs_flows s) \<Longrightarrow> flow_at s i (rs_flows s ! i)"
    and inv_loop: "\<And>i key. loop_flow (rs_loop s) = Some (i, key) \<Longrightarrow> i < length (rs_flows s)"
      "\<And>i key. loop_flow (rs_loop s) = Some (i, key) \<Longrightarrow> fl_key (rs_flows s ! i) = key"
  using assms unfolding flows_inv_def by blast+

lemma relay0_inv: "flows_inv relay0"
  by (rule flows_invI) (simp_all add: relay0_def)

text \<open>A step that keeps the map and every key, and each flow as good as it was.\<close>

lemma inv_step:
  assumes "flows_inv s" "rs_map t = rs_map s" "length (rs_flows t) = length (rs_flows s)"
    and "\<And>i. i < length (rs_flows s) \<Longrightarrow> fl_key (rs_flows t ! i) = fl_key (rs_flows s ! i)"
    and "\<And>i. i < length (rs_flows s) \<Longrightarrow> flow_at s i (rs_flows s ! i) \<Longrightarrow> flow_at t i (rs_flows t ! i)"
    and "loop_flow (rs_loop t) = None \<or> loop_flow (rs_loop t) = loop_flow (rs_loop s)"
  shows "flows_inv t"
proof (rule flows_invI)
  fix k i
  assume "rs_map t k = Some i"
  then show "i < length (rs_flows t) \<and> fl_key (rs_flows t ! i) = k"
    using inv_map [OF assms(1), of k i] assms(2-4) by auto
next
  fix i
  assume "i < length (rs_flows t)"
  then show "flow_at t i (rs_flows t ! i)" using inv_flow [OF assms(1), of i] assms(3,5) by auto
next
  fix i key
  assume "loop_flow (rs_loop t) = Some (i, key)"
  then show "i < length (rs_flows t) \<and> fl_key (rs_flows t ! i) = key"
    using inv_loop [OF assms(1), of i key] assms(3,4,6) by auto
qed

lemma upd_flow_nth:
  "j < length (rs_flows s) \<Longrightarrow> rs_flows (upd_flow i f s) ! j = (if i = j then f (rs_flows s ! j) else rs_flows s ! j)"
  "length (rs_flows (upd_flow i f s)) = length (rs_flows s)"
  by (simp_all add: upd_flow_def nth_list_update)

lemma upd_flow_sel [simp]:
  "rs_map (upd_flow i f s) = rs_map s" "rs_loop (upd_flow i f s) = rs_loop s"
  "rs_listening (upd_flow i f s) = rs_listening s" "rs_replies (upd_flow i f s) = rs_replies s"
  "rs_reaper (upd_flow i f s) = rs_reaper s" "rs_cancelled (upd_flow i f s) = rs_cancelled s"
  by (simp_all add: upd_flow_def)

lemma upd_flow_inv:
  assumes "flows_inv s" "\<And>f'. fl_key (f f') = fl_key f'"
    and "i < length (rs_flows s) \<Longrightarrow> flow_at s i (rs_flows s ! i) \<Longrightarrow> flow_at s i (f (rs_flows s ! i))"
  shows "flows_inv (upd_flow i f s)"
proof (rule inv_step [OF assms(1)])
  fix j
  assume "j < length (rs_flows s)" "flow_at s j (rs_flows s ! j)"
  then show "flow_at (upd_flow i f s) j (rs_flows (upd_flow i f s) ! j)"
    using assms(3) by (auto simp: upd_flow_nth flow_at_def)
qed (use assms in \<open>auto simp: upd_flow_nth\<close>)

text \<open>Moving the loop between its working states concerns the flow it holds only.\<close>

lemma set_loop_inv:
  assumes "flows_inv s" "rs_loop s \<notin> {Stopping, WaitingForAll, LoopReturned}" "l \<notin> {Stopping, WaitingForAll, LoopReturned}"
    and "loop_flow l = None \<or> loop_flow l = loop_flow (rs_loop s)"
  shows "flows_inv (s\<lparr>rs_loop := l\<rparr>)"
  by (rule inv_step [OF assms(1)]) (use assms in \<open>auto simp: flow_at_def\<close>)

lemma close_flows_nth:
  "i < length (rs_flows s) \<Longrightarrow> close_flows P s ! i = (if P i then (rs_flows s ! i)\<lparr>fl_closed := True\<rparr> else rs_flows s ! i)"
  "length (close_flows P s) = length (rs_flows s)"
  by (simp_all add: close_flows_def)

lemma arrives_inv:
  assumes "flow_step (Arrives key d now b) s = Some t" and ok: "flows_inv s"
  shows "flows_inv t"
proof (cases "rs_map s key")
  case (Some i)
  with assms have t: "t = s\<lparr>rs_loop := HasFlow i key d\<rparr>" "rs_loop s = Reading" by (auto split: if_splits)
  show ?thesis
  proof (rule flows_invI)
    fix j key'
    assume "loop_flow (rs_loop t) = Some (j, key')"
    then show "j < length (rs_flows t) \<and> fl_key (rs_flows t ! j) = key'"
      using inv_map [OF ok Some] by (simp add: t)
  next
    fix j
    assume "j < length (rs_flows t)"
    then show "flow_at t j (rs_flows t ! j)" using inv_flow [OF ok, of j] by (simp add: t flow_at_def)
  qed (use inv_map [OF ok] in \<open>auto simp: t\<close>)
next
  case None
  show ?thesis
  proof (cases b)
    case True
    with assms None have t: "t = s\<lparr>rs_flows := rs_flows s @ [new_flow key now],
        rs_map := (rs_map s)(key \<mapsto> length (rs_flows s)), rs_loop := HasFlow (length (rs_flows s)) key d\<rparr>" "rs_loop s = Reading"
      by (auto split: if_splits)
    show ?thesis
    proof (rule flows_invI)
      fix i
      assume i: "i < length (rs_flows t)"
      show "flow_at t i (rs_flows t ! i)"
      proof (cases "i = length (rs_flows s)")
        case True
        then show ?thesis by (simp add: t flow_at_def new_flow_def)
      next
        case False
        with i have "i < length (rs_flows s)" by (simp add: t)
        with inv_flow [OF ok this] None show ?thesis by (auto simp: t flow_at_def nth_append)
      qed
    qed (use inv_map [OF ok] in \<open>auto simp: t nth_append new_flow_def less_Suc_eq split: if_splits\<close>)
  next
    case False
    with assms None show ?thesis by (simp split: if_splits)
  qed
qed

lemma reaper_inv:
  assumes "flow_step (ReaperTicks now) s = Some t" and ok: "flows_inv s"
  shows "flows_inv t"
proof -
  let ?idle = "idle_since (now - udpSessionTimeout) s"
  have t: "rs_flows t = close_flows ?idle s" "rs_loop t = rs_loop s" "rs_listening t = rs_listening s"
    "rs_map t = (\<lambda>k. case rs_map s k of None \<Rightarrow> None | Some i \<Rightarrow> if ?idle i then None else Some i)"
    using assms by (auto simp: Let_def split: if_splits)
  show ?thesis
  proof (rule flows_invI)
    fix i
    assume i: "i < length (rs_flows t)"
    then have i': "i < length (rs_flows s)" by (simp add: t close_flows_nth)
    from inv_flow [OF ok i'] show "flow_at t i (rs_flows t ! i)"
      by (auto simp: t close_flows_nth i' flow_at_def)
  next
    fix k i
    assume "rs_map t k = Some i"
    then have "rs_map s k = Some i" by (auto simp: t split: option.splits if_splits)
    with inv_map [OF ok] show "i < length (rs_flows t) \<and> fl_key (rs_flows t ! i) = k"
      by (simp add: t close_flows_nth)
  next
    fix i key
    assume "loop_flow (rs_loop t) = Some (i, key)"
    with inv_loop [OF ok, of i key] show "i < length (rs_flows t) \<and> fl_key (rs_flows t ! i) = key"
      by (simp add: t close_flows_nth)
  qed
qed

lemma delete_inv:
  assumes "flow_step (PumpDeletes i) s = Some t" and ok: "flows_inv s"
  shows "flows_inv t"
proof -
  from assms have i: "i < length (rs_flows s)" "fl_pump (rs_flows s ! i) = SocketClosed" by (auto simp: is_pump_def split: if_splits)
  let ?k = "fl_key (rs_flows s ! i)"
  let ?s1 = "upd_flow i (\<lambda>f. f\<lparr>fl_pump := PumpGone\<rparr>) s"
  have closed: "fl_closed (rs_flows s ! i)" using inv_flow [OF ok i(1)] i(2) by (simp add: flow_at_def)
  have ok1: "flows_inv ?s1" by (rule upd_flow_inv [OF ok]) (use closed in \<open>auto simp: flow_at_def\<close>)
  show ?thesis
  proof (cases "rs_map s ?k = Some i")
    case True
    with assms i have t: "t = ?s1\<lparr>rs_map := (rs_map s)(?k := None)\<rparr>" by (simp add: is_pump_def)
    show ?thesis
    proof (rule flows_invI)
      fix j
      assume "j < length (rs_flows t)"
      then have j: "j < length (rs_flows ?s1)" by (simp add: t)
      show "flow_at t j (rs_flows t ! j)"
        using inv_flow [OF ok1 j] closed True j by (auto simp: t flow_at_def upd_flow_nth)
    qed (use inv_map [OF ok1] inv_loop [OF ok1] in \<open>auto simp: t split: if_splits\<close>)
  next
    case False
    with assms i have "t = ?s1" by (simp add: is_pump_def upd_flow_def)
    with ok1 show ?thesis by simp
  qed
qed

lemma closes_all_inv:
  assumes "flow_step LoopClosesAll s = Some t" and ok: "flows_inv s"
  shows "flows_inv t"
proof -
  let ?P = "\<lambda>i. rs_map s (fl_key (rs_flows s ! i)) = Some i"
  have t: "rs_flows t = close_flows ?P s" "rs_loop t = WaitingForAll" "rs_map t = rs_map s" "rs_listening t = rs_listening s"
    "rs_loop s = Stopping"
    using assms(1) by (auto split: if_splits)
  show ?thesis
    by (rule inv_step [OF ok]) (use t(5) in \<open>auto simp: t(1-4) close_flows_nth flow_at_def\<close>)
qed

lemma flow_step_inv:
  assumes "flow_step l s = Some t" "flows_inv s"
  shows "flows_inv t"
proof (cases l)
  case (Arrives k d now b) with assms arrives_inv show ?thesis by blast
next
  case (ReaperTicks now) with assms reaper_inv show ?thesis by blast
next
  case (PumpDeletes i) with assms delete_inv show ?thesis by blast
next
  case LoopClosesAll with assms closes_all_inv show ?thesis by blast
next
  case (LoopBumps now)
  then obtain i key d where l: "rs_loop s = HasFlow i key d"
    "t = (upd_flow i (\<lambda>f. f\<lparr>fl_last := now\<rparr>) s)\<lparr>rs_loop := BumpedFlow i key d\<rparr>"
    using assms(1) by (auto split: loop.splits)
  have "flows_inv (upd_flow i (\<lambda>f. f\<lparr>fl_last := now\<rparr>) s)" by (rule upd_flow_inv [OF assms(2)]) (auto simp: flow_at_def)
  then show ?thesis unfolding l(2) by (rule set_loop_inv) (simp_all add: l(1))
next
  case LoopWrites
  then obtain i key d where l: "rs_loop s = BumpedFlow i key d"
    "t = (upd_flow i (\<lambda>f. if fl_closed f then f else f\<lparr>fl_sent := fl_sent f @ [(key, d)]\<rparr>) s)\<lparr>rs_loop := Reading\<rparr>"
    using assms(1) by (auto split: loop.splits)
  have "fl_key (rs_flows s ! i) = key" using inv_loop(2) [OF assms(2), of i key] l(1) by simp
  then have "flows_inv (upd_flow i (\<lambda>f. if fl_closed f then f else f\<lparr>fl_sent := fl_sent f @ [(key, d)]\<rparr>) s)"
    by (intro upd_flow_inv [OF assms(2)]) (auto simp: flow_at_def)
  then show ?thesis unfolding l(2) by (rule set_loop_inv) (simp_all add: l(1))
next
  case (PumpWrites i)
  then obtain d where d: "i < length (rs_flows s)" "fl_pump (rs_flows s ! i) = Bumped d" using assms(1)
    by (auto split: if_splits pump.splits)
  have u: "flows_inv (upd_flow i (\<lambda>f. f\<lparr>fl_pump := p\<rparr>) s)" if "p \<in> {Pumping, PumpReturned}" for p
    using that by (intro upd_flow_inv [OF assms(2)]) (auto simp: flow_at_def)
  have "flows_inv (s1\<lparr>rs_replies := r\<rparr>)" if "flows_inv s1" for s1 r
    by (rule inv_step [OF that]) (auto simp: flow_at_def)
  with u PumpWrites assms(1) d show ?thesis by (auto split: if_splits)
next
  case ListenCloses
  then have t: "t = s\<lparr>rs_listening := False\<rparr>" using assms(1) by (auto split: if_splits)
  show ?thesis by (rule inv_step [OF assms(2)]) (use t in \<open>auto simp: flow_at_def\<close>)
next
  case LoopStops
  then have t: "t = s\<lparr>rs_loop := Stopping\<rparr>" "\<not> rs_listening s" "rs_loop s = Reading" using assms(1) by (auto split: if_splits)
  show ?thesis by (rule inv_step [OF assms(2)]) (use t in \<open>auto simp: flow_at_def\<close>)
next
  case LoopReadFails
  then have t: "t = s\<lparr>rs_loop := Stopping\<rparr>" "rs_loop s = Reading" using assms(1) by (auto split: if_splits)
  show ?thesis by (rule inv_step [OF assms(2)]) (use t in \<open>auto simp: flow_at_def\<close>)
next
  case LoopReturns
  then have t: "t = s\<lparr>rs_loop := LoopReturned, rs_listening := False\<rparr>" "rs_loop s = WaitingForAll" using assms(1) by (auto split: if_splits)
  show ?thesis by (rule inv_step [OF assms(2)]) (use t in \<open>auto simp: flow_at_def\<close>)
next
  case ReaperStops
  then have t: "t = s\<lparr>rs_reaper := False\<rparr>" using assms(1) by (auto split: if_splits)
  show ?thesis by (rule inv_step [OF assms(2)]) (use t in \<open>auto simp: flow_at_def\<close>)
next
  case CancelRelay
  then have t: "t = s\<lparr>rs_cancelled := True\<rparr>" using assms(1) by (auto split: if_splits)
  show ?thesis by (rule inv_step [OF assms(2)]) (use t in \<open>auto simp: flow_at_def\<close>)
next
  case (PumpReads i)
  then obtain d ds where "is_pump i Pumping s" and t: "t = upd_flow i (\<lambda>f. f\<lparr>fl_pump := Carrying d, fl_in := ds\<rparr>) s"
    using assms(1) by (auto split: if_splits list.splits)
  show ?thesis unfolding t by (rule upd_flow_inv [OF assms(2)]) (auto simp: flow_at_def)
next
  case (PumpBumps i now)
  then obtain d where t: "t = upd_flow i (\<lambda>f. f\<lparr>fl_last := now, fl_pump := Bumped d\<rparr>) s"
    using assms(1) by (auto split: if_splits pump.splits)
  show ?thesis unfolding t by (rule upd_flow_inv [OF assms(2)]) (auto simp: flow_at_def)
next
  case (TargetSends i d)
  then have t: "t = upd_flow i (\<lambda>f. f\<lparr>fl_in := fl_in f @ [d]\<rparr>) s" using assms(1) by (auto split: if_splits)
  show ?thesis unfolding t by (rule upd_flow_inv [OF assms(2)]) (auto simp: flow_at_def)
next
  case (TargetUnreachable i)
  then have t: "t = upd_flow i (\<lambda>f. f\<lparr>fl_pump := PumpReturned\<rparr>) s" using assms(1) by (auto split: if_splits)
  show ?thesis unfolding t by (rule upd_flow_inv [OF assms(2)]) (auto simp: flow_at_def)
next
  case (PumpReadFails i)
  then have t: "t = upd_flow i (\<lambda>f. f\<lparr>fl_pump := PumpReturned\<rparr>) s" using assms(1) by (auto split: if_splits)
  show ?thesis unfolding t by (rule upd_flow_inv [OF assms(2)]) (auto simp: flow_at_def)
next
  case (PumpCloses i)
  then have t: "t = upd_flow i (\<lambda>f. f\<lparr>fl_closed := True, fl_pump := SocketClosed\<rparr>) s" using assms(1) by (auto split: if_splits)
  show ?thesis unfolding t by (rule upd_flow_inv [OF assms(2)]) (auto simp: flow_at_def)
qed

lemma flow_run_inv: "flow_run ls s = Some t \<Longrightarrow> flows_inv s \<Longrightarrow> flows_inv t"
  by (induction ls arbitrary: s) (auto dest: flow_step_inv split: option.splits)

section \<open>The end of a relay\<close>

fun pump_work :: "pump \<Rightarrow> nat" where
  "pump_work Pumping = 3"
| "pump_work (Carrying d) = 5"
| "pump_work (Bumped d) = 4"
| "pump_work PumpReturned = 2"
| "pump_work SocketClosed = 1"
| "pump_work PumpGone = 0"

fun loop_work :: "loop \<Rightarrow> nat" where
  "loop_work (HasFlow i k d) = 5"
| "loop_work (BumpedFlow i k d) = 4"
| "loop_work Reading = 3"
| "loop_work Stopping = 2"
| "loop_work WaitingForAll = 1"
| "loop_work LoopReturned = 0"

definition flow_work :: "flow \<Rightarrow> nat" where
  "flow_work f = pump_work (fl_pump f) + 3 * length (fl_in f)"

definition relay_work :: "relay_state \<Rightarrow> nat" where
  "relay_work s = sum_list (map flow_work (rs_flows s)) + loop_work (rs_loop s) + (if rs_reaper s then 1 else 0) +
     (if rs_listening s then 1 else 0)"

lemma upd_flow_sum:
  "i < length fs \<Longrightarrow> sum_list (map flow_work (fs[i := f])) + flow_work (fs ! i) = sum_list (map flow_work fs) + flow_work f"
  by (induction fs arbitrary: i) (auto split: nat.splits simp: nth_Cons)

lemma upd_flow_work:
  assumes "i < length (rs_flows s)" "flow_work (f (rs_flows s ! i)) < flow_work (rs_flows s ! i)"
  shows "relay_work (upd_flow i f s) < relay_work s"
  using upd_flow_sum [OF assms(1), of "f (rs_flows s ! i)"] assms(2) by (simp add: relay_work_def upd_flow_def)

lemma upd_flow_same_work:
  assumes "\<And>g. flow_work (f g) = flow_work g"
  shows "sum_list (map flow_work (rs_flows (upd_flow i f s))) = sum_list (map flow_work (rs_flows s))"
proof (cases "i < length (rs_flows s)")
  case True
  from upd_flow_sum [OF this, of "f (rs_flows s ! i)"] assms show ?thesis by (simp add: upd_flow_def)
qed (simp add: upd_flow_def list_update_beyond)

lemma close_flows_work: "map flow_work (close_flows P s) = map flow_work (rs_flows s)"
  by (intro nth_equalityI) (auto simp: close_flows_nth flow_work_def)

lemma own_statement_works:
  assumes "flow_step l s = Some t" "own_statement l"
  shows "relay_work t < relay_work s"
proof (cases l)
  case (PumpReads i)
  with assms show ?thesis
    by (auto simp: is_pump_def flow_work_def intro!: upd_flow_work split: if_splits list.splits)
next
  case (PumpReadFails i)
  with assms show ?thesis by (auto simp: is_pump_def flow_work_def intro!: upd_flow_work split: if_splits)
next
  case (PumpBumps i now)
  with assms show ?thesis by (auto simp: flow_work_def intro!: upd_flow_work split: if_splits pump.splits)
next
  case (PumpCloses i)
  with assms show ?thesis by (auto simp: is_pump_def flow_work_def intro!: upd_flow_work split: if_splits)
next
  case (PumpWrites i)
  then obtain d where d: "i < length (rs_flows s)" "fl_pump (rs_flows s ! i) = Bumped d" using assms(1)
    by (auto split: if_splits pump.splits)
  then have "relay_work (upd_flow i (\<lambda>f. f\<lparr>fl_pump := p\<rparr>) s) < relay_work s" if "p \<in> {Pumping, PumpReturned}" for p
    using that by (intro upd_flow_work) (auto simp: flow_work_def)
  moreover have "relay_work (s1\<lparr>rs_replies := r\<rparr>) = relay_work s1" for s1 r by (simp add: relay_work_def)
  ultimately show ?thesis using PumpWrites assms(1) d by (auto split: if_splits)
next
  case (PumpDeletes i)
  then have i: "i < length (rs_flows s)" "fl_pump (rs_flows s ! i) = SocketClosed" using assms(1)
    by (auto simp: is_pump_def split: if_splits)
  then have "relay_work (upd_flow i (\<lambda>f. f\<lparr>fl_pump := PumpGone\<rparr>) s) < relay_work s"
    by (intro upd_flow_work) (auto simp: flow_work_def)
  moreover have "relay_work (s1\<lparr>rs_map := r\<rparr>) = relay_work s1" for s1 r by (simp add: relay_work_def)
  ultimately show ?thesis using PumpDeletes assms(1) i by (auto simp: is_pump_def)
next
  case (LoopBumps now)
  have "sum_list (map flow_work (rs_flows (upd_flow i (\<lambda>f. f\<lparr>fl_last := now\<rparr>) s))) = sum_list (map flow_work (rs_flows s))" for i
    by (rule upd_flow_same_work) (simp add: flow_work_def)
  with LoopBumps assms show ?thesis by (auto simp: relay_work_def split: loop.splits)
next
  case LoopWrites
  have "sum_list (map flow_work (rs_flows (upd_flow i (\<lambda>f. if fl_closed f then f else f\<lparr>fl_sent := fl_sent f @ [x]\<rparr>) s))) =
      sum_list (map flow_work (rs_flows s))" for i x
    by (rule upd_flow_same_work) (simp add: flow_work_def)
  with LoopWrites assms show ?thesis by (auto simp: relay_work_def split: loop.splits)
qed (use assms in \<open>auto simp: relay_work_def close_flows_work split: if_splits\<close>)

text \<open>A pump whose socket is closed can always go on.\<close>

lemma pump_can_run:
  assumes "i < length (rs_flows s)" "fl_pump (rs_flows s ! i) \<noteq> PumpGone" "fl_closed (rs_flows s ! i)"
  shows "\<exists>l t. own_statement l \<and> flow_step l s = Some t"
proof (cases "fl_pump (rs_flows s ! i)")
  case Pumping
  with assms show ?thesis by (intro exI [of _ "PumpReadFails i"]) (simp add: is_pump_def)
next
  case (Carrying d)
  with assms show ?thesis by (intro exI [of _ "PumpBumps i 0"]) simp
next
  case (Bumped d)
  with assms show ?thesis by (intro exI [of _ "PumpWrites i"]) simp
next
  case PumpReturned
  with assms show ?thesis by (intro exI [of _ "PumpCloses i"]) (simp add: is_pump_def)
next
  case SocketClosed
  with assms show ?thesis by (intro exI [of _ "PumpDeletes i"]) (simp add: is_pump_def)
qed (use assms in simp)

lemma cancelled_relay_progress:
  assumes "rs_cancelled s" "flows_inv s" "rs_loop s \<noteq> LoopReturned"
  shows "\<exists>l t. own_statement l \<and> flow_step l s = Some t"
proof (cases "rs_listening s \<or> rs_reaper s")
  case True
  with assms(1) show ?thesis
    by (cases "rs_listening s") (intro exI [of _ ListenCloses], simp, intro exI [of _ ReaperStops], simp)
next
  case False
  show ?thesis
  proof (cases "rs_loop s")
    case Reading
    with False show ?thesis by (intro exI [of _ LoopStops]) simp
  next
    case (HasFlow i key d)
    then show ?thesis by (intro exI [of _ "LoopBumps 0"]) simp
  next
    case (BumpedFlow i key d)
    then show ?thesis by (intro exI [of _ LoopWrites]) simp
  next
    case Stopping
    then show ?thesis by (intro exI [of _ LoopClosesAll]) simp
  next
    case WaitingForAll
    show ?thesis
    proof (cases "list_all (\<lambda>f. fl_pump f = PumpGone) (rs_flows s)")
      case True
      with False WaitingForAll show ?thesis by (intro exI [of _ LoopReturns]) simp
    next
      case False
      then obtain i where i: "i < length (rs_flows s)" "fl_pump (rs_flows s ! i) \<noteq> PumpGone"
        by (auto simp: list_all_length)
      with inv_flow [OF assms(2) i(1)] WaitingForAll have "fl_closed (rs_flows s ! i)" by (simp add: flow_at_def)
      with i pump_can_run show ?thesis by blast
    qed
  qed (use assms in simp)
qed

lemma own_statements_bounded:
  "flow_run ls s = Some t \<Longrightarrow> \<forall>l \<in> set ls. own_statement l \<Longrightarrow> length ls + relay_work t \<le> relay_work s"
proof (induction ls arbitrary: s)
  case (Cons l ls)
  then obtain s1 where s1: "flow_step l s = Some s1" "flow_run ls s1 = Some t" by (auto split: option.splits)
  with Cons.IH [OF s1(2)] own_statement_works [OF s1(1)] Cons.prems(2) show ?case by simp
qed simp

lemma own_keeps_cancelled:
  "flow_step l s = Some t \<Longrightarrow> rs_cancelled s \<Longrightarrow> rs_cancelled t"
  by (cases l) (auto simp: Let_def split: if_splits option.splits loop.splits list.splits pump.splits)

lemma run_keeps_cancelled: "flow_run ls s = Some t \<Longrightarrow> rs_cancelled s \<Longrightarrow> rs_cancelled t"
  by (induction ls arbitrary: s) (auto dest: own_keeps_cancelled split: option.splits)

text \<open>
  C13: UDP flows are kept apart and none is lost track of, in any interleaving of the read loop, the reaper and
  the pumps. The map leads a client to its own flow; only that client's datagrams are written to the flow's
  socket; and a flow whose socket is open is the map's entry for its client, so the reaper and the shutdown
  find it: a pump that ends late never removes a newer flow of its client.
\<close>

theorem udp_flows_isolated:
  assumes "flow_run ls relay0 = Some s"
  shows "(\<forall>k i. rs_map s k = Some i \<longrightarrow> i < length (rs_flows s) \<and> fl_key (rs_flows s ! i) = k) \<and>
    (\<forall>i < length (rs_flows s). fst ` set (fl_sent (rs_flows s ! i)) \<subseteq> {fl_key (rs_flows s ! i)} \<and>
      (\<not> fl_closed (rs_flows s ! i) \<longrightarrow> rs_map s (fl_key (rs_flows s ! i)) = Some i))"
  using flow_run_inv [OF assms relay0_inv] by (auto simp: flows_inv_def flow_at_def)

text \<open>A flow is reaped, its client comes back, and only then the first flow's pump ends.\<close>

definition late_pump :: "udp_label list" where
  "late_pump = [Arrives ''c:1'' [7] 0 True, LoopBumps 0, LoopWrites, ReaperTicks (200 * Second),
     Arrives ''c:1'' [8] (201 * Second) True, LoopBumps (201 * Second), LoopWrites,
     PumpReadFails 0, PumpCloses 0, PumpDeletes 0]"

theorem udp_flows_isolated_witness:
  "\<exists>s. flow_run late_pump relay0 = Some s \<and> rs_map s ''c:1'' = Some 1 \<and> fl_key (rs_flows s ! 1) = ''c:1'' \<and>
     fl_pump (rs_flows s ! 0) = PumpGone"
proof -
  have "flow_run late_pump relay0 \<noteq> None" by code_simp
  then obtain s where s: "flow_run late_pump relay0 = Some s" by blast
  have "rs_map (the (flow_run late_pump relay0)) ''c:1'' = Some 1"
    "fl_pump (rs_flows (the (flow_run late_pump relay0)) ! 0) = PumpGone" by code_simp+
  with udp_flows_isolated [OF s] s show ?thesis by auto
qed

text \<open>
  A stopped UDP relay ends. After its context is cancelled its goroutines come to an end within a number of
  statements fixed by the state, whatever the schedule and whatever replies are still queued: until the relay
  has returned, some statement can run, so no reply pump and no reaper is left behind.
\<close>

lemma udp_relay_ends:
  assumes "flow_run before relay0 = Some s" "rs_cancelled s"
    and "flow_run ls s = Some t" "\<forall>l \<in> set ls. own_statement l"
  shows "length ls \<le> relay_work s \<and> ((\<forall>l. own_statement l \<longrightarrow> flow_step l t = None) \<longrightarrow> rs_loop t = LoopReturned)"
proof
  show "length ls \<le> relay_work s" using own_statements_bounded [OF assms(3,4)] by simp
  have "flows_inv t" using flow_run_inv [OF assms(3)] flow_run_inv [OF assms(1) relay0_inv] by blast
  moreover have "rs_cancelled t" using run_keeps_cancelled [OF assms(3,2)] .
  ultimately show "(\<forall>l. own_statement l \<longrightarrow> flow_step l t = None) \<longrightarrow> rs_loop t = LoopReturned"
    using cancelled_relay_progress [of t] by fastforce
qed

text \<open>
  An error of \<^verbatim>\<open>ReadFrom\<close> in a live context strands the relay: it reads no datagram again, and it neither returns nor
  gives up its port before someone cancels it, since it waits for the reaper, which only ends with the context.
\<close>

definition stranded :: "relay_state \<Rightarrow> bool" where
  "stranded s \<longleftrightarrow> rs_loop s \<in> {Stopping, WaitingForAll} \<and> rs_listening s \<and> rs_reaper s \<and> \<not> rs_cancelled s"

lemma stranded_step: "flow_step l s = Some t \<Longrightarrow> l \<noteq> CancelRelay \<Longrightarrow> stranded s \<Longrightarrow> stranded t"
  by (cases l) (auto simp: stranded_def Let_def split: if_splits option.splits loop.splits list.splits pump.splits)

lemma read_error_strands_relay:
  assumes "flow_run (LoopReadFails # ls) s = Some t" "CancelRelay \<notin> set ls" "rs_listening s" "rs_reaper s" "\<not> rs_cancelled s"
  shows "stranded t \<and> flow_step (Arrives key d now admitted) t = None \<and> flow_step LoopReturns t = None"
proof -
  have "stranded u" if "flow_run ls u0 = Some u" "CancelRelay \<notin> set ls" "stranded u0" for ls u0 u
    using that by (induction ls arbitrary: u0) (auto dest: stranded_step split: option.splits)
  moreover have "stranded (s\<lparr>rs_loop := Stopping\<rparr>)" using assms(3-5) by (simp add: stranded_def)
  ultimately have "stranded t" using assms(1,2) by (auto split: if_splits)
  then show ?thesis by (auto simp: stranded_def)
qed

definition stopped_relay :: relay_state where
  "stopped_relay = the (flow_run [Arrives ''c:1'' [7] 0 True, LoopBumps 0, LoopWrites, TargetSends 0 [9], CancelRelay] relay0)"

definition relay_end :: "udp_label list" where
  "relay_end = [PumpReads 0, ListenCloses, LoopStops, PumpBumps 0 1, ReaperStops, LoopClosesAll, PumpWrites 0, PumpCloses 0,
     PumpDeletes 0, LoopReturns]"

lemma udp_relay_ends_witness:
  "length relay_end \<le> relay_work stopped_relay \<and> rs_loop (the (flow_run relay_end stopped_relay)) = LoopReturned"
proof -
  have c: "flow_run [Arrives ''c:1'' [7] 0 True, LoopBumps 0, LoopWrites, TargetSends 0 [9], CancelRelay] relay0 \<noteq> None"
    "flow_run relay_end stopped_relay \<noteq> None" "list_all own_statement relay_end" "rs_cancelled stopped_relay"
    "rs_loop (the (flow_run relay_end stopped_relay)) = LoopReturned"
    by code_simp+
  from c(1) have s: "flow_run [Arrives ''c:1'' [7] 0 True, LoopBumps 0, LoopWrites, TargetSends 0 [9], CancelRelay] relay0 =
    Some stopped_relay" by (auto simp: stopped_relay_def)
  from c(2) obtain t where "flow_run relay_end stopped_relay = Some t" by blast
  with udp_relay_ends [OF s c(4), of relay_end t] c(3,5) show ?thesis by (auto simp: list_all_iff)
qed

end
