(* ===== verification/SessionSpec.thy ===== *)
theory SessionSpec
  imports Sessions AccessLog
begin

text \<open>
  What the session store promises, apart from SQL: sessions are a map from the digest of a token to its session,
  users are a set of ids. Every operation of storage/sessions.go, storage/metrics.go and storage/users.go that
  changes a session is an operation on that map, and every lookup reads it.
\<close>

section \<open>Refinement\<close>

text \<open>A concrete machine with an invariant, seen through an abstraction, takes the steps of an abstract one.\<close>

locale refinement =
  fixes wf :: "'c \<Rightarrow> bool"
    and abs :: "'c \<Rightarrow> 'a"
    and cstep :: "'e \<Rightarrow> 'c \<Rightarrow> 'c"
    and astep :: "'e \<Rightarrow> 'a \<Rightarrow> 'a"
  assumes step_wf: "wf c \<Longrightarrow> wf (cstep e c)"
    and step_abs: "wf c \<Longrightarrow> abs (cstep e c) = astep e (abs c)"
begin

lemma run_wf: "wf c \<Longrightarrow> wf (fold cstep es c)"
  by (induction es arbitrary: c) (simp_all add: step_wf)

lemma run_abs: "wf c \<Longrightarrow> abs (fold cstep es c) = fold astep es (abs c)"
  by (induction es arbitrary: c) (simp_all add: step_wf step_abs)

lemma run_query: "wf c \<Longrightarrow> (\<And>c. wf c \<Longrightarrow> q c = r (abs c)) \<Longrightarrow> q (fold cstep es c) = r (fold astep es (abs c))"
  by (metis run_abs run_wf)

end

section \<open>The abstract store\<close>

record session_data =
  sd_id :: int
  sd_user :: int
  sd_ip :: string
  sd_exp :: time

record session_map =
  sm_users :: "int set"
  sm_next :: int
  sm_sessions :: "string \<Rightarrow> session_data option"

datatype session_op =
    Login time "8 word list" int duration string
  | Logout string
  | Extend time string duration
  | ExtendID time int duration
  | ExtendIP time int string duration
  | Cleanup time
  | Revoke int int
  | AdminRevoke int
  | RemoveUser int

text \<open>A test sees the digest and the session.\<close>

definition keep :: "(string \<Rightarrow> session_data \<Rightarrow> bool) \<Rightarrow> session_map \<Rightarrow> session_map" where
  "keep P m = m\<lparr>sm_sessions := (\<lambda>h. case sm_sessions m h of Some v \<Rightarrow> if P h v then Some v else None | None \<Rightarrow> None)\<rparr>"

definition prolong :: "(string \<Rightarrow> session_data \<Rightarrow> bool) \<Rightarrow> time \<Rightarrow> session_map \<Rightarrow> session_map" where
  "prolong P e m = m\<lparr>sm_sessions := (\<lambda>h. map_option (\<lambda>v. if P h v then v\<lparr>sd_exp := e\<rparr> else v) (sm_sessions m h))\<rparr>"

fun spec_op :: "(string \<Rightarrow> string) \<Rightarrow> session_op \<Rightarrow> session_map \<Rightarrow> session_map" where
  "spec_op dig (Login now rnd uid dur ip) m =
     (let h = dig (randHex rnd)
      in if sm_sessions m h \<noteq> None \<or> uid \<notin> sm_users m then m
         else m\<lparr>sm_next := sm_next m + 1, sm_sessions := (sm_sessions m)(h \<mapsto>
                \<lparr>sd_id = sm_next m + 1, sd_user = uid, sd_ip = normalizeIP ip, sd_exp = now + dur\<rparr>)\<rparr>)"
| "spec_op dig (Logout tok) m = keep (\<lambda>h v. h \<noteq> dig tok) m"
| "spec_op dig (Extend now tok dur) m = prolong (\<lambda>h v. h = dig tok) (now + dur) m"
| "spec_op dig (ExtendID now i dur) m = prolong (\<lambda>h v. sd_id v = i) (now + dur) m"
| "spec_op dig (ExtendIP now uid ip dur) m =
     prolong (\<lambda>h v. sd_user v = uid \<and> sd_ip v = normalizeIP ip \<and> now < sd_exp v) (now + dur) m"
| "spec_op dig (Cleanup now) m = keep (\<lambda>h v. \<not> sd_exp v < now) m"
| "spec_op dig (Revoke i owner) m = keep (\<lambda>h v. \<not> (sd_id v = i \<and> sd_user v = owner)) m"
| "spec_op dig (AdminRevoke i) m = keep (\<lambda>h v. sd_id v \<noteq> i) m"
| "spec_op dig (RemoveUser uid) m = (keep (\<lambda>h v. sd_user v \<noteq> uid) m)\<lparr>sm_users := sm_users m - {uid}\<rparr>"

text \<open>The lookups: by token, and whether an address has a live session of a user who passes a test.\<close>

definition spec_token :: "(string \<Rightarrow> string) \<Rightarrow> time \<Rightarrow> session_map \<Rightarrow> string \<Rightarrow> session_data option" where
  "spec_token dig now m tok =
     (case sm_sessions m (dig tok) of Some v \<Rightarrow> if now < sd_exp v then Some v else None | None \<Rightarrow> None)"

definition spec_ip :: "time \<Rightarrow> session_map \<Rightarrow> string \<Rightarrow> bool" where
  "spec_ip now m ip \<longleftrightarrow> (\<exists>h v. sm_sessions m h = Some v \<and> sd_ip v = normalizeIP ip \<and> now < sd_exp v)"

section \<open>The store of the code\<close>

fun store_op :: "lib \<Rightarrow> session_op \<Rightarrow> db \<Rightarrow> db" where
  "store_op L (Login now rnd uid dur ip) d = fst (CreateSession L now rnd d uid dur ip)"
| "store_op L (Logout tok) d = fst (DeleteSession L d tok)"
| "store_op L (Extend now tok dur) d = ExtendSession L now d tok dur"
| "store_op L (ExtendID now i dur) d = ExtendSessionByID L now d i dur"
| "store_op L (ExtendIP now uid ip dur) d = ExtendUserSessionsByIP L now d uid ip dur"
| "store_op L (Cleanup now) d = CleanupExpiredSessions L now d"
| "store_op L (Revoke i owner) d = fst (DeleteSessionByID L d i owner)"
| "store_op L (AdminRevoke i) d = fst (AdminDeleteSession L d i)"
| "store_op L (RemoveUser uid) d = fst (DeleteUser L d uid)"

definition data_of :: "session_row \<Rightarrow> session_data" where
  "data_of s = \<lparr>sd_id = ses_id s, sd_user = ses_user s, sd_ip = cast_text (ses_ip s), sd_exp = ses_exp s\<rparr>"

definition row_map :: "session_row list \<Rightarrow> string \<Rightarrow> session_data option" where
  "row_map rows = map_of (map (\<lambda>s. (ses_hash s, data_of s)) rows)"

definition abs_store :: "db \<Rightarrow> session_map" where
  "abs_store d = \<lparr>sm_users = usr_id ` set (users d), sm_next = sessions_seq d, sm_sessions = row_map (sessions d)\<rparr>"

text \<open>The statements of these operations do not fail.\<close>

definition steady :: "lib \<Rightarrow> bool" where
  "steady L \<longleftrightarrow> \<not> (\<exists>q \<in> set [''CreateSession'', ''DeleteSession'', ''ExtendSession'', ''ExtendSessionByID'',
     ''ExtendUserSessionsByIP'', ''CleanupExpiredSessions'', ''DeleteSessionByID'', ''AdminDeleteSession'', ''DeleteUser'',
     ''ValidateSession'', ''ValidateSessionByIP'']. db_fault L q)"

lemma data_of_sel [simp]:
  "sd_id (data_of s) = ses_id s" "sd_user (data_of s) = ses_user s" "sd_ip (data_of s) = cast_text (ses_ip s)"
  "sd_exp (data_of s) = ses_exp s"
  by (simp_all add: data_of_def)

subsection \<open>The shapes of the statements, on the map\<close>

lemma row_map_find: "row_map rows h = map_option data_of (List.find (\<lambda>s. ses_hash s = h) rows)"
  by (induction rows) (simp_all add: row_map_def)

lemma row_map_None: "row_map rows h = None \<longleftrightarrow> h \<notin> ses_hash ` set rows"
  by (auto simp: row_map_find find_none)

lemma row_map_delete:
  "distinct (map ses_hash rows) \<Longrightarrow>
   row_map (delete_where (\<lambda>s. P (ses_hash s) (data_of s)) rows) h =
     (case row_map rows h of Some v \<Rightarrow> if P h v then None else Some v | None \<Rightarrow> None)"
proof (induction rows)
  case (Cons s rows)
  then have "h = ses_hash s \<Longrightarrow> row_map rows h = None" by (simp add: row_map_None)
  with Cons show ?case by (auto simp: row_map_def delete_where_def)
qed (simp add: row_map_def delete_where_def)

lemma row_map_update:
  "row_map (update_where (\<lambda>s. P (ses_hash s) (data_of s)) (\<lambda>s. s\<lparr>ses_exp := e\<rparr>) rows) h =
     map_option (\<lambda>v. if P h v then v\<lparr>sd_exp := e\<rparr> else v) (row_map rows h)"
  by (induction rows) (auto simp: row_map_def update_where_def data_of_def)

lemma row_map_append:
  "row_map (rows @ [s]) = (\<lambda>h. case row_map rows h of Some v \<Rightarrow> Some v | None \<Rightarrow> if ses_hash s = h then Some (data_of s) else None)"
  by (induction rows) (auto simp: row_map_def)

lemma hashes_distinct: "db_ok d \<Longrightarrow> distinct (map ses_hash (sessions d))"
  by (simp add: db_ok_def sessions_ok_def)

lemma store_op_ok: "db_ok d \<Longrightarrow> db_ok (store_op L op d)"
  by (cases op) (simp_all add: wf_intros)

text \<open>A row of the table is an entry of the map, and the other way round.\<close>

lemma row_map_row: "db_ok d \<Longrightarrow> s \<in> set (sessions d) \<Longrightarrow> row_map (sessions d) (ses_hash s) = Some (data_of s)"
  by (simp add: row_map_find find_unique hashes_distinct)

lemma row_map_some: "row_map rows h = Some v \<Longrightarrow> \<exists>s \<in> set rows. ses_hash s = h \<and> v = data_of s"
  by (auto simp: row_map_find dest: find_in_set)

subsection \<open>Every operation\<close>

lemma deleted_abs:
  "db_ok d \<Longrightarrow> abs_store (d\<lparr>sessions := delete_where (\<lambda>s. P (ses_hash s) (data_of s)) (sessions d)\<rparr>) =
    keep (\<lambda>h v. \<not> P h v) (abs_store d)"
  by (simp add: abs_store_def keep_def fun_eq_iff row_map_delete hashes_distinct split: option.split)

lemma extended_abs:
  "abs_store (d\<lparr>sessions := update_where (\<lambda>s. P (ses_hash s) (data_of s)) (\<lambda>s. s\<lparr>ses_exp := e\<rparr>) (sessions d)\<rparr>) =
    prolong P e (abs_store d)"
  by (simp add: abs_store_def prolong_def fun_eq_iff row_map_update)

lemma login_abs:
  assumes "steady L"
  shows "abs_store (fst (CreateSession L now rnd d uid dur ip)) = spec_op (sha256hex L) (Login now rnd uid dur ip) (abs_store d)"
proof (cases "sha256hex L (randHex rnd) \<in> ses_hash ` set (sessions d) \<or> uid \<notin> usr_id ` set (users d)")
  case True
  then have "sm_sessions (abs_store d) (sha256hex L (randHex rnd)) \<noteq> None \<or> uid \<notin> sm_users (abs_store d)"
    by (simp add: abs_store_def row_map_None del: image_iff)
  with True assms show ?thesis by (simp add: CreateSession_def steady_def Let_def)
next
  case False
  then have n: "row_map (sessions d) (sha256hex L (randHex rnd)) = None" by (simp add: row_map_None)
  with False assms show ?thesis
    by (auto simp: CreateSession_def steady_def Let_def abs_store_def row_map_append data_of_def time_add_def fun_eq_iff
        split: option.split)
qed

text \<open>Removing a user removes the sessions of the user, and nothing when there is no such user.\<close>

lemma remove_user_abs:
  assumes "steady L" "db_ok d"
  shows "abs_store (fst (DeleteUser L d uid)) = spec_op (sha256hex L) (RemoveUser uid) (abs_store d)"
proof (cases "uid \<in> usr_id ` set (users d)")
  case True
  then have "count_where (\<lambda>r. usr_id r = uid) (users d) \<noteq> 0" by (auto simp: sql_simps)
  with assms(1) have "abs_store (fst (DeleteUser L d uid)) =
      (abs_store (d\<lparr>sessions := delete_where (\<lambda>s. sd_user (data_of s) = uid) (sessions d)\<rparr>))
        \<lparr>sm_users := usr_id ` set (delete_where (\<lambda>r. usr_id r = uid) (users d))\<rparr>"
    by (simp add: DeleteUser_def steady_def Let_def abs_store_def)
  also have "usr_id ` set (delete_where (\<lambda>r. usr_id r = uid) (users d)) = sm_users (abs_store d) - {uid}"
    by (auto simp: sql_simps abs_store_def)
  finally show ?thesis using deleted_abs [OF assms(2), of "\<lambda>h v. sd_user v = uid"] by simp
next
  case False
  then have "count_where (\<lambda>r. usr_id r = uid) (users d) = 0" by (auto simp: sql_simps)
  then have "fst (DeleteUser L d uid) = d" by (simp add: DeleteUser_def Let_def)
  moreover have "delete_where (\<lambda>s. sd_user (data_of s) = uid) (sessions d) = sessions d"
    using assms(2) False by (intro delete_where_idle) (auto simp: db_ok_def sessions_ok_def)
  with deleted_abs [OF assms(2), of "\<lambda>h v. sd_user v = uid"] have "keep (\<lambda>h v. sd_user v \<noteq> uid) (abs_store d) = abs_store d"
    by simp
  moreover have "sm_users (abs_store d) - {uid} = sm_users (abs_store d)" using False by (simp add: abs_store_def)
  ultimately show ?thesis by simp
qed

lemma store_op_abs:
  assumes "steady L" "db_ok d"
  shows "abs_store (store_op L op d) = spec_op (sha256hex L) op (abs_store d)"
proof (cases op)
  case (Login now rnd uid dur ip)
  then show ?thesis using login_abs [OF assms(1)] by simp
next
  case (Logout tok)
  with assms deleted_abs [OF assms(2), of "\<lambda>h v. h = sha256hex L tok"] show ?thesis
    by (simp add: DeleteSession_def steady_def Let_def)
next
  case (Extend now tok dur)
  with assms extended_abs [where d = d and P = "\<lambda>h v. h = sha256hex L tok" and e = "now + dur"] show ?thesis
    by (simp add: ExtendSession_def steady_def Let_def time_add_def)
next
  case (ExtendID now i dur)
  with assms extended_abs [where d = d and P = "\<lambda>h v. sd_id v = i" and e = "now + dur"] show ?thesis
    by (simp add: ExtendSessionByID_def steady_def Let_def time_add_def)
next
  case (ExtendIP now uid ip dur)
  with assms extended_abs [where d = d and P = "\<lambda>h v. sd_user v = uid \<and> sd_ip v = normalizeIP ip \<and> now < sd_exp v" and e = "now + dur"] show ?thesis
    by (simp add: ExtendUserSessionsByIP_def steady_def Let_def time_add_def)
next
  case (Cleanup now)
  with assms deleted_abs [OF assms(2), of "\<lambda>h v. sd_exp v < now"] show ?thesis
    by (simp add: CleanupExpiredSessions_def steady_def)
next
  case (Revoke i owner)
  have "delete_where (\<lambda>s. ses_id s = i \<and> ses_user s = owner) (sessions d) = sessions d"
    if "count_where (\<lambda>s. ses_id s = i \<and> ses_user s = owner) (sessions d) = 0"
    using that by (intro delete_where_idle) (simp add: sql_simps)
  with Revoke assms deleted_abs [OF assms(2), of "\<lambda>h v. sd_id v = i \<and> sd_user v = owner"] show ?thesis
    by (auto simp: DeleteSessionByID_def steady_def)
next
  case (AdminRevoke i)
  with assms deleted_abs [OF assms(2), of "\<lambda>h v. sd_id v = i"] show ?thesis
    by (simp add: AdminDeleteSession_def steady_def)
next
  case (RemoveUser uid)
  then show ?thesis using remove_user_abs [OF assms] by simp
qed

subsection \<open>The lookups\<close>

definition token_answer :: "lib \<Rightarrow> time \<Rightarrow> string \<Rightarrow> db \<Rightarrow> (int \<times> int) option" where
  "token_answer L now tok d =
     (case ValidateSession L now d tok of Inr sn \<Rightarrow> Some (sn_id sn, sn_user sn) | Inl e \<Rightarrow> None)"

definition address_answer :: "lib \<Rightarrow> time \<Rightarrow> string \<Rightarrow> db \<Rightarrow> bool" where
  "address_answer L now ip d \<longleftrightarrow> \<not> isl (ValidateSessionByIP L now d ip)"

lemma live_row:
  "db_ok d \<Longrightarrow> s \<in> set (sessions d) \<Longrightarrow> live_session now d s \<longleftrightarrow> now < ses_exp s"
  by (auto simp: live_session_def db_ok_def sessions_ok_def)

lemma token_answer_abs:
  assumes "steady L" "db_ok d"
  shows "token_answer L now tok d =
    map_option (\<lambda>v. (sd_id v, sd_user v)) (spec_token (sha256hex L) now (abs_store d) tok)"
proof (cases "spec_token (sha256hex L) now (abs_store d) tok")
  case None
  have "ses_exp s \<le> now" if "s \<in> set (sessions d)" "ses_hash s = sha256hex L tok" for s
    using None that row_map_row [OF assms(2) that(1)] by (auto simp: spec_token_def abs_store_def split: if_splits)
  with ValidateSession_dead [of d L tok now] obtain e where "ValidateSession L now d tok = Inl e" by blast
  with None show ?thesis by (simp add: token_answer_def)
next
  case (Some v)
  then have v: "row_map (sessions d) (sha256hex L tok) = Some v" "now < sd_exp v"
    by (auto simp: spec_token_def abs_store_def split: option.splits if_splits)
  obtain s where s: "s \<in> set (sessions d)" "ses_hash s = sha256hex L tok" "v = data_of s" using row_map_some [OF v(1)] by blast
  have "live_session now d s" using live_row [OF assms(2) s(1)] v(2) s(3) by simp
  with assms(1) s(2) hashes_distinct [OF assms(2)] obtain sn where
    "ValidateSession L now d tok = Inr sn" "sn_id sn = ses_id s" "sn_user sn = ses_user s"
    using ValidateSession_live [of L now d s tok] by (auto simp: steady_def)
  with Some s(3) show ?thesis by (simp add: token_answer_def)
qed

lemma sort_key_empty: "sort_key f xs = [] \<longleftrightarrow> xs = []"
  by (metis length_0_conv length_sort)

lemma address_answer_abs:
  assumes "steady L" "db_ok d"
  shows "address_answer L now ip d \<longleftrightarrow> spec_ip now (abs_store d) ip"
proof -
  let ?rows = "filter (\<lambda>(s, u). cast_text (ses_ip s) = normalizeIP ip \<and> now < ses_exp s) (session_users d)"
  let ?sorted = "sort_key (\<lambda>(s, u). - ses_exp s) ?rows"
  have "address_answer L now ip d \<longleftrightarrow> ?sorted \<noteq> []"
    using assms(1) by (cases ?sorted) (simp_all add: address_answer_def ValidateSessionByIP_def Let_def steady_def)
  also have "\<dots> \<longleftrightarrow> ?rows \<noteq> []" unfolding sort_key_empty ..
  also have "\<dots> \<longleftrightarrow> (\<exists>s \<in> set (sessions d). cast_text (ses_ip s) = normalizeIP ip \<and> now < ses_exp s)"
    using assms(2) by (force simp: filter_empty_conv set_session_users db_ok_def sessions_ok_def image_iff)
  also have "\<dots> \<longleftrightarrow> spec_ip now (abs_store d) ip"
    using row_map_row [OF assms(2)] by (fastforce simp: spec_ip_def abs_store_def dest: row_map_some)
  finally show ?thesis .
qed

section \<open>The store refines the map\<close>

interpretation sst: refinement "\<lambda>d. steady L \<and> db_ok d" abs_store "store_op L" "spec_op (sha256hex L)" for L
  by unfold_locales (auto simp: store_op_abs store_op_ok)

text \<open>
  C11: the session store is a map. Whatever logins, logouts, renewals, clean-ups, revocations and deletions of
  users came before, and in whatever order, the SQL tables answer as the map from token digests to sessions
  that these operations build: a token is accepted as the user of its entry until the entry expires, and an
  address is accepted exactly when a live entry carries it.
\<close>

theorem sessions_refine_map:
  assumes "steady L" "db_ok d"
  shows "abs_store (fold (store_op L) ops d) = fold (spec_op (sha256hex L)) ops (abs_store d) \<and>
    token_answer L now tok (fold (store_op L) ops d) =
      map_option (\<lambda>v. (sd_id v, sd_user v)) (spec_token (sha256hex L) now (fold (spec_op (sha256hex L)) ops (abs_store d)) tok) \<and>
    address_answer L now ip (fold (store_op L) ops d) = spec_ip now (fold (spec_op (sha256hex L)) ops (abs_store d)) ip"
proof (intro conjI)
  have d: "steady L \<and> db_ok d" using assms by simp
  show "abs_store (fold (store_op L) ops d) = fold (spec_op (sha256hex L)) ops (abs_store d)" by (rule sst.run_abs [OF d])
  show "token_answer L now tok (fold (store_op L) ops d) =
      map_option (\<lambda>v. (sd_id v, sd_user v)) (spec_token (sha256hex L) now (fold (spec_op (sha256hex L)) ops (abs_store d)) tok)"
    by (rule sst.run_query [OF d, where r = "\<lambda>m. map_option (\<lambda>v. (sd_id v, sd_user v)) (spec_token (sha256hex L) now m tok)"])
      (simp add: token_answer_abs)
  show "address_answer L now ip (fold (store_op L) ops d) = spec_ip now (fold (spec_op (sha256hex L)) ops (abs_store d)) ip"
    by (rule sst.run_query [OF d, where r = "\<lambda>m. spec_ip now m ip"]) (simp add: address_answer_abs)
qed

theorem sessions_refine_map_witness:
  "token_answer plain_lib 20 (randHex [1]) (fold (store_op plain_lib) [Login 10 [1] 1 50 ''lan'', Login 11 [2] 2 60 ''lan''] sample_db) =
     Some (sessions_seq sample_db + 1, 1)"
proof -
  let ?ops = "[Login 10 [1] 1 50 ''lan'', Login 11 [2] 2 60 ''lan'']"
  have ok: "steady plain_lib" "db_ok sample_db" by (simp_all add: steady_def sample_db_ok)
  have "spec_token (sha256hex plain_lib) 20 (fold (spec_op (sha256hex plain_lib)) ?ops (abs_store sample_db)) (randHex [1]) =
      Some \<lparr>sd_id = sessions_seq sample_db + 1, sd_user = 1, sd_ip = ''lan'', sd_exp = 60\<rparr>"
    by code_simp
  with sessions_refine_map [OF ok, of ?ops 20 "randHex [1]"] show ?thesis by simp
qed

text \<open>
  A logout ends the one session of its token. The address stays authorised exactly when it has another live
  session, of the same user from a second login, say.
\<close>

lemma logout_address:
  assumes "steady L" "db_ok d"
  shows "address_answer L now ip (fst (DeleteSession L d tok)) \<longleftrightarrow>
    (\<exists>s \<in> set (sessions d). ses_hash s \<noteq> sha256hex L tok \<and> cast_text (ses_ip s) = normalizeIP ip \<and> now < ses_exp s)"
proof -
  have ok: "db_ok (fst (DeleteSession L d tok))" using assms(2) by (rule DeleteSession_ok)
  have "sessions (fst (DeleteSession L d tok)) = delete_where (\<lambda>s. ses_hash s = sha256hex L tok) (sessions d)"
    using assms(1) by (simp add: DeleteSession_def steady_def Let_def)
  then show ?thesis
    unfolding address_answer_abs [OF assms(1) ok] using row_map_row [OF ok]
    by (fastforce simp: spec_ip_def abs_store_def sql_simps dest: row_map_some)
qed

end
