(* ===== verification/Responses.thy ===== *)
theory Responses
  imports Gateway
begin

text \<open>
  The shape of the answers: every handler, on every branch, writes a response whose status, body and headers
  fit together; and which listener a request came in on does not matter to what it is served.
\<close>

section \<open>Well-typed responses\<close>

text \<open>
  The status is one of those the source uses, a success carries data and a refusal a message, only a
  successful answer sets the session cookie, and \<^verbatim>\<open>Retry-After\<close> comes with 429 only.
\<close>

fun message :: "payload \<Rightarrow> bool" where
  "message (Plain t) = True"
| "message (Failed t) = True"
| "message _ = False"

definition statuses :: "nat list" where
  "statuses = [StatusOK, StatusBadRequest, StatusUnauthorized, StatusForbidden, StatusNotFound, StatusMethodNotAllowed,
     StatusProxyAuthRequired, StatusConflict, StatusTooManyRequests, StatusInternalServerError, StatusServiceUnavailable]"

definition response_ok :: "response \<Rightarrow> bool" where
  "response_ok rs \<longleftrightarrow> rs_status rs \<in> set statuses \<and> (rs_status rs = StatusOK \<longleftrightarrow> \<not> message (rs_body rs)) \<and>
     (rs_cookie rs \<noteq> None \<longrightarrow> rs_status rs = StatusOK) \<and> (rs_retry rs \<noteq> None \<longleftrightarrow> rs_status rs = StatusTooManyRequests)"

fun answers_ok :: "outcome \<Rightarrow> bool" where
  "answers_ok (Respond rs) = response_ok rs"
| "answers_ok _ = True"

lemma answers_ok_respond [simp]: "answers_ok (fst (respond rs s)) = response_ok rs"
  by (simp add: respond_def)

lemma response_ok_basic [simp]:
  "response_ok (fail code t) \<longleftrightarrow> code \<in> set statuses \<and> code \<noteq> StatusOK \<and> code \<noteq> StatusTooManyRequests"
  "response_ok (http_error code t) \<longleftrightarrow> code \<in> set statuses \<and> code \<noteq> StatusOK \<and> code \<noteq> StatusTooManyRequests"
  "response_ok (ok v) \<longleftrightarrow> \<not> message v"
  by (auto simp: response_ok_def fail_def http_error_def ok_def statuses_def status_defs)

lemma statuses_used [simp]:
  "StatusBadRequest \<in> set statuses" "StatusUnauthorized \<in> set statuses" "StatusForbidden \<in> set statuses"
  "StatusNotFound \<in> set statuses" "StatusMethodNotAllowed \<in> set statuses" "StatusProxyAuthRequired \<in> set statuses"
  "StatusConflict \<in> set statuses" "StatusInternalServerError \<in> set statuses" "StatusServiceUnavailable \<in> set statuses"
  by (simp_all add: statuses_def)

lemma statuses_differ [simp]:
  "StatusBadRequest \<noteq> StatusOK" "StatusUnauthorized \<noteq> StatusOK" "StatusForbidden \<noteq> StatusOK"
  "StatusNotFound \<noteq> StatusOK" "StatusMethodNotAllowed \<noteq> StatusOK" "StatusProxyAuthRequired \<noteq> StatusOK"
  "StatusConflict \<noteq> StatusOK" "StatusInternalServerError \<noteq> StatusOK" "StatusServiceUnavailable \<noteq> StatusOK"
  "StatusBadRequest \<noteq> StatusTooManyRequests" "StatusUnauthorized \<noteq> StatusTooManyRequests"
  "StatusForbidden \<noteq> StatusTooManyRequests" "StatusNotFound \<noteq> StatusTooManyRequests"
  "StatusMethodNotAllowed \<noteq> StatusTooManyRequests" "StatusProxyAuthRequired \<noteq> StatusTooManyRequests"
  "StatusConflict \<noteq> StatusTooManyRequests" "StatusInternalServerError \<noteq> StatusTooManyRequests"
  "StatusServiceUnavailable \<noteq> StatusTooManyRequests"
  by (simp_all add: status_defs)

lemma with_cookie_ok [simp]: "response_ok ((ok v)\<lparr>rs_cookie := c\<rparr>) \<longleftrightarrow> \<not> message v"
  by (auto simp: response_ok_def ok_def statuses_def status_defs)

lemma retry_ok [simp]: "response_ok ((http_error StatusTooManyRequests t)\<lparr>rs_retry := Some n\<rparr>)"
  by (simp add: response_ok_def http_error_def statuses_def status_defs)

lemma answers_ok_shared [simp]:
  "answers_ok (fst (not_allowed s))" "answers_ok (fst (db_error s))" "answers_ok (fst (bad_id s))"
  by (simp_all add: not_allowed_def db_error_def bad_id_def)

lemma requireAdmin_refusal: "requireAdmin L now r s = Inl rs \<Longrightarrow> response_ok rs"
  by (auto simp: requireAdmin_def split: option.splits sum.splits bool.splits)

lemma cookies_ok [simp]:
  "response_ok (setSession r tok (ok v)) \<longleftrightarrow> \<not> message v" "response_ok (clearSession r (ok v)) \<longleftrightarrow> \<not> message v"
  by (simp_all add: setSession_def clearSession_def)

section \<open>Every handler, on every branch\<close>

lemma as_admin_answers: "(\<And>s. answers_ok (fst (h r s))) \<Longrightarrow> answers_ok (fst (as_admin L now h r s))"
  using requireAdmin_refusal [of L now r s] by (auto simp: as_admin_def split: sum.split)

lemma user_handlers_answer:
  "answers_ok (fst (handle_login L now rnd r s))" "answers_ok (fst (handle_logout L r s))"
  "answers_ok (fst (handle_register L now r s))" "answers_ok (fst (handle_me L now r s))"
  "answers_ok (fst (handle_user_routes L now r s))" "answers_ok (fst (handle_extend L now r s))"
  "answers_ok (fst (handle_user_sessions L now r s))" "answers_ok (fst (handle_config r s))"
  "answers_ok (fst (handle_example r s))" "answers_ok (fst (handle_health s))"
  by (simp_all add: handle_login_def handle_logout_def handle_register_def handle_me_def handle_user_routes_def
      handle_extend_def handle_user_sessions_def handle_config_def handle_example_def handle_health_def Let_def
      split: sum.split option.split prod.split)

lemma admin_pages_answer:
  "answers_ok (fst (users_page L r s))" "answers_ok (fst (user_groups_page L r s))"
  "answers_ok (fst (groups_page L now r s))" "answers_ok (fst (invites_page L now rnd r s))"
  "answers_ok (fst (settings_page L now r s))" "answers_ok (fst (metrics_page L now r s))"
  "answers_ok (fst (throttle_page L now r s))"
  by (simp_all add: users_page_def user_groups_page_def groups_page_def invites_page_def settings_page_def
      metrics_page_def throttle_page_def Let_def split: sum.split option.split prod.split)

lemma routes_page_answers: "answers_ok (fst (routes_page L now rnd r s))"
proof -
  have range: "answers_ok (fst (createRouteRange L now rnd ra s))" for ra s
    by (simp add: createRouteRange_def Let_def split: option.split sum.split prod.split)
  have "answers_ok (fst (routes_post L now rnd r s))"
    using range by (simp add: routes_post_def Let_def split: option.split sum.split prod.split)
  then show ?thesis
    by (simp add: routes_page_def routes_put_def routes_delete_def Let_def split: option.split sum.split prod.split)
qed

lemma call_api_answers: "answers_ok (fst (call_api L now rnd a r s))"
  by (cases a) (simp_all add: user_handlers_answer admin_pages_answer routes_page_answers as_admin_answers)

lemma withAuthForKey_answers:
  assumes "withAuthForKey L now rk r w = (Stop rs, w')"
  shows "response_ok rs"
proof -
  have "response_ok rs" if "apply_decision L now ip rk (auth_decide by_ip by_cookie cr ip ck) w = (Some rs, w')" for ip by_ip by_cookie cr ck w
    using that by (auto simp: auth_decide_def Let_def split: if_splits sum.splits option.splits)
  with assms show ?thesis
    by (auto simp: withAuthForKey_def Let_def split: if_splits prod.splits option.splits)
qed

lemma serve_answers: "answers_ok (fst (serve L now rnd r h s))"
proof (induction h arbitrary: s)
  case (AuthHandler rk h)
  then show ?case by (auto split: prod.split verdict.split dest: withAuthForKey_answers)
qed (simp_all add: call_api_answers split: sum.split)

text \<open>
  C14: every answer of the program is well typed. Whatever the request and the state, a response that the router,
  the gate or any of the API handlers writes has one of the eleven statuses of the source; its body is data
  exactly when the status is 200 and an error message otherwise; a session cookie is set or cleared by a
  successful answer only; and \<open>Retry-After\<close> is there exactly on 429.
\<close>

theorem responses_well_typed: "answers_ok (fst (serve_route L now rnd r s))"
  by (simp add: serve_route_def Let_def serve_answers split: prod.split option.split)

section \<open>The listener is not consulted\<close>

lemma tls_ip: "extractClientIP (r\<lparr>rq_tls := b\<rparr>) = extractClientIP r" "rq_cookie (r\<lparr>rq_tls := b\<rparr>) = rq_cookie r"
  by (simp_all add: extractClientIP_def split: option.split)

lemma gate_tls: "withAuthForKey L now rk (r\<lparr>rq_tls := b\<rparr>) w = withAuthForKey L now rk r w"
  by (simp only: withAuthForKey_def tls_ip)

lemma serve_tls: "content (fst (serve L now rnd r h s)) \<Longrightarrow> serve L now rnd (r\<lparr>rq_tls := b\<rparr>) h s = serve L now rnd r h s"
proof (induction h arbitrary: s)
  case (AuthHandler rk h)
  then show ?case by (auto simp: gate_tls split: prod.splits verdict.splits)
next
  case (InjectHandler h)
  then show ?case using call_api_content by (auto split: if_splits sum.splits)
qed (simp_all add: call_api_content forward_def director_def)

text \<open>
  C15: the port of the Host header picks the route, not the socket. A request that names a port in its Host header
  is served the same content, with the same effects, when it arrives in clear on any plain listener as when it
  arrives over the TLS of the port that it names: the TLS setting of a route, and a firewall in front of its
  port, do not protect it while another listener of the proxy can be reached.
\<close>

theorem listener_is_not_checked:
  assumes "serve_route L now rnd (r\<lparr>rq_tls := True\<rparr>) s = (out, s')" "content out" "split_host_port (rq_host r) \<noteq> None"
  shows "serve_route L now rnd (r\<lparr>rq_tls := False\<rparr>) s = (out, s')"
proof -
  let ?t = "r\<lparr>rq_tls := True\<rparr>"
  have k: "route_key (r\<lparr>rq_tls := b\<rparr>) = route_key r" for b using assms(3) by (auto simp: route_key_def)
  have "serve L now rnd (r\<lparr>rq_tls := False\<rparr>) h s = (out, s')" if "serve L now rnd ?t h s = (out, s')" for h s
    using serve_tls [of L now rnd ?t h s False] that assms(2) by simp
  then show ?thesis using assms(1,2)
    by (auto simp: serve_route_def k tls_ip Let_def split: prod.splits option.splits if_splits)
qed

definition tls_request :: request where
  "tls_request = lan_request\<lparr>rq_host := ''a.b:80'', rq_tls := True\<rparr>"

lemma gate_reads_client:
  "extractClientIP r = extractClientIP r' \<Longrightarrow> rq_cookie r = rq_cookie r' \<Longrightarrow> withAuthForKey L now rk r w = withAuthForKey L now rk r' w"
  by (simp only: withAuthForKey_def)

theorem listener_is_not_checked_witness:
  "\<exists>out s'. content out \<and> serve_route plain_lib 50 [] (tls_request\<lparr>rq_tls := False\<rparr>) gate_site = (out, s')"
proof -
  have sp: "split_host_port ''a.b:80'' = Some (''a.b'', ''80'')" "to_lower ''a.b'' = ''a.b''" by code_simp+
  have "extractClientIP tls_request = extractClientIP lan_request" "rq_cookie tls_request = rq_cookie lan_request"
    by (simp_all add: tls_request_def extractClientIP_def split: option.split)
  then have ip: "extractClientIP tls_request = ''lan''" "rq_cookie tls_request = None" by (simp_all add: sample_facts)
  obtain b w1 where b: "check_banned 50 ''lan'' sample_world = (b, w1)" by force
  then have nb: "\<not> b" using check_banned_sel(1) [of 50 "''lan''" sample_world] sample_facts(7) by simp
  obtain w2 where w2: "withAuthForKey plain_lib 50 ''a.b:80'' lan_request w1 = (Pass, w2)"
    using lan_passes [of w1] b nb by (metis prod.collapse)
  then have w2': "withAuthForKey plain_lib 50 ''a.b:80'' tls_request w1 = (Pass, w2)"
    using gate_reads_client [of tls_request lan_request] ip sample_facts(5,6) by simp
  obtain ls h where h: "map_of (px_servers gate_proxy) ''80'' = Some ls"
    "map_of (ls_handlers ls) ''a.b'' = Some (AuthHandler ''a.b:80'' (BackendHandler h ''http://10.0.0.1:80''))"
    using gate_handler by blast
  have k: "route_key tls_request = (''a.b'', ''80'')" using sp by (simp add: route_key_def tls_request_def)
  have site: "s_world gate_site = sample_world" "s_proxy gate_site = gate_proxy" by (simp_all add: gate_site_def demo_site_def)
  obtain out s' where o: "serve_route plain_lib 50 [] tls_request gate_site = (out, s')" by force
  have "content (fst (serve_route plain_lib 50 [] tls_request gate_site))"
    using site b nb w2' h by (simp add: serve_route_def Let_def k ip)
  moreover have "tls_request\<lparr>rq_tls := True\<rparr> = tls_request" "rq_host tls_request = ''a.b:80''" by (simp_all add: tls_request_def)
  ultimately show ?thesis using listener_is_not_checked [of plain_lib 50 "[]" tls_request gate_site out s'] o sp(1) by auto
qed

end
