(* ===== verification/RawGate.thy ===== *)
theory RawGate
  imports RawRelay
begin

text \<open>
  The gate of the raw relays beside that of the HTTP routes, and what refused datagrams do to the access log.
\<close>

section \<open>The two gates\<close>

text \<open>A route whose only restriction is that its visitors are signed in.\<close>

definition login_only :: "route \<Rightarrow> bool" where
  "login_only r \<longleftrightarrow> rt_require_login r \<and> \<not> rt_ip_auth r \<and> rt_groups r = [] \<and> rt_ips r = []"

text \<open>
  C10: the gate of the raw relays against that of the HTTP routes, for one route and one client without a cookie
  that is neither banned nor rate-limited. The two agree but for two kinds of route. One that only requires a
  login HTTP refuses, while the relays open it to everybody. On one with allowed groups and without IP auth HTTP
  goes by the listed addresses only, while the relays also accept the address of a session of an allowed
  group.
\<close>

theorem raw_gate_against_http_gate:
  assumes "authStore w" "authCache w = Some m" "m rk = Some cr" "store_ready L (dbase w)"
    and "\<not> fst (IsBanned now (extractClientIP r) (thr w))" "fst (fst (Allow now (extractClientIP r) (thr w)))"
    and "rq_cookie r = None"
  defines "http \<equiv> fst (withAuthForKey L now rk r w) = Pass"
    and "raw \<equiv> \<exists>u. fst (authorizeIP L now rk (extractClientIP r) w) = Some (True, u)"
    and "listed \<equiv> rt_ips (cr_route cr) \<noteq> [] \<and> ipAllows cr (extractClientIP r)"
  shows "if login_only (cr_route cr) then raw \<and> \<not> http
    else if rt_groups (cr_route cr) \<noteq> [] \<and> \<not> rt_ip_auth (cr_route cr)
    then (http \<longleftrightarrow> listed) \<and> (raw \<longleftrightarrow> listed \<or> (\<exists>s. authorised_ip now (dbase w) (extractClientIP r) (cr_groupIDs cr) s))
    else raw \<longleftrightarrow> http"
  unfolding http_def raw_def withAuthForKey_found [OF assms(1-3,5,6)] decide_granted [OF assms(4)] authorizeIP_granted [OF assms(1-4)]
  using assms(7) by (auto simp: listed_def granted_def raw_granted_def public_route_def login_only_def)

definition signed_in_route :: route where
  "signed_in_route = (new_route 1 0 ''a.b:22'' ''app'' ''tcp'' False [] [] ''ui'' [])\<lparr>rt_require_login := True\<rparr>"

theorem raw_gate_against_http_gate_witness:
  "(\<exists>u. fst (authorizeIP plain_lib 50 ''a.b:22'' ''lan''
     (sample_world\<lparr>authCache := Some [''a.b:22'' \<mapsto> parseCachedRoute signed_in_route]\<rparr>)) = Some (True, u)) \<and>
   fst (withAuthForKey plain_lib 50 ''a.b:22'' lan_request
     (sample_world\<lparr>authCache := Some [''a.b:22'' \<mapsto> parseCachedRoute signed_in_route]\<rparr>)) \<noteq> Pass"
proof -
  let ?m = "[''a.b:22'' \<mapsto> parseCachedRoute signed_in_route]"
  have r: "cr_route (parseCachedRoute signed_in_route) = signed_in_route" by (simp add: parseCachedRoute_def Let_def)
  have lo: "login_only signed_in_route" by (simp add: login_only_def signed_in_route_def new_route_def)
  have "authCache (sample_world\<lparr>authCache := Some ?m\<rparr>) = Some ?m" "?m ''a.b:22'' = Some (parseCachedRoute signed_in_route)"
    by simp_all
  from raw_gate_against_http_gate [OF _ this, of plain_lib 50 lan_request] show ?thesis by (simp add: sample_facts r lo)
qed

section \<open>Refused datagrams and the access log\<close>

text \<open>A datagram at a UDP relay, and the drain writing one entry of the log queue; they come in any order.\<close>

datatype flood_event = Datagram time string | Written time

fun flood_step :: "lib \<Rightarrow> flood_event \<Rightarrow> udp_relay \<times> world \<Rightarrow> udp_relay \<times> world" where
  "flood_step L (Datagram now key) uw = snd (udp_packet L now key True uw)"
| "flood_step L (Written now) (u, w) = (u, drain_log L now w)"

text \<open>
  How many entries are written when \<open>q\<close> are queued at first: a datagram that finds 512 in the queue adds none, and
  the drain waits while the queue is empty.
\<close>

fun written :: "nat \<Rightarrow> flood_event list \<Rightarrow> nat" where
  "written q [] = 0"
| "written q (Datagram now key # es) = written (if q < 512 then q + 1 else q) es"
| "written q (Written now # es) = (if q = 0 then written 0 es else Suc (written (q - 1) es))"

text \<open>No policy bans for failures, as the database is set up; and the address is not banned.\<close>

definition no_auto_ban :: "limiter \<Rightarrow> bool" where
  "no_auto_ban lm \<longleftrightarrow> (\<forall>t p. policyFor lm t = Some p \<longrightarrow> \<not> tp_ban_enabled p \<or> tp_ban_threshold p \<le> 0)"

lemma RecordFailure_no_ban:
  assumes "no_auto_ban lm"
  shows "\<exists>b. RecordFailure L hs now ip (lm, d) = (put_bucket ip b lm, d)"
proof (cases "policyFor lm (bk_tier (bucketFor now ip lm))")
  case (Some p)
  with assms have "\<not> tp_ban_enabled p \<or> tp_ban_threshold p \<le> 0" by (auto simp: no_auto_ban_def)
  with Some show ?thesis by (auto simp: RecordFailure_def Let_def)
qed (auto simp: RecordFailure_def Let_def)

text \<open>Datagrams that the gate of the relay refuses, from senders without a ban, with only such entries queued.\<close>

definition refusing :: "flood_event list \<Rightarrow> cachedRoute \<Rightarrow> lib \<Rightarrow> udp_relay \<Rightarrow> world \<Rightarrow> bool" where
  "refusing es cr L u w \<longleftrightarrow> ur_open u \<and> ur_sessions u = [] \<and> authStore w \<and>
     (\<exists>m. authCache w = Some m \<and> m (ur_url u) = Some cr) \<and> store_ready L (dbase w) \<and> no_auto_ban (thr w) \<and>
     (\<forall>e \<in> set (logChan w). le_user e = ''Unauthorized User'') \<and>
     (\<forall>now key. Datagram now key \<in> set es \<longrightarrow>
        banned (thr w) (client_ip key) = None \<and> \<not> raw_granted now (dbase w) cr (client_ip key))"

lemma refused_gate:
  assumes "authStore w" "authCache w = Some m" "m url = Some cr" "store_ready L (dbase w)" "\<not> raw_granted now (dbase w) cr ip"
  shows "\<exists>v. authorizeIP L now url ip w = (Some (False, v), w)"
  using authorizeIP_granted [OF assms(1-4), of now ip] assms
  by (auto simp: authorizeIP_def Let_def split: sum.splits if_splits)

text \<open>A refused datagram only queues its entry, if there is room, and counts as a failure.\<close>

lemma refused_datagram:
  assumes "refusing (Datagram now key # es) cr L u w"
  shows "\<exists>w'. udp_packet L now key True (u, w) = (Dropped, (u, w')) \<and> refusing es cr L u w' \<and> dbase w' = dbase w \<and>
    length (logChan w') = (if length (logChan w) < 512 then length (logChan w) + 1 else length (logChan w))"
proof -
  let ?ip = "client_ip key" and ?url = "ur_url u"
  from assms obtain m where m: "authCache w = Some m" "m ?url = Some cr" and r: "authStore w" "store_ready L (dbase w)"
    "\<not> raw_granted now (dbase w) cr ?ip" "banned (thr w) ?ip = None" "no_auto_ban (thr w)"
    by (auto simp: refusing_def)
  obtain v where v: "authorizeIP L now ?url ?ip w = (Some (False, v), w)" using refused_gate [OF r(1) m r(2,3)] by blast
  have nb: "check_banned now ?ip w = (False, w)" using r(4) by (simp add: check_banned_thr IsBanned_def ban_has_def)
  obtain b where b: "RecordFailure L (authStore w) now ?ip (thr w, dbase w) = (put_bucket ?ip b (thr w), dbase w)"
    using RecordFailure_no_ban [OF r(5)] by blast
  define w' where "w' = raw_reject L now ?ip ?url w"
  have p: "udp_packet L now key True (u, w) = (Dropped, (u, w'))"
    using assms v nb by (simp add: w'_def udp_packet_def refusing_def)
  have "dbase w' = dbase w" "thr w' = put_bucket ?ip b (thr w)" "authStore w' = authStore w" "authCache w' = authCache w"
    "logChan w' = logChan (logAccess ?ip ''Unauthorized User'' ?url w)"
    using b by (simp_all add: w'_def raw_reject_def logAccess_def record_event_def record_failure_def)
  then show ?thesis
    using assms p by (auto simp: refusing_def no_auto_ban_def logAccess_def)
qed

lemma written_entry:
  assumes "refusing (Written now # es) cr L u w" "\<not> db_fault L ''LogAccess''"
  shows "\<exists>rows. refusing es cr L u (drain_log L now w) \<and> accesses (dbase (drain_log L now w)) = accesses (dbase w) @ rows \<and>
    length (logChan (drain_log L now w)) = length (logChan w) - 1 \<and> length rows = (if logChan w = [] then 0 else 1) \<and>
    (\<forall>r \<in> set rows. al_user r = ''Unauthorized User'' \<and> al_created r = sql_now now)"
proof (cases "logChan w")
  case Nil
  then have "drain_log L now w = w" by (simp add: drain_log_def)
  with assms(1) Nil show ?thesis by (intro exI [of _ "[]"]) (simp add: refusing_def)
next
  case (Cons e q)
  define d where "d = LogAccess L now (dbase w) (le_ip e) (le_user e) (le_route e)"
  have w': "drain_log L now w = w\<lparr>logChan := q, dbase := d\<rparr>" using Cons by (simp add: drain_log_def d_def)
  have d: "d = (dbase w)\<lparr>accesses := accesses (dbase w) @ [\<lparr>al_id = accesses_seq (dbase w) + 1, al_ip = le_ip e,
      al_user = le_user e, al_route = le_route e, al_created = sql_now now\<rparr>], accesses_seq := accesses_seq (dbase w) + 1\<rparr>"
    using assms(2) by (simp add: d_def LogAccess_def)
  have "raw_granted t d cr ip = raw_granted t (dbase w) cr ip" for t ip
    by (simp add: d raw_granted_def authorised_ip_def live_session_def in_some_group_def)
  moreover have "store_ready L d" using assms(1) by (simp add: refusing_def store_ready_def d_def LogAccess_ok)
  ultimately have "refusing es cr L u (drain_log L now w)" using assms(1) Cons by (auto simp: refusing_def w')
  with assms(1) Cons show ?thesis by (auto simp: w' d refusing_def)
qed

lemma flood_run:
  assumes "refusing es cr L u w" "\<not> db_fault L ''LogAccess''"
  shows "\<exists>w' rows. fold (flood_step L) es (u, w) = (u, w') \<and> db_ok (dbase w') \<and>
    accesses (dbase w') = accesses (dbase w) @ rows \<and> length rows = written (length (logChan w)) es \<and>
    (\<forall>r \<in> set rows. al_user r = ''Unauthorized User'' \<and> (\<exists>now. Written now \<in> set es \<and> al_created r = sql_now now))"
  using assms(1)
proof (induction es arbitrary: w)
  case (Cons e es)
  show ?case
  proof (cases e)
    case (Datagram now key)
    from refused_datagram [OF Cons.prems [unfolded Datagram]] obtain w1 where w1:
      "udp_packet L now key True (u, w) = (Dropped, (u, w1))" "refusing es cr L u w1" "dbase w1 = dbase w"
      "length (logChan w1) = (if length (logChan w) < 512 then length (logChan w) + 1 else length (logChan w))" by blast
    with Cons.IH [OF w1(2)] Datagram show ?thesis by (simp del: length_0_conv)
  next
    case (Written now)
    let ?w = "drain_log L now w"
    from written_entry [OF Cons.prems [unfolded Written] assms(2)] obtain row where w1:
      "refusing es cr L u ?w" "accesses (dbase ?w) = accesses (dbase w) @ row" "length (logChan ?w) = length (logChan w) - 1"
      "length row = (if logChan w = [] then 0 else 1)" "\<forall>r \<in> set row. al_user r = ''Unauthorized User'' \<and> al_created r = sql_now now"
      by blast
    from Cons.IH [OF w1(1)] obtain w' rows where r: "fold (flood_step L) es (u, ?w) = (u, w')" "db_ok (dbase w')"
      "accesses (dbase w') = accesses (dbase ?w) @ rows" "length rows = written (length (logChan ?w)) es"
      "\<forall>r \<in> set rows. al_user r = ''Unauthorized User'' \<and> (\<exists>now. Written now \<in> set es \<and> al_created r = sql_now now)" by blast
    have "length (row @ rows) = written (length (logChan w)) (e # es)" using w1(3,4) r(4) Written by simp
    moreover have "\<forall>r \<in> set (row @ rows). al_user r = ''Unauthorized User'' \<and> (\<exists>now. Written now \<in> set (e # es) \<and> al_created r = sql_now now)"
      using w1(5) r(5) Written by auto
    ultimately show ?thesis using r(1-3) w1(2) Written by (intro exI [of _ w'] exI [of _ "row @ rows"]) simp
  qed
qed (auto simp: refusing_def store_ready_def)

text \<open>Rows that are all later than the others come first, newest first.\<close>

lemma insort_key_append: "\<forall>y \<in> set b. f x \<le> f y \<Longrightarrow> insort_key f x (a @ b) = insort_key f x a @ b"
  by (induction a) (cases b, auto)

lemma sort_key_append: "\<forall>x \<in> set xs. \<forall>y \<in> set ys. f x \<le> f y \<Longrightarrow> sort_key f (xs @ ys) = sort_key f xs @ sort_key f ys"
  by (induction xs) (simp_all add: insort_key_append)

lemma newest_first_append:
  "\<forall>x \<in> set xs. \<forall>y \<in> set ys. f x \<le> f y \<Longrightarrow> newest_first f (xs @ ys) = newest_first f ys @ newest_first f xs"
  by (simp add: newest_first_def sort_key_append)

text \<open>
  C18: anybody can wipe the access log. Refused datagrams are queued for the log like accesses, under
  \<^verbatim>\<open>Unauthorized User\<close>, as long as the queue has room, and the log keeps its newest 5000 rows. With auto-bans off, as
  they are until an administrator turns them on, refused datagrams of any senders arrive and the drain writes, in
  any order: once 5000 of their entries have been written, no row that was there before is left by the next
  clean-up.
\<close>

theorem refused_datagrams_wipe_log:
  assumes "refusing es cr L u w" "logChan w = []" "\<not> db_fault L ''LogAccess''" "\<not> db_fault L ''CleanupOldAccessLog''"
    and "5000 \<le> written 0 es" "\<forall>now. Written now \<in> set es \<longrightarrow> (\<forall>r \<in> set (accesses (dbase w)). al_created r < sql_now now)"
  shows "\<forall>r \<in> set (accesses (CleanupOldAccessLog L (dbase (snd (fold (flood_step L) es (u, w)))))).
    al_user r = ''Unauthorized User'' \<and> r \<notin> set (accesses (dbase w))"
proof -
  obtain w' rows where w': "fold (flood_step L) es (u, w) = (u, w')" "db_ok (dbase w')"
    "accesses (dbase w') = accesses (dbase w) @ rows" "length rows = written 0 es"
    "\<forall>r \<in> set rows. al_user r = ''Unauthorized User'' \<and> (\<exists>now. Written now \<in> set es \<and> al_created r = sql_now now)"
    using flood_run [OF assms(1,3)] assms(2) by auto
  have new: "al_user r = ''Unauthorized User'' \<and> (\<forall>x \<in> set (accesses (dbase w)). al_created x < al_created r)" if "r \<in> set rows" for r
    using w'(5) that assms(6) by fastforce
  let ?sorted = "newest_first al_created (accesses (dbase w) @ rows)"
  have "?sorted = newest_first al_created rows @ newest_first al_created (accesses (dbase w))"
    using new by (intro newest_first_append) force
  moreover have "5000 \<le> length (newest_first al_created rows)"
    using assms(5) w'(4) by (simp add: newest_first_def)
  ultimately have "set (take 5000 ?sorted) \<subseteq> set rows" using set_take_subset [of 5000 "newest_first al_created rows"] by simp
  moreover have "set (accesses (CleanupOldAccessLog L (dbase w'))) = set (take 5000 ?sorted)"
    using arg_cong [OF cleaned_newest [OF w'(2) assms(4)], of set] by (simp add: w'(3))
  ultimately show ?thesis using new w'(1) by fastforce
qed

definition address_route :: route where
  "address_route = (new_route 1 0 ''a.b:53'' ''app'' ''udp'' False [] [] ''ui'' [])\<lparr>rt_ips := ''10.0.0.9''\<rparr>"

definition logged_world :: world where
  "logged_world = sample_world\<lparr>authCache := Some [''a.b:53'' \<mapsto> parseCachedRoute address_route],
     dbase := LogAccess plain_lib 0 sample_db ''lan'' ''bob'' ''a.b:80''\<rparr>"

definition flood :: "nat \<Rightarrow> flood_event list" where
  "flood n = concat (replicate n [Datagram (7 * Second) ''[lan]:5'', Written (7 * Second)])"

lemma flood_written: "written 0 (flood n) = n"
  by (induction n) (simp_all add: flood_def)

lemma flood_set: "e \<in> set (flood n) \<Longrightarrow> e = Datagram (7 * Second) ''[lan]:5'' \<or> e = Written (7 * Second)"
  by (induction n) (auto simp: flood_def)

theorem refused_datagrams_wipe_log_witness:
  "accesses (dbase logged_world) \<noteq> [] \<and>
   list_all (\<lambda>r. al_user r = ''Unauthorized User'') (accesses (CleanupOldAccessLog plain_lib (dbase (snd (fold (flood_step plain_lib)
      (flood 5000) (fresh_relay ''t:1'' ''a.b:53'', logged_world))))))"
proof -
  let ?cr = "parseCachedRoute address_route"
  have ip: "client_ip ''[lan]:5'' = ''lan''" by code_simp
  have r: "cr_route ?cr = address_route" by (simp add: parseCachedRoute_def Let_def)
  have lr: "\<not> rt_ip_auth address_route" "rt_groups address_route = []" "rt_ips address_route \<noteq> []"
    by (simp_all add: address_route_def new_route_def)
  have "\<not> ipAllows ?cr ''lan''" by code_simp
  then have ng: "\<not> raw_granted t d ?cr ''lan''" for t d by (simp add: raw_granted_def r lr)
  have d: "dbase logged_world = LogAccess plain_lib 0 sample_db ''lan'' ''bob'' ''a.b:80''" by (simp add: logged_world_def)
  have w: "logChan logged_world = []" "authStore logged_world" "banned (thr logged_world) = (\<lambda>_. None)"
    "policies (thr logged_world) = (\<lambda>_. None)" "authCache logged_world = Some [''a.b:53'' \<mapsto> ?cr]"
    by (simp_all add: logged_world_def sample_world_def world0_def limiter0_def)
  have "store_ready plain_lib (dbase logged_world)"
    using sample_facts(4) by (simp add: d store_ready_def LogAccess_ok)
  then have rf: "refusing (flood 5000) ?cr plain_lib (fresh_relay ''t:1'' ''a.b:53'') logged_world"
    using ng by (auto simp: refusing_def ip fresh_relay_def no_auto_ban_def policyFor_def w dest!: flood_set)
  have old: "accesses (dbase logged_world) \<noteq> []" "\<forall>r \<in> set (accesses (dbase logged_world)). al_created r < sql_now (7 * Second)"
    by (simp_all add: d LogAccess_def sample_db_def empty_db_def plain_lib_def sql_now_def time_defs)
  have n: "\<not> db_fault plain_lib ''LogAccess''" "\<not> db_fault plain_lib ''CleanupOldAccessLog''" "5000 \<le> written 0 (flood 5000)"
    "\<forall>now. Written now \<in> set (flood 5000) \<longrightarrow> (\<forall>r \<in> set (accesses (dbase logged_world)). al_created r < sql_now now)"
    using old(2) by (auto simp: plain_lib_def flood_written dest: flood_set)
  show ?thesis
    unfolding list_all_iff by (rule conjI [OF old(1)], rule ballI, rule conjunct1, rule bspec [OF refused_datagrams_wipe_log [OF rf w(1) n]])
qed

end
