(* ===== verification/Spec2Isabelle.thy ===== *)
theory Spec2Isabelle
  imports Shutdown Telemetry RelayPipe UdpFlows SessionSpec Responses RawGate
begin

text \<open>
  \<^bold>\<open>reMazarin: a verification development.\<close>

  reMazarin is a reverse proxy with its own login. It listens on the ports of its routes, forwards HTTP
  requests to backends or serves files, relays raw TCP and UDP, and asks for every connection whether the
  client may use the route: by a session on the client's address, by a listed address, or by the cookie of a
  login. Routes come from a configuration file and from an admin page; users, groups, sessions, invites,
  routes, bans and logs are rows of a SQLite database. This development models that program from its sources
  under \<^verbatim>\<open>src/\<close> and proves what makes it correct, and where it is not.

  \<^bold>\<open>Theories and code.\<close> Each theory is a component and follows the order of its source file; a definition has
  the name of the function it translates.

  \<^item> \<open>Prelude\<close>: 64-bit wrap-around, the shapes of SQL statements over a table kept as the list of its rows, and
    two contracts as locales: \<open>keyed_store\<close> (what a lookup returns after a put or a delete) and
    \<open>mirrored_store\<close> (a table and the in-memory map that mirrors it).
  \<^item> \<open>GoText\<close>, \<open>GoTime\<close>, \<open>GoNet\<close>: what is used of \<^verbatim>\<open>strings\<close>, \<^verbatim>\<open>strconv\<close>, \<^verbatim>\<open>time\<close>, \<^verbatim>\<open>float64\<close> and \<^verbatim>\<open>net\<close> (host
    and port splitting, address parsing and printing, CIDR networks).
  \<^item> \<open>Schema\<close>, \<open>Accounts\<close>, \<open>Sessions\<close>, \<open>Invites\<close>, \<open>ThrottleStore\<close>, \<open>AccessLog\<close>, \<open>RouteStore\<close>: \<^verbatim>\<open>storage/\<close>.
    The record \<open>db\<close> holds the tables with their counters; \<open>db_ok\<close> is the conjunction of the PRIMARY KEY,
    UNIQUE and REFERENCES constraints, and each operation keeps it. \<open>SessionSpec\<close> states the session store
    as a map from token digests to sessions and proves that the tables refine it.
  \<^item> \<open>Migrations\<close>: the migrations of \<^verbatim>\<open>storage/storage.go\<close>, the splitting of a file into statements included.
  \<^item> \<open>Events\<close>, \<open>Limiter\<close>, \<open>Access\<close>: \<^verbatim>\<open>proxy/metrics.go\<close>, \<^verbatim>\<open>proxy/limiter.go\<close>, \<^verbatim>\<open>proxy/auth.go\<close>. \<open>world\<close> is
    the state their package variables hold, with the database.
  \<^item> \<open>Registry\<close>, \<open>TlsSetup\<close>, \<open>RouteTable\<close>, \<open>RouteLife\<close>: \<^verbatim>\<open>api/api.go\<close>, \<^verbatim>\<open>proxy/tls.go\<close> and the live route table
    of \<^verbatim>\<open>proxy/proxy.go\<close>. A handler is a value of the datatype \<open>handler\<close>, one constructor for each wrapper of the code.
  \<^item> \<open>RawRelay\<close>, \<open>RawGate\<close>, \<open>RelayPipe\<close>, \<open>UdpFlows\<close>: \<^verbatim>\<open>proxy/tcp.go\<close>, \<^verbatim>\<open>proxy/udp.go\<close>. \<open>RawRelay\<close> takes a
    connection or a datagram as one step; \<open>RelayPipe\<close> and \<open>UdpFlows\<close> take the goroutines that copy statement by
    statement, with the flows as heap objects that the read loop, the reaper and the pumps share.
  \<^item> \<open>Http\<close>, \<open>ApiCore\<close>, \<open>ApiAdmin\<close>, \<open>ApiRoutes\<close>: requests and responses, and every handler of \<^verbatim>\<open>api/\<close>. \<open>site\<close> is the
    state of the whole program.
  \<^item> \<open>Dispatch\<close>, \<open>Gateway\<close>, \<open>Responses\<close>: \<^verbatim>\<open>proxy/router.go\<close>, \<^verbatim>\<open>proxy/listeners.go\<close>, \<^verbatim>\<open>proxy/reverseProxy.go\<close> and the serving
    of a handler; what holds of a request from the router to its answer.
  \<^item> \<open>Boot\<close>, \<open>Telemetry\<close>, \<open>System\<close>, \<open>Sockets\<close>, \<open>Shutdown\<close>: \<^verbatim>\<open>config.go\<close>, \<^verbatim>\<open>main.go\<close>, \<^verbatim>\<open>otel.go\<close>, \<^verbatim>\<open>logging.go\<close>; the
    program as a transition system; the goroutines that open and close sockets, in any order; the statements with
    which the program ends, beside whatever still runs.

  \<^bold>\<open>How it is modelled.\<close> Stateful code takes the state and returns it; the clock, the random bytes and the
  outcome of a dial are arguments. A Go \<^verbatim>\<open>time.Time\<close> in a row is compared as a time. Go errors are the datatype \<open>err\<close> on the left of a sum, HTTP answers are the
  datatype \<open>outcome\<close>, in which a panic and a handler that never returns are values. Code that is not in the
  repository is the record \<open>lib\<close>: which statements the driver fails, the digest, the password hash, the file
  system, and SQLite's comparison with its own clock. \<open>plain_lib\<close> is the concrete instance on which the
  witnesses evaluate. Durations and counters are 64-bit and wrap; \<^verbatim>\<open>float64\<close> results are rounded by \<open>fl\<close>. The
  only loops that may not end, over the ports of a range, are partial functions whose value \<open>None\<close> is not
  returning; every other recursion is structural or has its termination proof, and no fuel is used. That the goroutines
  of a relay end is proved by a measure that each of their own statements decreases.

  \<^bold>\<open>What the theorems show.\<close>

  \<^item> The whole program: \<open>reachable_invariant\<close> (constraints, capacities, every handler behind its own check),
    \<open>reachable_serves_granted\<close> (what is served was granted), \<open>reachable_never_panics\<close>, \<open>admin_route_protected\<close>,
    \<open>only_admins_reconfigure\<close>, \<open>admin_gate\<close>.
  \<^item> The gate: \<open>withAuthForKey\<close> against the policy \<open>granted\<close> on every branch, group routes, bans and limits first;
    raw admission against \<open>raw_granted\<close>, and the two gates against each other; the cache is the table after a refresh. The gate's proofs are done
    once in the locale \<open>authenticator\<close>, which the session store interprets.
  \<^item> Accounts: a login round trip, registration and invites, own sessions, the session lookup by address; every sequence of session operations
    answers as the map it stands for.
  \<^item> Relays: each direction of a TCP relay is the stream of its sender, up to a point; a UDP datagram goes to and
    from its own client only, and every open target socket stays reachable; both end.
  \<^item> Answers: \<open>responses_well_typed\<close>.
  \<^item> Shutdown: no log entry is lost, and nothing panics while the servers stop in time.
  \<^item> Throttling: how many requests a bucket lets through, that a refused client may come back after the time it
    was told, when failures lead to a ban, and that the memory mirrors the table.
  \<^item> Routes: reconciliation with the file, ports never shared between HTTP and TCP, ranges created whole or not
    at all, every socket of the configuration opened after a start in whatever order the goroutines run.
  \<^item> Migrations: splitting is exact, a second run changes nothing.
  \<^item> What goes wrong, each on a concrete state: a group list without ids opens a raw route, an invite spent
    twice, a UDP flow that outlives a ban, a deleted UDP route that stays open, a target edit that takes another
    route's port, a range request that never returns, a ban that overflows, a failure window that does not
    slide, an accepted route that blocks the next start, a route whose port cannot be opened, a
    target edit that races with the old socket, an interrupted migration, login attempts outside the
    limiter, a login-only route that is open over TCP and UDP, a TLS route that is served in clear, an access log
    that anybody can wipe, a listener error that ends in a panic, telemetry and errors lost at the end, an answer
    lost by a half-close.

  \<^bold>\<open>Limits.\<close> A handler is one atomic step of \<open>site_step\<close>; two overlapping handlers are interleaved at that
  grain. Finer interleavings, statement by statement, are those of \<open>UseInvite_race\<close>, \<open>RelayPipe\<close>, \<open>UdpFlows\<close>,
  \<open>Sockets\<close> and \<open>Shutdown\<close>; what the code does under a mutex is one step there. White space and letter case are
  ASCII. Text in which the driver reports an error is its statement's name.

  \<^bold>\<open>Not modelled.\<close> Writing the log lines, and the SDK behind the telemetry (an argument of \<open>Telemetry\<close>); the
  handshake and the ciphers that \<^verbatim>\<open>crypto/tls\<close> runs from the configuration of \<open>TlsSetup\<close>; the network, whose
  choices are the labels of the steps; \<^verbatim>\<open>Ping\<close> and \<^verbatim>\<open>Close\<close> of the database, which only call the driver. The browser
  code under \<^verbatim>\<open>www/\<close> is a client of the modelled API.
\<close>

end
